(* ===== verification/Prelude.thy ===== *)
theory Prelude
  imports Main "HOL-Library.Word"
begin

text \<open>
  What the component theories share: the outcome type of fallible code, the state-passing
  monad of code that keeps a mutable context across errors, monadic list traversal (the
  \<^verbatim>\<open>collect::<Result<_, _>>()\<close> and \<^verbatim>\<open>try_for_each\<close> of the sources), the contract of
  fuelled recursion, and lemmas on lists, maps and byte strings.
\<close>

section \<open>Machine integers and byte strings\<close>

type_synonym u8 = "8 word"
type_synonym u32 = "32 word"
type_synonym u64 = "64 word"
type_synonym u128 = "128 word"

text \<open>The host is a 64-bit target, so \<^verbatim>\<open>usize\<close> has the width of \<^verbatim>\<open>u64\<close>.\<close>

type_synonym usize = "64 word"
type_synonym bytes = "u8 list"

section \<open>Outcomes of fallible code\<close>

text \<open>
  \<^term>\<open>Ok\<close> and \<^term>\<open>Err\<close> are the two cases of a Rust \<^verbatim>\<open>Result\<close>. \<^term>\<open>Panic\<close> is a
  panic (an index out of bounds, a failed \<^verbatim>\<open>expect\<close>). \<^term>\<open>NoFuel\<close> is no outcome of
  the code: a fuelled model gives it when its recursion bound is reached, and the enough-fuel
  lemmas rule it out.
\<close>

datatype ('e, 'a) res = Ok 'a | Err 'e | Panic | NoFuel

fun rbind :: "('e, 'a) res \<Rightarrow> ('a \<Rightarrow> ('e, 'b) res) \<Rightarrow> ('e, 'b) res" where
  "rbind (Ok a) f = f a"
| "rbind (Err e) f = Err e"
| "rbind Panic f = Panic"
| "rbind NoFuel f = NoFuel"

fun rmap :: "('a \<Rightarrow> 'b) \<Rightarrow> ('e, 'a) res \<Rightarrow> ('e, 'b) res" where
  "rmap f (Ok a) = Ok (f a)"
| "rmap f (Err e) = Err e"
| "rmap f Panic = Panic"
| "rmap f NoFuel = NoFuel"

fun rmap_err :: "('e \<Rightarrow> 'f) \<Rightarrow> ('e, 'a) res \<Rightarrow> ('f, 'a) res" where
  "rmap_err f (Ok a) = Ok a"
| "rmap_err f (Err e) = Err (f e)"
| "rmap_err f Panic = Panic"
| "rmap_err f NoFuel = NoFuel"

text \<open>\<^verbatim>\<open>ok_or\<close>: an absent value becomes the error.\<close>

fun ok_or :: "'e \<Rightarrow> 'a option \<Rightarrow> ('e, 'a) res" where
  "ok_or e None = Err e"
| "ok_or e (Some a) = Ok a"

text \<open>\<^verbatim>\<open>xs[i]\<close>: an index out of bounds panics.\<close>

definition index_or_panic :: "'a list \<Rightarrow> nat \<Rightarrow> ('e, 'a) res" where
  "index_or_panic xs i = (if i < length xs then Ok (xs ! i) else Panic)"

text \<open>\<^verbatim>\<open>xs[i..]\<close>: a start past the end panics, a start at the end does not.\<close>

definition tail_or_panic :: "'a list \<Rightarrow> nat \<Rightarrow> ('e, 'a list) res" where
  "tail_or_panic xs i = (if i \<le> length xs then Ok (drop i xs) else Panic)"

text \<open>\<^verbatim>\<open>iter().map(f).collect::<Result<Vec<_>, _>>()\<close>: left to right, stops at the first failure.\<close>

fun traverse :: "('a \<Rightarrow> ('e, 'b) res) \<Rightarrow> 'a list \<Rightarrow> ('e, 'b list) res" where
  "traverse f [] = Ok []"
| "traverse f (x # xs) = rbind (f x) (\<lambda>y. rbind (traverse f xs) (\<lambda>ys. Ok (y # ys)))"

text \<open>\<^verbatim>\<open>iter().try_for_each(f)\<close>.\<close>

fun try_each :: "('a \<Rightarrow> ('e, unit) res) \<Rightarrow> 'a list \<Rightarrow> ('e, unit) res" where
  "try_each f [] = Ok ()"
| "try_each f (x # xs) = rbind (f x) (\<lambda>_. try_each f xs)"

subsection \<open>Reasoning about outcomes\<close>

lemma rbind_Ok_iff [simp]: "rbind m f = Ok b \<longleftrightarrow> (\<exists>a. m = Ok a \<and> f a = Ok b)"
  by (cases m) auto

lemma rbind_Err_iff: "rbind m f = Err e \<longleftrightarrow> m = Err e \<or> (\<exists>a. m = Ok a \<and> f a = Err e)"
  by (cases m) auto

lemma rbind_NoFuel_iff: "rbind m f = NoFuel \<longleftrightarrow> m = NoFuel \<or> (\<exists>a. m = Ok a \<and> f a = NoFuel)"
  by (cases m) auto

lemma rbind_Panic_iff: "rbind m f = Panic \<longleftrightarrow> m = Panic \<or> (\<exists>a. m = Ok a \<and> f a = Panic)"
  by (cases m) auto

lemma rmap_Ok_iff [simp]: "rmap f m = Ok b \<longleftrightarrow> (\<exists>a. m = Ok a \<and> b = f a)"
  by (cases m) auto

lemma rmap_eq_iff [simp]:
  "rmap f m = NoFuel \<longleftrightarrow> m = NoFuel" "rmap f m = Panic \<longleftrightarrow> m = Panic"
  "rmap f m = Err e \<longleftrightarrow> m = Err e"
  by (cases m; simp)+

lemma rmap_err_Ok_iff [simp]: "rmap_err f m = Ok b \<longleftrightarrow> m = Ok b"
  by (cases m) auto

lemma rmap_err_eq_iff [simp]:
  "rmap_err f m = NoFuel \<longleftrightarrow> m = NoFuel" "rmap_err f m = Panic \<longleftrightarrow> m = Panic"
  by (cases m; simp)+

lemma ok_or_Ok_iff [simp]: "ok_or e x = Ok a \<longleftrightarrow> x = Some a"
  by (cases x) auto

lemma ok_or_total [simp]: "ok_or e x \<noteq> NoFuel" "ok_or e x \<noteq> Panic"
  by (cases x; simp)+

lemma index_or_panic_Ok_iff [simp]:
  "index_or_panic xs i = Ok x \<longleftrightarrow> i < length xs \<and> x = xs ! i"
  by (auto simp: index_or_panic_def)

lemma index_or_panic_total [simp]:
  "index_or_panic xs i \<noteq> NoFuel" "index_or_panic xs i \<noteq> Err e"
  by (simp_all add: index_or_panic_def)

lemma tail_or_panic_Ok_iff [simp]:
  "tail_or_panic xs i = Ok ys \<longleftrightarrow> i \<le> length xs \<and> ys = drop i xs"
  by (auto simp: tail_or_panic_def)

lemma tail_or_panic_total [simp]:
  "tail_or_panic xs i \<noteq> NoFuel" "tail_or_panic xs i \<noteq> Err e"
  by (simp_all add: tail_or_panic_def)

lemma rbind_cong [fundef_cong]:
  "m = m' \<Longrightarrow> (\<And>a. m' = Ok a \<Longrightarrow> f a = g a) \<Longrightarrow> rbind m f = rbind m' g"
  by (cases m') auto

lemma traverse_cong [fundef_cong]:
  "xs = ys \<Longrightarrow> (\<And>x. x \<in> set ys \<Longrightarrow> f x = g x) \<Longrightarrow> traverse f xs = traverse g ys"
proof (induction ys arbitrary: xs)
  case Nil
  then show ?case by simp
next
  case (Cons y ys)
  then have "traverse f ys = traverse g ys" by simp
  with Cons.prems show ?case by simp
qed

lemma try_each_cong [fundef_cong]:
  "xs = ys \<Longrightarrow> (\<And>x. x \<in> set ys \<Longrightarrow> f x = g x) \<Longrightarrow> try_each f xs = try_each g ys"
proof (induction ys arbitrary: xs)
  case Nil
  then show ?case by simp
next
  case (Cons y ys)
  then have "try_each f ys = try_each g ys" by simp
  with Cons.prems show ?case by simp
qed

lemma traverse_Ok_iff: "traverse f xs = Ok ys \<longleftrightarrow> list_all2 (\<lambda>x y. f x = Ok y) xs ys"
  by (induction xs arbitrary: ys) (auto simp: list_all2_Cons1)

lemma traverse_Ok_length: "traverse f xs = Ok ys \<Longrightarrow> length ys = length xs"
  by (simp add: traverse_Ok_iff list_all2_lengthD)

lemma traverse_total: "(\<And>x. x \<in> set xs \<Longrightarrow> \<exists>y. f x = Ok y) \<Longrightarrow> \<exists>ys. traverse f xs = Ok ys"
  by (induction xs) fastforce+

lemma traverse_map: "traverse f (map g xs) = traverse (f \<circ> g) xs"
  by (induction xs) auto

lemma traverse_ok_fun: "(\<And>x. x \<in> set xs \<Longrightarrow> f x = Ok (g x)) \<Longrightarrow> traverse f xs = Ok (map g xs)"
  by (induction xs) auto

lemma try_each_Ok_iff [simp]: "try_each f xs = Ok u \<longleftrightarrow> (\<forall>x\<in>set xs. f x = Ok ())"
  by (induction xs) auto

lemma traverse_not_NoFuel:
  "(\<And>x. x \<in> set xs \<Longrightarrow> f x \<noteq> NoFuel) \<Longrightarrow> traverse f xs \<noteq> NoFuel"
  by (induction xs) (auto simp: rbind_NoFuel_iff)

section \<open>Code with a mutable context\<close>

text \<open>
  A Rust function that takes \<^verbatim>\<open>&mut ctx\<close> and returns a \<^verbatim>\<open>Result\<close>: the context it leaves
  is part of its outcome also when it fails, because the caller still owns it.
\<close>

type_synonym ('s, 'e, 'a) sm = "'s \<Rightarrow> ('e, 'a) res \<times> 's"

definition sret :: "'a \<Rightarrow> ('s, 'e, 'a) sm" where
  "sret a = (\<lambda>s. (Ok a, s))"

definition slift :: "('e, 'a) res \<Rightarrow> ('s, 'e, 'a) sm" where
  "slift r = (\<lambda>s. (r, s))"

definition sfail :: "'e \<Rightarrow> ('s, 'e, 'a) sm" where
  "sfail e = (\<lambda>s. (Err e, s))"

definition sget :: "('s \<Rightarrow> 'a) \<Rightarrow> ('s, 'e, 'a) sm" where
  "sget f = (\<lambda>s. (Ok (f s), s))"

definition smodify :: "('s \<Rightarrow> 's) \<Rightarrow> ('s, 'e, unit) sm" where
  "smodify f = (\<lambda>s. (Ok (), f s))"

definition sbind :: "('s, 'e, 'a) sm \<Rightarrow> ('a \<Rightarrow> ('s, 'e, 'b) sm) \<Rightarrow> ('s, 'e, 'b) sm" where
  "sbind m f = (\<lambda>s. case m s of
      (Ok a, s') \<Rightarrow> f a s'
    | (Err e, s') \<Rightarrow> (Err e, s')
    | (Panic, s') \<Rightarrow> (Panic, s')
    | (NoFuel, s') \<Rightarrow> (NoFuel, s'))"

fun straverse :: "('a \<Rightarrow> ('s, 'e, 'b) sm) \<Rightarrow> 'a list \<Rightarrow> ('s, 'e, 'b list) sm" where
  "straverse f [] = sret []"
| "straverse f (x # xs) = sbind (f x) (\<lambda>y. sbind (straverse f xs) (\<lambda>ys. sret (y # ys)))"

lemma sm_simps:
  "sret a s = (Ok a, s)" "slift r s = (r, s)" "sfail e s = (Err e, s)"
  "sget f s = (Ok (f s), s)" "smodify g s = (Ok (), g s)"
  by (simp_all add: sret_def slift_def sfail_def sget_def smodify_def)

lemma sm_iffs [simp]:
  "sret a s = (r, t) \<longleftrightarrow> r = Ok a \<and> t = s" "slift q s = (r, t) \<longleftrightarrow> r = q \<and> t = s"
  "sfail e s = (r, t) \<longleftrightarrow> r = Err e \<and> t = s" "sget f s = (r, t) \<longleftrightarrow> r = Ok (f s) \<and> t = s"
  by (auto simp: sm_simps)

lemma smodify_iff [simp]: "smodify g s = (r, t) \<longleftrightarrow> r = Ok () \<and> t = g s"
  by (auto simp: sm_simps)

lemma sm_projs [simp]:
  "fst (sret a s) = Ok a" "snd (sret a s) = s" "fst (slift r s) = r" "snd (slift r s) = s"
  "fst (sfail e s) = Err e" "snd (sfail e s) = s" "fst (sget f s) = Ok (f s)" "snd (sget f s) = s"
  "fst (smodify g s) = Ok ()" "snd (smodify g s) = g s"
  by (simp_all add: sm_simps)

lemma sbind_apply:
  "sbind m f s = (case m s of
      (Ok a, s') \<Rightarrow> f a s'
    | (Err e, s') \<Rightarrow> (Err e, s')
    | (Panic, s') \<Rightarrow> (Panic, s')
    | (NoFuel, s') \<Rightarrow> (NoFuel, s'))"
  by (simp add: sbind_def)

lemma sbind_Ok: "m s = (Ok a, s') \<Longrightarrow> sbind m f s = f a s'"
  by (simp add: sbind_def)

lemma sbind_sret [simp]: "sbind (sret a) f = f a"
  by (rule ext) (simp add: sbind_def sm_simps)

lemma sbind_Ok_iff [simp]:
  "sbind m f s = (Ok b, t) \<longleftrightarrow> (\<exists>a s'. m s = (Ok a, s') \<and> f a s' = (Ok b, t))"
  by (auto simp: sbind_def split: prod.splits res.splits)

text \<open>
  A property of the context that every outcome of a computation keeps, whatever it returns.
\<close>

definition preserves :: "('s \<Rightarrow> 's \<Rightarrow> bool) \<Rightarrow> ('s, 'e, 'a) sm \<Rightarrow> bool" where
  "preserves R m \<longleftrightarrow> (\<forall>s. R s (snd (m s)))"

named_theorems preserves_intros \<open>how a computation keeps a relation between contexts\<close>

lemma preservesD: "preserves R m \<Longrightarrow> m s = (r, t) \<Longrightarrow> R s t"
  unfolding preserves_def by (metis snd_conv)

lemma preserves_sbind:
  assumes trans: "transp R" and m: "preserves R m" and f: "\<And>a. preserves R (f a)"
  shows "preserves R (sbind m f)"
  unfolding preserves_def
proof
  fix s
  obtain r s' where ms: "m s = (r, s')" by fastforce
  with m have Rs: "R s s'" by (rule preservesD)
  show "R s (snd (sbind m f s))"
  proof (cases r)
    case (Ok a)
    from f [of a] have "R s' (snd (f a s'))" by (simp add: preserves_def)
    with trans Rs have "R s (snd (f a s'))" by (rule transpD)
    with ms Ok show ?thesis by (simp add: sbind_def)
  qed (use ms Rs in \<open>simp_all add: sbind_def\<close>)
qed

lemma preserves_pure:
  assumes "reflp R"
  shows "preserves R (sret a)" "preserves R (slift r)" "preserves R (sfail e)" "preserves R (sget g)"
  using assms by (simp_all add: preserves_def reflpD)

lemma preserves_smodify: "(\<And>s. R s (g s)) \<Longrightarrow> preserves R (smodify g)"
  by (simp add: preserves_def)

lemma preserves_straverse:
  assumes "transp R" "reflp R" "\<And>x. x \<in> set xs \<Longrightarrow> preserves R (f x)"
  shows "preserves R (straverse f xs)"
  using assms(3)
proof (induction xs)
  case Nil
  then show ?case by (simp add: preserves_pure assms)
next
  case (Cons x xs)
  then have "preserves R (f x)" "preserves R (straverse f xs)" by simp_all
  then show ?case
    unfolding straverse.simps
    by (intro preserves_sbind preserves_pure assms(1,2))
qed

text \<open>
  The weakest precondition of a computation: what must hold of the context before it so that
  its outcome and the context it leaves satisfy \<open>Q\<close>, failures included. The equations make
  \<open>simp\<close> a symbolic evaluator of straight-line code.
\<close>

definition wp :: "('s, 'e, 'a) sm \<Rightarrow> (('e, 'a) res \<Rightarrow> 's \<Rightarrow> bool) \<Rightarrow> 's \<Rightarrow> bool" where
  "wp m Q s = (case m s of (r, s') \<Rightarrow> Q r s')"

lemma wp_iff: "wp m Q s \<longleftrightarrow> (\<forall>r s'. m s = (r, s') \<longrightarrow> Q r s')"
  by (auto simp: wp_def)

lemma wpD: "wp m Q s \<Longrightarrow> m s = (r, s') \<Longrightarrow> Q r s'"
  by (simp add: wp_def)

lemma wp_mono: "wp m Q s \<Longrightarrow> (\<And>r s'. Q r s' \<Longrightarrow> Q' r s') \<Longrightarrow> wp m Q' s"
  by (auto simp: wp_def)

lemma wp_basics [simp]:
  "wp (sret a) Q s = Q (Ok a) s" "wp (slift r) Q s = Q r s" "wp (sfail e) Q s = Q (Err e) s"
  "wp (sget f) Q s = Q (Ok (f s)) s"
  by (simp_all add: wp_def sm_simps)

lemma wp_smodify [simp]: "wp (smodify g) Q s = Q (Ok ()) (g s)"
  by (simp add: wp_def sm_simps)

lemma wp_sbind [simp]:
  "wp (sbind m f) Q s = wp m (\<lambda>r s'. case r of
      Ok a \<Rightarrow> wp (f a) Q s' | Err e \<Rightarrow> Q (Err e) s' | Panic \<Rightarrow> Q Panic s'
    | NoFuel \<Rightarrow> Q NoFuel s') s"
  by (simp add: wp_def sbind_def split: prod.split res.split)

section \<open>Fuelled recursion\<close>

text \<open>
  The interface of a recursive function that a fuel parameter makes total. The provider
  promises that fuel zero is stuck and that one more unit of fuel under every recursive call
  changes no answer that was already there. The client gets: a larger fuel keeps every
  answer, and two fuels that both answer agree.
\<close>

locale fuelled =
  fixes stuck :: "'r \<Rightarrow> bool"
    and iter :: "nat \<Rightarrow> 'a \<Rightarrow> 'r"
  assumes stuck_0: "stuck (iter 0 x)"
    and step_mono: "(\<And>y. stuck (iter n y) \<or> iter n y = iter m y) \<Longrightarrow>
      stuck (iter (Suc n) x) \<or> iter (Suc n) x = iter (Suc m) x"
begin

lemma mono_Suc: "stuck (iter n x) \<or> iter n x = iter (Suc n) x"
proof (induction n arbitrary: x)
  case 0
  show ?case by (simp add: stuck_0)
next
  case (Suc n)
  show ?case by (rule step_mono) (rule Suc.IH)
qed

lemma mono_add: "\<not> stuck (iter n x) \<Longrightarrow> iter (n + k) x = iter n x"
proof (induction k)
  case 0
  show ?case by simp
next
  case (Suc k)
  then have "iter (n + k) x = iter n x" by simp
  with Suc.prems mono_Suc [of "n + k" x] show ?case by simp
qed

lemma mono: "n \<le> m \<Longrightarrow> \<not> stuck (iter n x) \<Longrightarrow> iter m x = iter n x"
  using mono_add [of n x "m - n"] by simp

lemma agree: "\<not> stuck (iter n x) \<Longrightarrow> \<not> stuck (iter m x) \<Longrightarrow> iter n x = iter m x"
  using mono [of n m x] mono [of m n x] by (cases "n \<le> m") auto

end

text \<open>\<open>approx r r'\<close>: \<open>r'\<close> is what \<open>r\<close> becomes with more fuel.\<close>

definition approx :: "('e, 'a) res \<Rightarrow> ('e, 'a) res \<Rightarrow> bool" where
  "approx r r' \<longleftrightarrow> r = NoFuel \<or> r = r'"

definition sapprox :: "('s, 'e, 'a) sm \<Rightarrow> ('s, 'e, 'a) sm \<Rightarrow> bool" where
  "sapprox m m' \<longleftrightarrow> (\<forall>s. fst (m s) = NoFuel \<or> m s = m' s)"

named_theorems approx_intros \<open>how a computation refines with more fuel under it\<close>

lemma approx_refl [simp, approx_intros]: "approx r r"
  by (simp add: approx_def)

lemma approx_rbind [approx_intros]:
  "approx m m' \<Longrightarrow> (\<And>a. approx (f a) (f' a)) \<Longrightarrow> approx (rbind m f) (rbind m' f')"
  unfolding approx_def by (cases m) force+

lemma approx_rmap [approx_intros]: "approx m m' \<Longrightarrow> approx (rmap f m) (rmap f m')"
  unfolding approx_def by auto

lemma approx_rmap_err [approx_intros]: "approx m m' \<Longrightarrow> approx (rmap_err f m) (rmap_err f m')"
  unfolding approx_def by auto

lemma approx_traverse [approx_intros]:
  "(\<And>x. approx (f x) (f' x)) \<Longrightarrow> approx (traverse f xs) (traverse f' xs)"
  by (induction xs) (auto intro!: approx_intros)

lemma approx_try_each [approx_intros]:
  "(\<And>x. approx (f x) (f' x)) \<Longrightarrow> approx (try_each f xs) (try_each f' xs)"
  by (induction xs) (auto intro!: approx_intros)

lemma approx_if [approx_intros]:
  "(b \<Longrightarrow> approx m m') \<Longrightarrow> (\<not> b \<Longrightarrow> approx n n') \<Longrightarrow>
   approx (if b then m else n) (if b then m' else n')"
  by simp

lemma sapprox_refl [simp, approx_intros]: "sapprox m m"
  by (simp add: sapprox_def)

lemma sapprox_sbind [approx_intros]:
  assumes "sapprox m m'" "\<And>a. sapprox (f a) (f' a)"
  shows "sapprox (sbind m f) (sbind m' f')"
  unfolding sapprox_def
proof
  fix s
  obtain r s' where ms: "m s = (r, s')" by fastforce
  from assms(1) ms have "r = NoFuel \<or> m' s = (r, s')"
    unfolding sapprox_def by (metis fst_conv)
  moreover from assms(2) have "fst (f a s') = NoFuel \<or> f a s' = f' a s'" for a
    unfolding sapprox_def by blast
  ultimately show "fst (sbind m f s) = NoFuel \<or> sbind m f s = sbind m' f' s"
    using ms by (cases r) (auto simp: sbind_def)
qed

lemma sapprox_straverse [approx_intros]:
  "(\<And>x. sapprox (f x) (f' x)) \<Longrightarrow> sapprox (straverse f xs) (straverse f' xs)"
  by (induction xs) (auto intro!: approx_intros)

lemma sapprox_if [approx_intros]:
  "(b \<Longrightarrow> sapprox m m') \<Longrightarrow> (\<not> b \<Longrightarrow> sapprox n n') \<Longrightarrow>
   sapprox (if b then m else n) (if b then m' else n')"
  by simp

section \<open>Lists and maps\<close>

text \<open>\<^verbatim>\<open>iter().find(p)\<close> is \<^const>\<open>List.find\<close>; \<^verbatim>\<open>iter().find_map(f)\<close>:\<close>

fun find_map :: "('a \<Rightarrow> 'b option) \<Rightarrow> 'a list \<Rightarrow> 'b option" where
  "find_map f [] = None"
| "find_map f (x # xs) = (case f x of Some y \<Rightarrow> Some y | None \<Rightarrow> find_map f xs)"

lemma find_map_None_iff [simp]: "find_map f xs = None \<longleftrightarrow> (\<forall>x\<in>set xs. f x = None)"
  by (induction xs) (auto split: option.splits)

lemma find_map_cong [fundef_cong]:
  "xs = ys \<Longrightarrow> (\<And>x. x \<in> set ys \<Longrightarrow> f x = g x) \<Longrightarrow> find_map f xs = find_map g ys"
proof (induction ys arbitrary: xs)
  case Nil
  then show ?case by simp
next
  case (Cons y ys)
  then have "find_map f ys = find_map g ys" by simp
  with Cons.prems show ?case by (simp split: option.split)
qed

text \<open>\<^verbatim>\<open>s.strip_prefix(p)\<close>.\<close>

fun strip_prefix :: "'a list \<Rightarrow> 'a list \<Rightarrow> 'a list option" where
  "strip_prefix [] ys = Some ys"
| "strip_prefix (x # xs) [] = None"
| "strip_prefix (x # xs) (y # ys) = (if x = y then strip_prefix xs ys else None)"

lemma strip_prefix_Some_iff [simp]: "strip_prefix p xs = Some ys \<longleftrightarrow> xs = p @ ys"
  by (induction p xs rule: strip_prefix.induct) auto

text \<open>
  A hash map that is collected from a list of pairs: a later entry replaces an earlier one.
\<close>

definition map_from_list :: "('k \<times> 'v) list \<Rightarrow> ('k \<rightharpoonup> 'v)" where
  "map_from_list kvs = map_of (rev kvs)"

lemma map_from_list_snoc [simp]: "map_from_list (kvs @ [(k, v)]) = (map_from_list kvs)(k \<mapsto> v)"
  by (simp add: map_from_list_def)

lemma map_from_list_Nil [simp]: "map_from_list [] = Map.empty"
  by (simp add: map_from_list_def)

end
