(* ===== verification/Journal.thy ===== *)
theory Journal
  imports Prelude "HOL-Library.List_Lexorder" "HOL-Library.Char_ord" "HOL-Library.Product_Lexorder"
    "HOL-Library.Multiset" "HOL-Library.AList"
begin

text \<open>
  The snapshot graph of a private-state journal: the records of
  \<^verbatim>\<open>crates/midnight-private-state/src/lib.rs\<close> and the graph algorithms of
  \<^verbatim>\<open>crates/midnight-private-state/src/fs.rs\<close> (\<^verbatim>\<open>walk_children\<close>, \<^verbatim>\<open>find_leaf\<close>,
  \<^verbatim>\<open>topo_sort\<close>), with the theorem that \<^verbatim>\<open>find_leaf\<close> accepts exactly the journals that
  are one linear chain.

  A hash is its lowercase hex text, as in the code; texts are ordered bytewise
  (\<^verbatim>\<open>sort_unstable\<close> on \<^verbatim>\<open>&str\<close>), which is the lexicographic order on character lists.
\<close>

section \<open>Records and errors\<close>

datatype snapshot_status = Pending | Confirmed

record snapshot =
  status :: snapshot_status
  extrinsic_hash :: string
  block_hash :: "string option"
  block_height :: "u64 option"
  depends_on :: "string option"
  data :: bytes

text \<open>
  Why \<^verbatim>\<open>PrivateStateError::InvalidFormat\<close> was returned: the message text of the code,
  reduced to the facts it interpolates.
\<close>

datatype format_reason =
    NoLeaf
  | Branching nat "string list"
  | CycleUnreachable nat "string list"
  | OrphanUnreachable nat "string list"
  | MarkerMismatch string string
  | MarkerDirMismatch string
  | ConfirmedElsewhere string string
  | BadHashField string string
  | DuplicateEntry string string
  | Downgrade string string
  | MalformedImport string format_reason
  | KeyAddressMismatch string
  | DuplicateKeys
  | BadHex
  | BadHashLength nat
  | OtherImport string

datatype ps_error =
    Io string
  | Serialize string
  | PasswordTooShort
  | TooManyEntries
  | Encrypt
  | Decrypt
  | KeyDerivation
  | InvalidFormat format_reason
  | ImportConflict string string
  | SnapshotNotFound string string
  | SnapshotAlreadyExists string string
  | JournalConflict string "string option" "string option"

section \<open>The walk along child edges\<close>

text \<open>The \<^verbatim>\<open>children\<close> table of \<^verbatim>\<open>walk_children\<close>: the siblings of a parent in hash order.\<close>

definition children_of :: "snapshot list \<Rightarrow> string \<Rightarrow> string list" where
  "children_of ss p = sort (map extrinsic_hash (filter (\<lambda>s. depends_on s = Some p) ss))"

lemma set_children_of [simp]:
  "set (children_of ss p) = extrinsic_hash ` {s \<in> set ss. depends_on s = Some p}"
  by (auto simp: children_of_def)

text \<open>
  The \<^verbatim>\<open>while let Some(hash) = queue.pop_front()\<close> loop. \<^verbatim>\<open>visited\<close> and \<^verbatim>\<open>order\<close> hold the
  same hashes at every step, so one list is both.
\<close>

function walk_loop :: "snapshot list \<Rightarrow> string list \<Rightarrow> string list \<Rightarrow> string list" where
  "walk_loop ss order [] = order"
| "walk_loop ss order (h # queue) =
     (if h \<in> set order then walk_loop ss order queue
      else walk_loop ss (order @ [h]) (queue @ children_of ss h))"
  by pat_completeness auto
termination
proof (relation "measures
    [\<lambda>(ss, order, queue). card ((set queue \<union> set (map extrinsic_hash ss)) - set order),
     \<lambda>(ss, order, queue). length queue]", goal_cases)
  case 1
  show ?case by simp
next
  case (2 ss order h queue)
  have "(set queue \<union> set (map extrinsic_hash ss)) - set order \<subseteq>
      (set (h # queue) \<union> set (map extrinsic_hash ss)) - set order"
    by auto
  then have "card ((set queue \<union> set (map extrinsic_hash ss)) - set order) \<le>
      card ((set (h # queue) \<union> set (map extrinsic_hash ss)) - set order)"
    by (rule card_mono [rotated]) simp
  then show ?case by auto
next
  case (3 ss order h queue)
  have "(set (queue @ children_of ss h) \<union> set (map extrinsic_hash ss)) - set (order @ [h]) \<subset>
      (set (h # queue) \<union> set (map extrinsic_hash ss)) - set order"
    using 3 by auto
  then have "card ((set (queue @ children_of ss h) \<union> set (map extrinsic_hash ss)) - set (order @ [h])) <
      card ((set (h # queue) \<union> set (map extrinsic_hash ss)) - set order)"
    by (rule psubset_card_mono [rotated]) simp
  then show ?case by simp
qed

definition walk_children :: "snapshot list \<Rightarrow> string list \<Rightarrow> string list" where
  "walk_children ss starts = walk_loop ss [] starts"

subsection \<open>What the walk visits\<close>

text \<open>The hashes that child edges lead to from a set of starts.\<close>

inductive reach :: "snapshot set \<Rightarrow> string set \<Rightarrow> string \<Rightarrow> bool" for S H where
  start: "h \<in> H \<Longrightarrow> reach S H h"
| child: "reach S H p \<Longrightarrow> s \<in> S \<Longrightarrow> depends_on s = Some p \<Longrightarrow> reach S H (extrinsic_hash s)"

lemma distinct_walk_loop: "distinct order \<Longrightarrow> distinct (walk_loop ss order queue)"
  by (induction ss order queue rule: walk_loop.induct) auto

lemma walk_loop_extends: "\<exists>tl. walk_loop ss order queue = order @ tl"
  by (induction ss order queue rule: walk_loop.induct) auto

lemma walk_loop_subset: "set order \<union> set queue \<subseteq> set (walk_loop ss order queue)"
proof (induction ss order queue rule: walk_loop.induct)
  case (2 ss order h queue)
  show ?case
  proof (cases "h \<in> set order")
    case True
    with 2 show ?thesis by auto
  next
    case False
    with 2(2) have "set (order @ [h]) \<union> set (queue @ children_of ss h) \<subseteq>
        set (walk_loop ss order (h # queue))"
      by simp
    then show ?thesis by auto
  qed
qed simp

lemma walk_loop_sound:
  "h \<in> set (walk_loop ss order queue) \<Longrightarrow> h \<in> set order \<or> reach (set ss) (set queue) h"
proof (induction ss order queue rule: walk_loop.induct)
  case (2 ss order x queue)
  have mono: "reach (set ss) (set queue) h \<Longrightarrow> reach (set ss) (set (x # queue)) h" for h
    by (induction rule: reach.induct) (auto intro: reach.intros)
  show ?case
  proof (cases "x \<in> set order")
    case True
    with 2 mono show ?thesis by auto
  next
    case False
    with 2 have "h \<in> set (order @ [x]) \<or> reach (set ss) (set (queue @ children_of ss x)) h"
      by simp
    moreover have "reach (set ss) (set (queue @ children_of ss x)) h \<Longrightarrow>
        reach (set ss) (set (x # queue)) h"
      by (induction rule: reach.induct) (auto intro: reach.intros)
    ultimately show ?thesis by (auto intro: reach.intros)
  qed
qed simp

lemma walk_loop_closed:
  assumes "\<And>p s. p \<in> set order \<Longrightarrow> s \<in> set ss \<Longrightarrow> depends_on s = Some p \<Longrightarrow>
      extrinsic_hash s \<in> set order \<union> set queue"
    and "p \<in> set (walk_loop ss order queue)" "s \<in> set ss" "depends_on s = Some p"
  shows "extrinsic_hash s \<in> set (walk_loop ss order queue)"
  using assms
proof (induction ss order queue rule: walk_loop.induct)
  case (1 ss order)
  then show ?case by auto
next
  case (2 ss order x queue)
  show ?case
  proof (cases "x \<in> set order")
    case True
    have "extrinsic_hash s \<in> set (walk_loop ss order queue)"
    proof (rule "2.IH"(1) [OF True])
      fix p' s' assume "p' \<in> set order" "s' \<in> set ss" "depends_on s' = Some p'"
      with "2.prems"(1) True show "extrinsic_hash s' \<in> set order \<union> set queue" by auto
    qed (use "2.prems" True in auto)
    with True show ?thesis by simp
  next
    case False
    have "extrinsic_hash s \<in> set (walk_loop ss (order @ [x]) (queue @ children_of ss x))"
    proof (rule "2.IH"(2) [OF False])
      fix p' s' assume "p' \<in> set (order @ [x])" "s' \<in> set ss" "depends_on s' = Some p'"
      with "2.prems"(1) show
        "extrinsic_hash s' \<in> set (order @ [x]) \<union> set (queue @ children_of ss x)"
        by fastforce
    qed (use "2.prems" False in auto)
    with False show ?thesis by simp
  qed
qed

lemma set_walk_children: "set (walk_children ss starts) = {h. reach (set ss) (set starts) h}"
proof (intro set_eqI iffI)
  fix h assume "h \<in> set (walk_children ss starts)"
  then show "h \<in> {h. reach (set ss) (set starts) h}"
    unfolding walk_children_def by (auto dest: walk_loop_sound)
next
  fix h assume "h \<in> {h. reach (set ss) (set starts) h}"
  then have "reach (set ss) (set starts) h" by simp
  then show "h \<in> set (walk_children ss starts)"
    unfolding walk_children_def
  proof (induction rule: reach.induct)
    case (start h)
    with walk_loop_subset show ?case by fastforce
  next
    case (child p s)
    show ?case by (rule walk_loop_closed [OF _ child.IH child.hyps(2,3)]) simp
  qed
qed

lemma distinct_walk_children [simp]: "distinct (walk_children ss starts)"
  by (simp add: walk_children_def distinct_walk_loop)

section \<open>The journal head\<close>

definition referenced :: "snapshot list \<Rightarrow> string list" where
  "referenced ss = List.map_filter depends_on ss"

definition leaves :: "snapshot list \<Rightarrow> snapshot list" where
  "leaves ss = filter (\<lambda>s. extrinsic_hash s \<notin> set (referenced ss)) ss"

definition roots :: "snapshot list \<Rightarrow> string list" where
  "roots ss = map extrinsic_hash (filter (\<lambda>s. depends_on s = None) ss)"

text \<open>
  The \<^verbatim>\<open>by_hash\<close> table, a \<^verbatim>\<open>HashMap\<close> collected from the snapshots: of two with one
  hash, the later one. The code only reads its iteration order through a sort.
\<close>

definition hash_entries :: "snapshot list \<Rightarrow> (string \<times> snapshot) list" where
  "hash_entries ss = fold (\<lambda>s. AList.update (extrinsic_hash s) s) ss []"

definition by_hash :: "snapshot list \<Rightarrow> (string \<rightharpoonup> snapshot)" where
  "by_hash ss = map_of (hash_entries ss)"

text \<open>The unreached hashes in order, and the error that names them.\<close>

definition unreached :: "snapshot list \<Rightarrow> string list \<Rightarrow> string list" where
  "unreached ss reached =
     sort (remdups (filter (\<lambda>h. h \<notin> set reached) (map extrinsic_hash ss)))"

definition parent_present :: "snapshot list \<Rightarrow> string \<Rightarrow> bool" where
  "parent_present ss h =
     (case by_hash ss h of
        None \<Rightarrow> False
      | Some s \<Rightarrow> (case depends_on s of None \<Rightarrow> True | Some p \<Rightarrow> by_hash ss p \<noteq> None))"

definition find_leaf :: "snapshot list \<Rightarrow> (ps_error, snapshot option) res" where
  "find_leaf ss =
     (if ss = [] then Ok None
      else if leaves ss = [] then Err (InvalidFormat NoLeaf)
      else if 1 < length (leaves ss) then
        Err (InvalidFormat (Branching (length (leaves ss)) (sort (map extrinsic_hash (leaves ss)))))
      else
        let reached = walk_children ss (roots ss) in
        if card (set reached) \<noteq> length ss then
          let orphans = unreached ss reached; n = length ss - card (set reached) in
          if list_all (parent_present ss) orphans
          then Err (InvalidFormat (CycleUnreachable n orphans))
          else Err (InvalidFormat (OrphanUnreachable n orphans))
        else Ok (Some (last (leaves ss))))"

lemma set_referenced [simp]: "set (referenced ss) = {p. \<exists>s\<in>set ss. depends_on s = Some p}"
proof -
  have "set (List.map_filter f xs) = {y. \<exists>x\<in>set xs. f x = Some y}"
    for f :: "snapshot \<Rightarrow> string option" and xs
    by (induction xs) (auto simp: List.map_filter_simps split: option.splits)
  then show ?thesis by (simp add: referenced_def)
qed

lemma set_leaves [simp]:
  "set (leaves ss) =
     {s \<in> set ss. \<forall>c\<in>set ss. depends_on c \<noteq> Some (extrinsic_hash s)}"
  by (auto simp: leaves_def)

lemma set_roots [simp]: "set (roots ss) = extrinsic_hash ` {s \<in> set ss. depends_on s = None}"
  by (auto simp: roots_def)

lemma reach_hash:
  assumes "reach (set ss) (set (roots ss)) h"
  shows "h \<in> extrinsic_hash ` set ss"
  using assms by (cases rule: reach.cases) auto

text \<open>The unsigned subtraction \<^verbatim>\<open>total - reachable.len()\<close> of the message never wraps.\<close>

lemma reached_le_total: "card (set (walk_children ss (roots ss))) \<le> length ss"
proof -
  have "set (walk_children ss (roots ss)) \<subseteq> set (map extrinsic_hash ss)"
    using reach_hash by (auto simp: set_walk_children)
  then have "card (set (walk_children ss (roots ss))) \<le> card (set (map extrinsic_hash ss))"
    by (rule card_mono [rotated]) simp
  also have "\<dots> \<le> length ss" by (metis card_length length_map)
  finally show ?thesis .
qed

section \<open>Linear journals\<close>

text \<open>
  The abstract contract of a journal: its snapshots, in some order, are one chain. The first
  depends on nothing, each other one on the one before it, and no hash occurs twice.
\<close>

fun chain_from :: "string option \<Rightarrow> snapshot list \<Rightarrow> bool" where
  "chain_from p [] = True"
| "chain_from p (s # ss) \<longleftrightarrow> depends_on s = p \<and> chain_from (Some (extrinsic_hash s)) ss"

definition is_chain :: "snapshot list \<Rightarrow> bool" where
  "is_chain cs \<longleftrightarrow> chain_from None cs \<and> distinct (map extrinsic_hash cs)"

definition linear :: "snapshot list \<Rightarrow> bool" where
  "linear ss \<longleftrightarrow> (\<exists>cs. mset cs = mset ss \<and> is_chain cs)"

definition chain_tip :: "snapshot list \<Rightarrow> string option" where
  "chain_tip cs = (if cs = [] then None else Some (extrinsic_hash (last cs)))"

lemma chain_from_append:
  "chain_from p (xs @ ys) \<longleftrightarrow>
     chain_from p xs \<and> chain_from (if xs = [] then p else Some (extrinsic_hash (last xs))) ys"
  by (induction xs arbitrary: p) auto

lemma is_chain_snoc:
  "is_chain (cs @ [s]) \<longleftrightarrow>
     is_chain cs \<and> depends_on s = chain_tip cs \<and> extrinsic_hash s \<notin> extrinsic_hash ` set cs"
  by (auto simp: is_chain_def chain_from_append chain_tip_def)

lemma is_chain_Nil [simp]: "is_chain []"
  by (simp add: is_chain_def)

lemma is_chain_take: "is_chain cs \<Longrightarrow> is_chain (take n cs)"
  unfolding is_chain_def
  by (metis append_take_drop_id chain_from_append distinct_append map_append)

lemma chain_edge:
  assumes "is_chain cs" "c \<in> set cs" "depends_on c = Some h"
  obtains xs y ys where "cs = xs @ y # c # ys" "extrinsic_hash y = h"
proof -
  from assms(2) obtain xs ys where cs: "cs = xs @ c # ys" by (meson split_list)
  with assms have "xs \<noteq> []" "extrinsic_hash (last xs) = h"
    by (auto simp: is_chain_def chain_from_append split: if_splits)
  then have "cs = butlast xs @ last xs # c # ys" using cs by simp
  with \<open>extrinsic_hash (last xs) = h\<close> show thesis by (rule that [rotated])
qed

lemma chain_last_no_child:
  assumes "is_chain cs" "c \<in> set cs"
  shows "depends_on c \<noteq> Some (extrinsic_hash (last cs))"
proof
  assume "depends_on c = Some (extrinsic_hash (last cs))"
  with assms obtain xs y ys where
    cs: "cs = xs @ y # c # ys" "extrinsic_hash y = extrinsic_hash (last cs)"
    by (rule chain_edge)
  have "last cs \<in> set (c # ys)" using cs(1) by simp
  with cs assms(1) show False
    by (auto simp: is_chain_def)
qed

lemma chain_inner_child:
  assumes "is_chain cs" "s \<in> set cs" "s \<noteq> last cs"
  shows "\<exists>c\<in>set cs. depends_on c = Some (extrinsic_hash s)"
proof -
  from assms(2) obtain xs ys where cs: "cs = xs @ s # ys" by (meson split_list)
  with assms(3) obtain c zs where "ys = c # zs" by (cases ys) auto
  with cs assms(1) show ?thesis
    by (auto simp: is_chain_def chain_from_append)
qed

lemma chain_reach:
  "is_chain cs \<Longrightarrow> s \<in> set cs \<Longrightarrow> reach (set cs) (set (roots cs)) (extrinsic_hash s)"
proof (induction cs arbitrary: s rule: rev_induct)
  case Nil
  then show ?case by simp
next
  case (snoc x cs)
  have mono: "reach (set cs) (set (roots cs)) h \<Longrightarrow> reach (set (cs @ [x])) (set (roots (cs @ [x]))) h" for h
    by (induction rule: reach.induct) (auto intro: reach.intros)
  show ?case
  proof (cases "s \<in> set cs")
    case True
    with snoc mono show ?thesis by (simp add: is_chain_snoc)
  next
    case False
    with snoc.prems have s: "s = x" by simp
    show ?thesis
    proof (cases "cs = []")
      case True
      with snoc.prems s show ?thesis by (auto simp: is_chain_def intro!: reach.start)
    next
      case False
      then have "reach (set (cs @ [x])) (set (roots (cs @ [x]))) (extrinsic_hash (last cs))"
        using snoc mono by (simp add: is_chain_snoc)
      moreover have "depends_on x = Some (extrinsic_hash (last cs))"
        using snoc.prems(1) False by (simp add: is_chain_snoc chain_tip_def)
      ultimately show ?thesis using s by (auto intro: reach.child)
    qed
  qed
qed

lemma singleton_list: "distinct xs \<Longrightarrow> set xs = {x} \<Longrightarrow> xs = [x]"
  by (cases xs; cases "tl xs") auto

lemma linear_set_cong: "mset cs = mset ss \<Longrightarrow> set cs = set ss"
  by (metis set_mset_mset)

lemma reach_roots_cong: "set cs = set ss \<Longrightarrow>
    reach (set cs) (set (roots cs)) = reach (set ss) (set (roots ss))"
  by simp

lemma find_leaf_chain:
  assumes perm: "mset cs = mset ss" and chain: "is_chain cs" and ne: "cs \<noteq> []"
  shows "find_leaf ss = Ok (Some (last cs))"
proof -
  have set_eq: "set ss = set cs" using perm by (metis set_mset_mset)
  have "mset (map extrinsic_hash cs) = mset (map extrinsic_hash ss)"
    by (simp add: perm)
  from mset_eq_imp_distinct_iff [OF this] have "distinct (map extrinsic_hash ss)"
    using chain by (simp add: is_chain_def)
  then have dist: "distinct (map extrinsic_hash ss)" "distinct ss"
    by (simp_all add: distinct_map)
  have "set (leaves ss) = {last cs}"
    using chain_last_no_child [OF chain] chain_inner_child [OF chain] ne
    by (auto simp: set_eq)
  moreover have "distinct (leaves ss)" using dist by (simp add: leaves_def)
  ultimately have leaves: "leaves ss = [last cs]" by (rule singleton_list [rotated])
  have "set (walk_children ss (roots ss)) = extrinsic_hash ` set ss"
    using reach_hash chain_reach [OF chain] by (auto simp: set_walk_children set_eq)
  also have "card \<dots> = length ss" using dist by (metis distinct_card length_map set_map)
  finally have "card (set (walk_children ss (roots ss))) = length ss" .
  moreover have "ss \<noteq> []" using ne set_eq by auto
  ultimately show ?thesis by (simp add: find_leaf_def leaves)
qed

lemma exists_leaf:
  assumes fin: "finite S" and inj: "inj_on extrinsic_hash S"
    and root: "r \<in> S" "depends_on r = None"
  shows "\<exists>s\<in>S. \<forall>c\<in>S. depends_on c \<noteq> Some (extrinsic_hash s)"
proof (rule ccontr)
  assume "\<not> ?thesis"
  then have "\<forall>s\<in>S. \<exists>c. c \<in> S \<and> depends_on c = Some (extrinsic_hash s)" by blast
  then obtain f where f: "\<And>s. s \<in> S \<Longrightarrow> f s \<in> S \<and> depends_on (f s) = Some (extrinsic_hash s)"
    by metis
  have "inj_on f S"
  proof (rule inj_onI)
    fix x y assume xy: "x \<in> S" "y \<in> S" "f x = f y"
    then have "extrinsic_hash x = extrinsic_hash y" using f by (metis option.inject)
    with inj xy show "x = y" by (simp add: inj_on_def)
  qed
  moreover have "f ` S \<subseteq> S" using f by auto
  ultimately have "f ` S = S" using fin by (metis endo_inj_surj)
  with root(1) obtain s where "s \<in> S" "r = f s" by auto
  with f root(2) show False by force
qed

lemma reach_start_exists: "reach S H h \<Longrightarrow> \<exists>r. r \<in> H"
  by (induction rule: reach.induct) auto

text \<open>The converse of \<open>find_leaf_chain\<close>, by removing the single leaf.\<close>

definition leaf_set :: "snapshot set \<Rightarrow> snapshot set" where
  "leaf_set S = {s \<in> S. \<forall>c\<in>S. depends_on c \<noteq> Some (extrinsic_hash s)}"

definition root_hashes :: "snapshot set \<Rightarrow> string set" where
  "root_hashes S = extrinsic_hash ` {s \<in> S. depends_on s = None}"

lemma reach_without_leaf:
  assumes "reach S (root_hashes S) h" and leaf: "l \<in> leaf_set S" and inj: "inj_on extrinsic_hash S"
    and "h \<noteq> extrinsic_hash l"
  shows "reach (S - {l}) (root_hashes (S - {l})) h"
  using assms(1,4)
proof (induction rule: reach.induct)
  case (start h)
  then show ?case by (auto simp: root_hashes_def intro!: reach.start)
next
  case (child p s)
  then have "p \<noteq> extrinsic_hash l" "s \<noteq> l" using leaf by (auto simp: leaf_set_def)
  with child show ?case by (auto intro: reach.child)
qed

lemma single_leaf_chain:
  assumes "finite S" "inj_on extrinsic_hash S" "leaf_set S = {l}"
    and "\<forall>s\<in>S. reach S (root_hashes S) (extrinsic_hash s)"
  shows "\<exists>cs. set cs = S \<and> is_chain cs \<and> cs \<noteq> [] \<and> last cs = l"
  using assms
proof (induction "card S" arbitrary: S l)
  case 0
  then show ?case by (auto simp: leaf_set_def)
next
  case (Suc n)
  have lS: "l \<in> S" and lleaf: "\<forall>c\<in>S. depends_on c \<noteq> Some (extrinsic_hash l)"
    using Suc.prems(3) by (auto simp: leaf_set_def)
  let ?T = "S - {l}"
  have inj: "inj_on extrinsic_hash ?T" using Suc.prems(2) by (rule inj_on_diff)
  have reachT: "\<forall>s\<in>?T. reach ?T (root_hashes ?T) (extrinsic_hash s)"
  proof
    fix s assume s: "s \<in> ?T"
    have "extrinsic_hash s \<noteq> extrinsic_hash l"
      using s lS Suc.prems(2) by (auto simp: inj_on_def)
    with s Suc.prems show "reach ?T (root_hashes ?T) (extrinsic_hash s)"
      by (intro reach_without_leaf) auto
  qed
  show ?case
  proof (cases "?T = {}")
    case True
    with lS have S: "S = {l}" by auto
    with Suc.prems(4) obtain h where "h \<in> root_hashes S"
      using reach_start_exists by blast
    with S have "depends_on l = None" by (auto simp: root_hashes_def)
    with S have "set [l] = S \<and> is_chain [l] \<and> [l] \<noteq> [] \<and> last [l] = l"
      by (simp add: is_chain_def)
    then show ?thesis by blast
  next
    case False
    then obtain r where r: "r \<in> ?T" "depends_on r = None"
      using reachT reach_start_exists by (fastforce simp: root_hashes_def)
    from exists_leaf [OF _ inj r] Suc.prems(1) obtain x where
      x: "x \<in> leaf_set ?T" by (auto simp: leaf_set_def)
    have parent: "depends_on l = Some (extrinsic_hash y)" if "y \<in> leaf_set ?T" for y
    proof -
      have "y \<notin> leaf_set S" using that Suc.prems(3) by (auto simp: leaf_set_def)
      with that show ?thesis by (auto simp: leaf_set_def)
    qed
    have "y = x" if "y \<in> leaf_set ?T" for y
    proof -
      have "extrinsic_hash y = extrinsic_hash x" using parent [OF that] parent [OF x] by simp
      moreover have "y \<in> ?T" "x \<in> ?T" using that x by (simp_all only: leaf_set_def mem_Collect_eq)
      ultimately show "y = x" by (rule inj_onD [OF inj])
    qed
    with x have "leaf_set ?T = {x}" by blast
    moreover have "n = card ?T" using Suc.hyps(2) lS Suc.prems(1) by simp
    ultimately obtain cs where cs: "set cs = ?T" "is_chain cs" "cs \<noteq> []" "last cs = x"
      using Suc.hyps(1) [of ?T x] Suc.prems(1) inj reachT by auto
    have "extrinsic_hash l \<notin> extrinsic_hash ` set cs"
      using lS cs(1) Suc.prems(2) by (auto simp: inj_on_def)
    with cs parent [OF x] have "is_chain (cs @ [l])"
      by (simp add: is_chain_snoc chain_tip_def)
    moreover have "set (cs @ [l]) = S" using cs(1) lS by auto
    ultimately show ?thesis by (intro exI [of _ "cs @ [l]"]) simp
  qed
qed

lemma find_leaf_Some_linear:
  assumes "find_leaf ss = Ok (Some s)"
  shows "\<exists>cs. mset cs = mset ss \<and> is_chain cs \<and> cs \<noteq> [] \<and> last cs = s"
proof -
  let ?W = "set (walk_children ss (roots ss))"
  from assms have ne: "leaves ss \<noteq> []" and le: "length (leaves ss) \<le> 1"
    and card: "card ?W = length ss" and s: "s = last (leaves ss)"
    by (auto simp: find_leaf_def Let_def split: if_splits)
  from ne le s have leaves: "leaves ss = [s]" by (cases "leaves ss") auto
  have sub: "?W \<subseteq> set (map extrinsic_hash ss)"
    using reach_hash by (auto simp: set_walk_children)
  then have "length ss \<le> card (set (map extrinsic_hash ss))"
    unfolding card [symmetric] by (rule card_mono [rotated]) simp
  then have dist: "distinct (map extrinsic_hash ss)"
    by (metis card_distinct card_length length_map le_antisym)
  from dist have "card (set (map extrinsic_hash ss)) = card ?W"
    by (metis card distinct_card length_map)
  with sub have W: "?W = set (map extrinsic_hash ss)"
    by (metis card_subset_eq finite_set)
  have rh: "root_hashes (set ss) = set (roots ss)" by (auto simp: root_hashes_def)
  have "leaf_set (set ss) = {s}"
    using leaves by (metis leaf_set_def list.set(1) list.set(2) set_leaves)
  moreover have "\<forall>s\<in>set ss. reach (set ss) (root_hashes (set ss)) (extrinsic_hash s)"
    using W by (auto simp: set_walk_children rh)
  ultimately obtain cs where cs: "set cs = set ss" "is_chain cs" "cs \<noteq> []" "last cs = s"
    using single_leaf_chain [of "set ss" s] dist by (auto simp: distinct_map)
  have "mset cs = mset ss"
    using cs(1,2) dist by (simp add: set_eq_iff_mset_eq_distinct [symmetric] distinct_map is_chain_def)
  with cs show ?thesis by blast
qed

lemma find_leaf_None_iff: "find_leaf ss = Ok None \<longleftrightarrow> ss = []"
  by (auto simp: find_leaf_def Let_def)

lemma find_leaf_Some_iff:
  "find_leaf ss = Ok (Some s) \<longleftrightarrow>
     (\<exists>cs. mset cs = mset ss \<and> is_chain cs \<and> cs \<noteq> [] \<and> last cs = s)"
  using find_leaf_Some_linear find_leaf_chain by auto

lemma find_leaf_total: "find_leaf ss \<noteq> Panic" "find_leaf ss \<noteq> NoFuel"
  by (auto simp: find_leaf_def Let_def)

lemma find_leaf_linear: "(\<exists>r. find_leaf ss = Ok r) \<longleftrightarrow> linear ss"
proof
  assume "\<exists>r. find_leaf ss = Ok r"
  then obtain r where r: "find_leaf ss = Ok r" ..
  show "linear ss"
  proof (cases r)
    case None
    with r have "ss = []" by (simp add: find_leaf_None_iff)
    then show ?thesis by (auto simp: linear_def intro: exI [of _ "[]"])
  next
    case (Some s)
    with r show ?thesis by (auto simp: linear_def find_leaf_Some_iff)
  qed
next
  assume "linear ss"
  then obtain cs where cs: "mset cs = mset ss" "is_chain cs" by (auto simp: linear_def)
  show "\<exists>r. find_leaf ss = Ok r"
  proof (cases "cs = []")
    case True
    with cs have "ss = []" by simp
    then show ?thesis by (auto simp: find_leaf_def)
  next
    case False
    with cs show ?thesis using find_leaf_chain by blast
  qed
qed

lemma find_leaf_head:
  assumes "mset cs = mset ss" "is_chain cs"
  shows "find_leaf ss = Ok (if cs = [] then None else Some (last cs))"
  using assms find_leaf_chain [OF assms] by (auto simp: find_leaf_None_iff)

section \<open>Parents before children\<close>

definition justified :: "snapshot list \<Rightarrow> string set \<Rightarrow> string list \<Rightarrow> bool" where
  "justified ss H ws \<longleftrightarrow> (\<forall>i<length ws. ws ! i \<in> H \<or>
     (\<exists>s\<in>set ss. extrinsic_hash s = ws ! i \<and> (\<exists>j<i. depends_on s = Some (ws ! j))))"

lemma justified_snoc:
  assumes "justified ss H ws"
    and "h \<in> H \<or> (\<exists>s\<in>set ss. extrinsic_hash s = h \<and> (\<exists>p\<in>set ws. depends_on s = Some p))"
  shows "justified ss H (ws @ [h])"
  unfolding justified_def
proof (intro allI impI)
  fix i assume "i < length (ws @ [h])"
  then consider "i < length ws" | "i = length ws" by fastforce
  then show "(ws @ [h]) ! i \<in> H \<or> (\<exists>s\<in>set ss. extrinsic_hash s = (ws @ [h]) ! i \<and>
      (\<exists>j<i. depends_on s = Some ((ws @ [h]) ! j)))"
  proof cases
    case 1
    with assms(1) show ?thesis
      unfolding justified_def by (auto simp: nth_append) (meson order.strict_trans)
  next
    case 2
    with assms(2) show ?thesis by (simp add: nth_append) (metis in_set_conv_nth)
  qed
qed

lemma walk_loop_justified:
  assumes "justified ss H order"
    and "\<forall>h\<in>set queue. h \<in> H \<or>
      (\<exists>s\<in>set ss. extrinsic_hash s = h \<and> (\<exists>p\<in>set order. depends_on s = Some p))"
  shows "justified ss H (walk_loop ss order queue)"
  using assms
proof (induction ss order queue rule: walk_loop.induct)
  case (2 ss order h queue)
  show ?case
  proof (cases "h \<in> set order")
    case True
    with 2 show ?thesis by simp
  next
    case False
    have "justified ss H (order @ [h])"
      by (rule justified_snoc) (use "2.prems" in auto)
    moreover have "\<forall>c\<in>set (queue @ children_of ss h). c \<in> H \<or>
        (\<exists>s\<in>set ss. extrinsic_hash s = c \<and> (\<exists>p\<in>set (order @ [h]). depends_on s = Some p))"
      using "2.prems"(2) by fastforce
    ultimately show ?thesis using "2.IH"(2) [OF False] False by simp
  qed
qed simp

lemma walk_children_justified: "justified ss (set starts) (walk_children ss starts)"
  unfolding walk_children_def by (rule walk_loop_justified) (auto simp: justified_def)

text \<open>
  A journal that may branch but where every snapshot hangs below a root: what a journal is
  after an import of several chains or a race, and the weakest state from which the recovery
  operations start.
\<close>

definition rooted :: "snapshot list \<Rightarrow> bool" where
  "rooted ss \<longleftrightarrow> distinct (map extrinsic_hash ss) \<and>
     (\<forall>s\<in>set ss. reach (set ss) (set (roots ss)) (extrinsic_hash s))"

lemma rooted_inj:
  "rooted ss \<Longrightarrow> s \<in> set ss \<Longrightarrow> t \<in> set ss \<Longrightarrow> extrinsic_hash s = extrinsic_hash t \<Longrightarrow> s = t"
  by (auto simp: rooted_def distinct_map inj_on_def)

lemma linear_rooted: "linear ss \<Longrightarrow> rooted ss"
proof -
  assume "linear ss"
  then obtain cs where cs: "mset cs = mset ss" "is_chain cs" by (auto simp: linear_def)
  have eq: "set ss = set cs" using cs(1) by (metis set_mset_mset)
  have "mset (map extrinsic_hash cs) = mset (map extrinsic_hash ss)" by (simp add: cs(1))
  from mset_eq_imp_distinct_iff [OF this] have "distinct (map extrinsic_hash ss)"
    using cs(2) by (simp add: is_chain_def)
  then show ?thesis using chain_reach [OF cs(2)] by (simp add: rooted_def eq)
qed

lemma rooted_acyclic:
  assumes "rooted ss" "s \<in> set ss" "depends_on s = Some p"
  shows "\<not> reach (set ss) {extrinsic_hash s} p"
proof
  assume p: "reach (set ss) {extrinsic_hash s} p"
  have notin: "\<not> reach (set ss) {extrinsic_hash s} h" if "reach (set ss) (set (roots ss)) h" for h
    using that
  proof (induction rule: reach.induct)
    case (start h)
    then obtain r where r: "r \<in> set ss" "depends_on r = None" "h = extrinsic_hash r" by auto
    show ?case
    proof
      assume "reach (set ss) {extrinsic_hash s} h"
      then have "\<exists>t\<in>set ss. h = extrinsic_hash t \<and> depends_on t \<noteq> None"
        using assms(2,3) by (cases rule: reach.cases) auto
      then obtain t where t: "t \<in> set ss" "h = extrinsic_hash t" "depends_on t \<noteq> None" by blast
      from rooted_inj [OF assms(1) r(1) t(1)] r(3) t(2) have "r = t" by simp
      with r(2) t(3) show False by simp
    qed
  next
    case (child q t)
    show ?case
    proof
      assume "reach (set ss) {extrinsic_hash s} (extrinsic_hash t)"
      then show False
      proof (cases rule: reach.cases)
        case start
        then have "t = s" using rooted_inj [OF assms(1) child.hyps(2) assms(2)] by simp
        with child assms(3) p show False by simp
      next
        case (child q' t')
        then have "t' = t" using rooted_inj [OF assms(1)] \<open>t \<in> set ss\<close> by metis
        with child \<open>depends_on t = Some q\<close> \<open>\<not> reach (set ss) {extrinsic_hash s} q\<close> show False
          by simp
      qed
    qed
  qed
  have "reach (set ss) (set (roots ss)) (extrinsic_hash s)"
    using assms(1,2) by (simp add: rooted_def)
  from notin [OF this] show False by (simp add: reach.start)
qed

text \<open>
  Deleting the walk's last hashes first: whatever number of them is gone, every snapshot that
  is left still has its parent, down from a root.
\<close>

lemma walk_suffix_closed:
  assumes "rooted ss" "start \<in> extrinsic_hash ` set ss"
    and "p \<in> set (drop k (walk_children ss [start]))" "s \<in> set ss" "depends_on s = Some p"
  shows "extrinsic_hash s \<in> set (drop k (walk_children ss [start]))"
proof -
  let ?W = "walk_children ss [start]"
  obtain i where i: "k \<le> i" "i < length ?W" "p = ?W ! i"
    using assms(3) by (auto simp: in_set_conv_nth) (metis add.commute less_diff_conv le_add2)
  have "reach (set ss) {start} p"
    using i(2,3) set_walk_children [of ss "[start]"] nth_mem by fastforce
  then have "extrinsic_hash s \<in> set ?W"
    using assms(4,5) by (simp add: set_walk_children) (rule reach.child)
  then obtain j where j: "j < length ?W" "?W ! j = extrinsic_hash s"
    by (auto simp: in_set_conv_nth)
  have "k \<le> j"
  proof (rule ccontr)
    assume "\<not> k \<le> j"
    with i have "j < i" by simp
    from walk_children_justified [of ss "[start]"] j consider
      "extrinsic_hash s = start"
      | t l where "t \<in> set ss" "extrinsic_hash t = extrinsic_hash s" "l < j" "depends_on t = Some (?W ! l)"
      unfolding justified_def by auto
    then show False
    proof cases
      case 1
      with rooted_acyclic [OF assms(1,4,5)] \<open>reach (set ss) {start} p\<close> show False by simp
    next
      case 2
      then have "t = s" using rooted_inj [OF assms(1)] assms(4) by metis
      with 2 assms(5) i have "?W ! l = ?W ! i" by simp
      moreover have "l < i" using 2(3) \<open>j < i\<close> by simp
      ultimately show False
        using distinct_walk_children i(2) by (metis nth_eq_iff_index_eq order.strict_trans less_irrefl)
    qed
  qed
  with j show ?thesis
    by (auto simp: in_set_conv_nth intro!: exI [of _ "j - k"])
qed

lemma rooted_subset:
  assumes "rooted ss"
    and closed: "\<And>s p. s \<in> set ss \<Longrightarrow> depends_on s = Some p \<Longrightarrow> p \<in> D \<Longrightarrow> extrinsic_hash s \<in> D"
  shows "rooted (filter (\<lambda>s. extrinsic_hash s \<notin> D) ss)"
proof -
  let ?R = "filter (\<lambda>s. extrinsic_hash s \<notin> D) ss"
  have reach: "reach (set ?R) (set (roots ?R)) h"
    if "reach (set ss) (set (roots ss)) h" "h \<notin> D" for h
    using that
  proof (induction rule: reach.induct)
    case (start h)
    then show ?case by (auto intro!: reach.start)
  next
    case (child p s)
    then have "p \<notin> D" using closed by blast
    with child show ?case by (auto intro: reach.child)
  qed
  have "distinct (map extrinsic_hash ?R)"
    using assms(1) by (simp add: rooted_def distinct_map inj_on_def)
  with reach assms(1) show ?thesis by (simp add: rooted_def)
qed

lemma rooted_partial_cascade:
  assumes "rooted ss" "start \<in> extrinsic_hash ` set ss"
  shows "rooted (filter (\<lambda>s. extrinsic_hash s \<notin> set (drop k (walk_children ss [start]))) ss)"
  using assms(1) by (rule rooted_subset) (use walk_suffix_closed [OF assms] in blast)

section \<open>Causal order\<close>

definition topo_sort :: "snapshot list \<Rightarrow> snapshot list" where
  "topo_sort ss =
     (let values = map snd (hash_entries ss);
          order = walk_children values (sort (roots values));
          out = List.map_filter (by_hash ss) order;
          orphans = sort_key extrinsic_hash (filter (\<lambda>s. extrinsic_hash s \<notin> set order) values)
      in out @ orphans)"

lemma hash_entries_snoc:
  "hash_entries (ss @ [s]) = AList.update (extrinsic_hash s) s (hash_entries ss)"
  by (simp add: hash_entries_def)

lemma update_fresh: "k \<notin> fst ` set al \<Longrightarrow> AList.update k v al = al @ [(k, v)]"
  by (induction al) auto

lemma hash_entries_distinct:
  "distinct (map extrinsic_hash ss) \<Longrightarrow> hash_entries ss = map (\<lambda>s. (extrinsic_hash s, s)) ss"
proof (induction ss rule: rev_induct)
  case Nil
  then show ?case by (simp add: hash_entries_def)
next
  case (snoc s ss)
  then show ?case by (auto simp: hash_entries_snoc intro!: update_fresh)
qed

lemma by_hash_distinct:
  assumes "distinct (map extrinsic_hash ss)" "s \<in> set ss"
  shows "by_hash ss (extrinsic_hash s) = Some s"
  using assms unfolding by_hash_def hash_entries_distinct [OF assms(1)]
  by (intro map_of_is_SomeI) (auto simp: comp_def)

lemma children_of_chain:
  assumes "mset ss = mset (xs @ y # ys)" "is_chain (xs @ y # ys)"
  shows "children_of ss (extrinsic_hash y) = map extrinsic_hash (take 1 ys)"
proof -
  let ?cs = "xs @ y # ys"
  have set_eq: "set ss = set ?cs" using assms(1) by (metis set_mset_mset)
  have "mset (map extrinsic_hash ss) = mset (map extrinsic_hash ?cs)" using assms(1) by simp
  from mset_eq_imp_distinct_iff [OF this] have "distinct (map extrinsic_hash ss)"
    using assms(2) by (simp add: is_chain_def)
  then have dist: "distinct (children_of ss (extrinsic_hash y))"
    by (auto simp: children_of_def distinct_map intro: inj_on_subset)
  have only: "c = hd ys \<and> ys \<noteq> []" if c: "c \<in> set ?cs" "depends_on c = Some (extrinsic_hash y)" for c
  proof -
    from chain_edge [OF assms(2) c] obtain us z vs where
      split: "?cs = us @ z # c # vs" "extrinsic_hash z = extrinsic_hash y" by blast
    have "distinct (map extrinsic_hash ?cs)" using assms(2) by (simp add: is_chain_def)
    then have inj: "inj_on extrinsic_hash (set ?cs)" "distinct ?cs"
      unfolding distinct_map by blast+
    have "z \<in> set ?cs" unfolding split(1) by simp
    moreover have "y \<in> set ?cs" by simp
    ultimately have "z = y" using split(2) inj(1) by (meson inj_onD)
    with split(1) have eq: "xs @ y # ys = us @ y # c # vs" by simp
    have "y \<notin> set xs" "y \<notin> set ys" using inj(2) by auto
    moreover have "y \<notin> set us" "y \<notin> set (c # vs)" using inj(2) eq by auto
    ultimately have "xs = us \<and> ys = c # vs" using eq by (metis append_Cons_eq_iff)
    then show ?thesis by simp
  qed
  show ?thesis
  proof (cases ys)
    case Nil
    then have "set (children_of ss (extrinsic_hash y)) = {}" using only set_eq by auto
    with Nil show ?thesis by (simp del: set_children_of)
  next
    case (Cons z zs)
    have "depends_on z = Some (extrinsic_hash y)"
      using assms(2) Cons by (simp add: is_chain_def chain_from_append)
    then have "set (children_of ss (extrinsic_hash y)) = {extrinsic_hash z}"
      using only set_eq Cons by auto
    with dist have "children_of ss (extrinsic_hash y) = [extrinsic_hash z]"
      by (rule singleton_list)
    with Cons show ?thesis by simp
  qed
qed

lemma walk_loop_chain:
  assumes "mset ss = mset (xs @ y # ys)" "is_chain (xs @ y # ys)"
    and "set order \<inter> extrinsic_hash ` set (y # ys) = {}"
  shows "walk_loop ss order [extrinsic_hash y] = order @ map extrinsic_hash (y # ys)"
  using assms
proof (induction ys arbitrary: xs y order)
  case Nil
  then show ?case by (simp add: children_of_chain [OF Nil(1,2)])
next
  case (Cons z zs)
  have "walk_loop ss (order @ [extrinsic_hash y]) [extrinsic_hash z] =
      (order @ [extrinsic_hash y]) @ map extrinsic_hash (z # zs)"
    by (rule Cons.IH [of "xs @ [y]"]) (use Cons.prems in \<open>auto simp: is_chain_def\<close>)
  with Cons.prems(3) show ?case
    by (simp add: children_of_chain [OF Cons.prems(1,2)])
qed

lemma walk_children_chain:
  assumes "mset ss = mset (xs @ y # ys)" "is_chain (xs @ y # ys)"
  shows "walk_children ss [extrinsic_hash y] = map extrinsic_hash (y # ys)"
  using walk_loop_chain [OF assms, of "[]"] by (simp add: walk_children_def)

lemma roots_chain:
  assumes "mset ss = mset (y # ys)" "is_chain (y # ys)"
  shows "roots ss = [extrinsic_hash y]"
proof -
  have set_eq: "set ss = set (y # ys)" using assms(1) by (metis set_mset_mset)
  have "mset (map extrinsic_hash ss) = mset (map extrinsic_hash (y # ys))" using assms(1) by simp
  from mset_eq_imp_distinct_iff [OF this] have "distinct (map extrinsic_hash ss)"
    using assms(2) by (simp add: is_chain_def)
  then have "distinct (roots ss)" by (auto simp: roots_def distinct_map intro: inj_on_subset)
  moreover have "s = y" if "s \<in> set (y # ys)" "depends_on s = None" for s
  proof (rule ccontr)
    assume "s \<noteq> y"
    with that(1) obtain us vs where "ys = us @ s # vs" by (auto dest: split_list)
    with assms(2) that(2) show False
      by (auto simp: is_chain_def chain_from_append split: if_splits)
  qed
  then have "set (roots ss) = {extrinsic_hash y}"
    using assms(2) by (auto simp: set_eq is_chain_def)
  ultimately show ?thesis by (rule singleton_list)
qed

lemma topo_sort_chain:
  assumes "mset ss = mset cs" "is_chain cs"
  shows "topo_sort ss = cs"
proof (cases cs)
  case Nil
  with assms show ?thesis
    by (simp add: topo_sort_def hash_entries_def walk_children_def roots_def by_hash_def
        List.map_filter_simps)
next
  case (Cons y ys)
  have set_eq: "set ss = set cs" using assms(1) by (metis set_mset_mset)
  have "mset (map extrinsic_hash ss) = mset (map extrinsic_hash cs)" using assms(1) by simp
  from mset_eq_imp_distinct_iff [OF this] have dist: "distinct (map extrinsic_hash ss)"
    using assms(2) by (simp add: is_chain_def)
  then have vals: "map snd (hash_entries ss) = ss"
    by (simp add: hash_entries_distinct comp_def)
  have "walk_children ss (sort (roots ss)) = map extrinsic_hash cs"
    using assms Cons walk_children_chain [of ss "[]" y ys] by (simp add: roots_chain)
  moreover have "List.map_filter (by_hash ss) (map extrinsic_hash cs) = cs"
  proof -
    have "\<forall>s\<in>set cs. by_hash ss (extrinsic_hash s) = Some s"
      using by_hash_distinct [OF dist] set_eq by simp
    then show ?thesis by (induction cs) (simp_all add: List.map_filter_simps)
  qed
  moreover have "filter (\<lambda>s. extrinsic_hash s \<notin> set (map extrinsic_hash cs)) ss = []"
    using set_eq by (auto simp: filter_empty_conv)
  ultimately show ?thesis by (simp add: topo_sort_def vals Let_def)
qed

end
