(* ===== verification/JournalStore.thy ===== *)
theory JournalStore
  imports Journal
begin

text \<open>
  The filesystem store of private states,
  \<^verbatim>\<open>crates/midnight-private-state/src/fs.rs\<close>: one directory per contract address with an
  address marker and one file per snapshot, and one file per signing key.

  The disk is part of the state of every operation, and each file operation can fail: the
  field \<open>faults\<close> says, in order, which of the next file operations fail (the ones after its
  end succeed), so a theorem that does not mention it holds whatever fails. An operation that
  fails leaves the disk as it was at that point. \<^verbatim>\<open>sha256\<close> and the \<^verbatim>\<open>hex\<close> crate are not
  part of the repository: the record \<open>ps_host\<close> carries them.
\<close>

section \<open>The disk\<close>

text \<open>
  The name \<^verbatim>\<open><nanos:020>-<hash>.json\<close> of a snapshot file. Names are ordered as the pairs
  are, since the padding makes the text order of the timestamps their numeric order.
\<close>

type_synonym snap_path = "nat \<times> string"

record addr_dir =
  marker :: "string option"
  files :: "(snap_path \<times> snapshot) list"

record key_record =
  key_address :: string
  key_data :: bytes

record fs_store =
  states :: "(string \<times> addr_dir) list"
  keys :: "(string \<times> key_record) list"
  faults :: "bool list"

record ps_host =
  hashed_name :: "string \<Rightarrow> string"
  hex_encode :: "bytes \<Rightarrow> string"
  hex_decode :: "string \<Rightarrow> bytes option"

type_synonym 'a fs_op = "(fs_store, ps_error, 'a) sm"

text \<open>The next file operation, named for the error it gives.\<close>

definition io :: "string \<Rightarrow> unit fs_op" where
  "io what = (\<lambda>s. case faults s of
      [] \<Rightarrow> (Ok (), s)
    | f # fs \<Rightarrow> (if f then Err (Io what) else Ok (), s\<lparr>faults := fs\<rparr>))"

definition empty_dir :: addr_dir where
  "empty_dir = \<lparr>marker = None, files = []\<rparr>"

definition dir_at :: "fs_store \<Rightarrow> string \<Rightarrow> addr_dir" where
  "dir_at s d = (case map_of (states s) d of None \<Rightarrow> empty_dir | Some dir \<Rightarrow> dir)"

definition update_dir :: "string \<Rightarrow> (addr_dir \<Rightarrow> addr_dir) \<Rightarrow> fs_store \<Rightarrow> fs_store" where
  "update_dir d f s = s\<lparr>states := AList.update d (f (dir_at s d)) (states s)\<rparr>"

text \<open>The snapshots on disk for an address, in the order of their file names.\<close>

definition snapshot_files :: "ps_host \<Rightarrow> string \<Rightarrow> fs_store \<Rightarrow> (snap_path \<times> snapshot) list" where
  "snapshot_files X a s = sort_key fst (files (dir_at s (hashed_name X a)))"

definition journal :: "ps_host \<Rightarrow> string \<Rightarrow> fs_store \<Rightarrow> snapshot list" where
  "journal X a s = map snd (snapshot_files X a s)"

section \<open>Reading and writing files\<close>

definition load_snapshots :: "ps_host \<Rightarrow> string \<Rightarrow> (snap_path \<times> snapshot) list fs_op" where
  "load_snapshots X a = sbind (io ''read dir'') (\<lambda>_. sget (snapshot_files X a))"

definition create_private_dir :: "string \<Rightarrow> unit fs_op" where
  "create_private_dir d = sbind (io ''create dir'') (\<lambda>_. smodify (update_dir d id))"

text \<open>
  \<^verbatim>\<open>write_atomic\<close>: the temporary sibling is written, renamed into place, and the directory
  synced. A failure before the rename leaves the old contents, a failure of the sync the new
  ones. No reader looks at the temporary sibling, so it is left out of the disk.
\<close>

definition write_atomic :: "(fs_store \<Rightarrow> fs_store) \<Rightarrow> unit fs_op" where
  "write_atomic put =
     sbind (io ''write'') (\<lambda>_. sbind (io ''rename'') (\<lambda>_. sbind (smodify put) (\<lambda>_. io ''sync'')))"

definition write_snapshot :: "ps_host \<Rightarrow> string \<Rightarrow> snap_path \<Rightarrow> snapshot \<Rightarrow> unit fs_op" where
  "write_snapshot X a path snap =
     (let d = hashed_name X a in
      sbind (create_private_dir d) (\<lambda>_.
        write_atomic (update_dir d (files_update (AList.update path snap)))))"

definition remove_snapshot_file :: "ps_host \<Rightarrow> string \<Rightarrow> snap_path \<Rightarrow> unit fs_op" where
  "remove_snapshot_file X a path =
     sbind (io ''remove'') (\<lambda>_.
       smodify (update_dir (hashed_name X a) (files_update (AList.delete path))))"

text \<open>
  \<^verbatim>\<open>str::trim\<close> on UTF-8 bytes: the encodings of the characters with the Unicode property
  \<open>White_Space\<close>.
\<close>

definition white_space :: "string list" where
  "white_space =
     map (\<lambda>c. [char_of c]) ([9..<14] @ [32 :: nat])
     @ [[CHR 0xC2, CHR 0x85], [CHR 0xC2, CHR 0xA0], [CHR 0xE1, CHR 0x9A, CHR 0x80]]
     @ map (\<lambda>c. [CHR 0xE2, CHR 0x80, char_of c]) ([128..<139] @ [168, 169, 175 :: nat])
     @ [[CHR 0xE2, CHR 0x81, CHR 0x9F], [CHR 0xE3, CHR 0x80, CHR 0x80]]"

fun strip_leading :: "nat \<Rightarrow> string list \<Rightarrow> string \<Rightarrow> string" where
  "strip_leading 0 ws s = s"
| "strip_leading (Suc n) ws s =
     (case find_map (\<lambda>w. strip_prefix w s) ws of None \<Rightarrow> s | Some s' \<Rightarrow> strip_leading n ws s')"

definition trim :: "string \<Rightarrow> string" where
  "trim s = (let t = strip_leading (length s) white_space s in
     rev (strip_leading (length t) (map rev white_space) (rev t)))"

definition ensure_address_marker :: "ps_host \<Rightarrow> string \<Rightarrow> unit fs_op" where
  "ensure_address_marker X a =
     (let d = hashed_name X a in
      sbind (create_private_dir d) (\<lambda>_.
      sbind (io ''read marker'') (\<lambda>_.
      sbind (sget (\<lambda>s. marker (dir_at s d))) (\<lambda>m.
      case m of
        Some existing \<Rightarrow>
          if trim existing \<noteq> a then sfail (InvalidFormat (MarkerMismatch (trim existing) a))
          else sret ()
      | None \<Rightarrow> write_atomic (update_dir d (marker_update (\<lambda>_. Some a)))))))"

section \<open>The journal operations\<close>

definition find_snapshot_path :: "ps_host \<Rightarrow> string \<Rightarrow> string \<Rightarrow> snap_path option fs_op" where
  "find_snapshot_path X a h =
     sbind (load_snapshots X a) (\<lambda>snaps.
       sret (map_option fst (find (\<lambda>(path, snap). extrinsic_hash snap = h) snaps)))"

definition head_snapshot :: "ps_host \<Rightarrow> string \<Rightarrow> snapshot option fs_op" where
  "head_snapshot X a = sbind (load_snapshots X a) (\<lambda>snaps. slift (find_leaf (map snd snaps)))"

text \<open>
  What follows a failed write of a new snapshot: the file may be there, so it is removed, and
  the error of the write is returned whether or not that works.
\<close>

definition undo_failed_append :: "ps_host \<Rightarrow> string \<Rightarrow> snap_path \<Rightarrow> unit fs_op \<Rightarrow> unit fs_op" where
  "undo_failed_append X a path write = (\<lambda>s.
     case write s of
       (Err e, s') \<Rightarrow> (Err e, snd (remove_snapshot_file X a path s'))
     | out \<Rightarrow> out)"

definition append_pending ::
  "ps_host \<Rightarrow> nat \<Rightarrow> string \<Rightarrow> bytes \<Rightarrow> bytes option \<Rightarrow> bytes \<Rightarrow> unit fs_op" where
  "append_pending X nanos a ext dep state =
     (let h = hex_encode X ext; expected = map_option (hex_encode X) dep in
      sbind (ensure_address_marker X a) (\<lambda>_.
      sbind (find_snapshot_path X a h) (\<lambda>found.
      if found \<noteq> None then sfail (SnapshotAlreadyExists a h)
      else
        sbind (head_snapshot X a) (\<lambda>head.
        let current = map_option extrinsic_hash head in
        if current \<noteq> expected then sfail (JournalConflict a expected current)
        else
          let snap = \<lparr>status = Pending, extrinsic_hash = h, block_hash = None,
                block_height = None, depends_on = expected, data = state\<rparr>;
              path = (nanos, h)
          in undo_failed_append X a path (write_snapshot X a path snap)))))"

definition confirm ::
  "ps_host \<Rightarrow> string \<Rightarrow> bytes \<Rightarrow> u64 option \<Rightarrow> bytes \<Rightarrow> unit fs_op" where
  "confirm X a ext height block =
     (let h = hex_encode X ext; b = hex_encode X block in
      sbind (find_snapshot_path X a h) (\<lambda>found.
      case found of
        None \<Rightarrow> sfail (SnapshotNotFound a h)
      | Some path \<Rightarrow>
        sbind (io ''read'') (\<lambda>_.
        sbind (sget (\<lambda>s. map_of (files (dir_at s (hashed_name X a))) path)) (\<lambda>read.
        case read of
          None \<Rightarrow> sfail (Io ''snapshot disappeared'')
        | Some snap \<Rightarrow>
          if status snap = Confirmed then
            if block_hash snap \<noteq> Some b then sfail (InvalidFormat (ConfirmedElsewhere a h))
            else if block_height snap = None \<and> height \<noteq> None then
              write_snapshot X a path (snap\<lparr>block_height := height\<rparr>)
            else sret ()
          else
            write_snapshot X a path
              (snap\<lparr>status := Confirmed, block_height := height, block_hash := Some b\<rparr>)))))"

text \<open>The removal loop of \<^verbatim>\<open>cascade_drop\<close>, which stops at the first failure.\<close>

fun remove_each :: "ps_host \<Rightarrow> string \<Rightarrow> (string \<rightharpoonup> snap_path) \<Rightarrow> string list \<Rightarrow> unit fs_op" where
  "remove_each X a paths [] = sret ()"
| "remove_each X a paths (h # hs) =
     (case paths h of
        None \<Rightarrow> remove_each X a paths hs
      | Some path \<Rightarrow> sbind (remove_snapshot_file X a path) (\<lambda>_. remove_each X a paths hs))"

definition cascade_drop :: "ps_host \<Rightarrow> string \<Rightarrow> string \<Rightarrow> unit fs_op" where
  "cascade_drop X a start =
     sbind (load_snapshots X a) (\<lambda>snaps.
     if \<not> list_ex (\<lambda>(path, snap). extrinsic_hash snap = start) snaps
     then sfail (SnapshotNotFound a start)
     else
       let paths = map_from_list (map (\<lambda>(path, snap). (extrinsic_hash snap, path)) snaps);
           doomed = walk_children (map snd snaps) [start]
       in sbind (remove_each X a paths (rev doomed)) (\<lambda>_. io ''sync''))"

definition rollback_from :: "ps_host \<Rightarrow> string \<Rightarrow> bytes \<Rightarrow> unit fs_op" where
  "rollback_from X a ext = cascade_drop X a (hex_encode X ext)"

definition mark_failed :: "ps_host \<Rightarrow> string \<Rightarrow> bytes \<Rightarrow> unit fs_op" where
  "mark_failed X a ext = rollback_from X a ext"

definition snapshots :: "ps_host \<Rightarrow> string \<Rightarrow> snapshot list fs_op" where
  "snapshots X a = sbind (load_snapshots X a) (\<lambda>snaps. sret (topo_sort (map snd snaps)))"

definition parse_hash :: "ps_host \<Rightarrow> string \<Rightarrow> (ps_error, bytes) res" where
  "parse_hash X h =
     (case hex_decode X h of
        None \<Rightarrow> Err (InvalidFormat BadHex)
      | Some b \<Rightarrow> if length b = 32 then Ok b else Err (InvalidFormat (BadHashLength (length b))))"

definition head_with_extrinsic :: "ps_host \<Rightarrow> string \<Rightarrow> (bytes \<times> bytes) option fs_op" where
  "head_with_extrinsic X a =
     sbind (head_snapshot X a) (\<lambda>head.
     case head of
       None \<Rightarrow> sret None
     | Some snap \<Rightarrow>
         sbind (slift (parse_hash X (extrinsic_hash snap))) (\<lambda>ext. sret (Some (data snap, ext))))"

definition head :: "ps_host \<Rightarrow> string \<Rightarrow> bytes option fs_op" where
  "head X a = sbind (head_with_extrinsic X a) (\<lambda>h. sret (map_option fst h))"

definition head_extrinsic :: "ps_host \<Rightarrow> string \<Rightarrow> bytes option fs_op" where
  "head_extrinsic X a = sbind (head_with_extrinsic X a) (\<lambda>h. sret (map_option snd h))"

text \<open>
  \<^verbatim>\<open>forget\<close> is \<^verbatim>\<open>remove_dir_all\<close> of the address directory: its entries one by one, then
  the directory.
\<close>

definition forget :: "ps_host \<Rightarrow> string \<Rightarrow> unit fs_op" where
  "forget X a =
     (let d = hashed_name X a in
      sbind (sget (\<lambda>s. map fst (files (dir_at s d)))) (\<lambda>paths.
      sbind (straverse (remove_snapshot_file X a) paths) (\<lambda>_.
      sbind (io ''clear'') (\<lambda>_.
      smodify (\<lambda>s. s\<lparr>states := AList.delete d (states s)\<rparr>)))))"

section \<open>Signing keys\<close>

definition set_signing_key :: "ps_host \<Rightarrow> string \<Rightarrow> bytes \<Rightarrow> unit fs_op" where
  "set_signing_key X a k =
     sbind (io ''create dir'') (\<lambda>_.
     write_atomic (keys_update (AList.update (hashed_name X a) \<lparr>key_address = a, key_data = k\<rparr>)))"

definition get_signing_key :: "ps_host \<Rightarrow> string \<Rightarrow> bytes option fs_op" where
  "get_signing_key X a =
     sbind (io ''read'') (\<lambda>_. sget (\<lambda>s. map_option key_data (map_of (keys s) (hashed_name X a))))"

definition remove_signing_key :: "ps_host \<Rightarrow> string \<Rightarrow> unit fs_op" where
  "remove_signing_key X a =
     sbind (io ''remove'') (\<lambda>_. smodify (keys_update (AList.delete (hashed_name X a))))"


section \<open>What the operations do to one address\<close>

abbreviation address_files :: "ps_host \<Rightarrow> string \<Rightarrow> fs_store \<Rightarrow> (snap_path \<times> snapshot) list" where
  "address_files X a s \<equiv> files (dir_at s (hashed_name X a))"

text \<open>
  \<open>holds X a s cs\<close>: the directory of the address \<open>a\<close> stores the chain \<open>cs\<close>, one file per
  snapshot, each named for its hash.
\<close>

definition named_files :: "(snap_path \<times> snapshot) list \<Rightarrow> bool" where
  "named_files fs \<longleftrightarrow> distinct (map fst fs) \<and> (\<forall>(path, snap)\<in>set fs. snd path = extrinsic_hash snap)"

definition chain_files :: "snapshot list \<Rightarrow> (snap_path \<times> snapshot) list \<Rightarrow> bool" where
  "chain_files cs fs \<longleftrightarrow> is_chain cs \<and> named_files fs \<and> mset (map snd fs) = mset cs"

definition holds :: "ps_host \<Rightarrow> string \<Rightarrow> fs_store \<Rightarrow> snapshot list \<Rightarrow> bool" where
  "holds X a s cs \<longleftrightarrow> chain_files cs (address_files X a s)"

lemma dir_at_simps [simp]:
  "dir_at (s\<lparr>faults := fs\<rparr>) d = dir_at s d"
  "dir_at (s\<lparr>keys := ks\<rparr>) d = dir_at s d"
  "dir_at (update_dir d f s) d' = (if d' = d then f (dir_at s d) else dir_at s d')"
  by (simp_all add: dir_at_def update_dir_def update_conv' split: option.split)

lemma update_dir_more [simp]:
  "faults (update_dir d f s) = faults s" "keys (update_dir d f s) = keys s"
  by (simp_all add: update_dir_def)

lemma mset_journal [simp]: "mset (journal X a s) = mset (map snd (address_files X a s))"
  by (simp add: journal_def snapshot_files_def)

lemma set_snapshot_files [simp]: "set (snapshot_files X a s) = set (address_files X a s)"
  by (simp add: snapshot_files_def)

lemma snapshot_files_simps [simp]:
  "snapshot_files X a (s\<lparr>faults := fs\<rparr>) = snapshot_files X a s"
  "journal X a (s\<lparr>faults := fs\<rparr>) = journal X a s"
  by (simp_all add: snapshot_files_def journal_def)

lemma holds_simps [simp]:
  "holds X a (s\<lparr>faults := fs\<rparr>) cs = holds X a s cs"
  "holds X a (update_dir d (marker_update f) s) cs = holds X a s cs"
  "holds X a (update_dir d id s) cs = holds X a s cs"
  by (simp_all add: holds_def)

lemma holds_linear: "holds X a s cs \<Longrightarrow> linear (journal X a s)"
  unfolding holds_def chain_files_def linear_def by (metis mset_journal)

lemma holds_head:
  assumes "holds X a s cs"
  shows "find_leaf (journal X a s) = Ok (if cs = [] then None else Some (last cs))"
  using assms unfolding holds_def chain_files_def by (intro find_leaf_head) simp_all

lemma holds_topo: "holds X a s cs \<Longrightarrow> topo_sort (journal X a s) = cs"
  unfolding holds_def chain_files_def by (intro topo_sort_chain) simp_all

lemma holds_unique: "holds X a s cs \<Longrightarrow> holds X a s cs' \<Longrightarrow> cs = cs'"
  using holds_topo by metis

subsection \<open>Symbolic evaluation of file operations\<close>

lemma wp_io:
  "(\<And>fs. Q (Ok ()) (s\<lparr>faults := fs\<rparr>)) \<Longrightarrow> (\<And>fs. Q (Err (Io w)) (s\<lparr>faults := fs\<rparr>)) \<Longrightarrow> wp (io w) Q s"
  by (cases s) (simp add: io_def wp_def split: list.split)

lemma wp_io_ok [simp]: "faults s = [] \<Longrightarrow> wp (io w) Q s = Q (Ok ()) s"
  by (simp add: wp_def io_def)

lemma wp_load:
  assumes "\<And>fs. Q (Ok (snapshot_files X a s)) (s\<lparr>faults := fs\<rparr>)"
    and "\<And>fs. Q (Err (Io ''read dir'')) (s\<lparr>faults := fs\<rparr>)"
  shows "wp (load_snapshots X a) Q s"
  unfolding load_snapshots_def by (simp, rule wp_io) (simp_all add: assms)

lemma wp_load_ok [simp]:
  "faults s = [] \<Longrightarrow> wp (load_snapshots X a) Q s = Q (Ok (snapshot_files X a s)) s"
  by (simp add: load_snapshots_def)

subsection \<open>The file edits\<close>

lemma alist_delete_split:
  "distinct (map fst (us @ (k, v) # vs)) \<Longrightarrow> AList.delete k (us @ (k, v) # vs) = us @ vs"
proof (induction us)
  case Nil
  then have "k \<notin> fst ` set vs" by simp
  then have "filter (\<lambda>(k', _). k \<noteq> k') vs = vs" by (force simp: filter_id_conv)
  then show ?case by (simp add: AList.delete_eq)
qed (auto simp: AList.delete_eq)

lemma alist_update_split:
  "distinct (map fst (us @ (k, v) # vs)) \<Longrightarrow> AList.update k w (us @ (k, v) # vs) = us @ (k, w) # vs"
  by (induction us) auto

lemma files_hashes:
  assumes "chain_files cs fs"
  shows "extrinsic_hash ` set cs = extrinsic_hash ` snd ` set fs"
proof -
  have "set cs = set (map snd (fs))"
    using assms unfolding chain_files_def by (metis set_mset_mset)
  then show ?thesis by simp
qed

lemma files_file:
  assumes "chain_files cs fs" "c \<in> set cs"
  obtains path where "(path, c) \<in> set fs"
    "map_of (fs) path = Some c" "snd path = extrinsic_hash c"
proof -
  have "c \<in> set (map snd (fs))"
    using assms unfolding chain_files_def by (metis set_mset_mset)
  then obtain path where p: "(path, c) \<in> set fs" by auto
  moreover have "map_of (fs) path = Some c"
    using assms(1) p by (simp add: chain_files_def named_files_def map_of_is_SomeI)
  moreover have "snd path = extrinsic_hash c"
    using assms(1) p by (auto simp: chain_files_def named_files_def)
  ultimately show thesis by (rule that)
qed

lemma files_inj:
  assumes "chain_files cs fs" "(p, c) \<in> set fs"
    "(q, d) \<in> set fs" "extrinsic_hash c = extrinsic_hash d"
  shows "(p, c) = (q, d)"
proof -
  have "mset (map extrinsic_hash (map snd (fs))) = mset (map extrinsic_hash cs)"
    using assms(1) by (simp only: chain_files_def mset_map)
  from mset_eq_imp_distinct_iff [OF this] have "distinct (map (extrinsic_hash \<circ> snd) (fs))"
    using assms(1) by (simp add: chain_files_def is_chain_def)
  then have "inj_on (extrinsic_hash \<circ> snd) (set fs)"
    unfolding distinct_map by blast
  from inj_onD [OF this _ assms(2,3)] show ?thesis using assms(4) by simp
qed

lemma fresh_path:
  assumes "chain_files cs fs" and "snd path \<notin> extrinsic_hash ` set cs"
  shows "path \<notin> fst ` set fs"
proof
  assume "path \<in> fst ` set fs"
  then obtain c where c: "(path, c) \<in> set fs" by auto
  then have "snd path = extrinsic_hash (snd (path, c))"
    using assms(1) by (auto simp: chain_files_def named_files_def)
  with c assms(2) show False unfolding files_hashes [OF assms(1)] by (metis imageI)
qed

lemma files_append_file:
  assumes "chain_files cs fs" and "is_chain (cs @ [snap])" and "snd path = extrinsic_hash snap"
  shows "chain_files (cs @ [snap]) (AList.update path snap fs)"
proof -
  have fresh: "path \<notin> fst ` set fs"
    by (rule fresh_path [OF assms(1)]) (use assms(2,3) in \<open>simp add: is_chain_snoc\<close>)
  then have "AList.update path snap fs = fs @ [(path, snap)]"
    by (rule update_fresh)
  moreover have "named_files (fs @ [(path, snap)])"
    using assms(1,3) fresh by (simp add: chain_files_def named_files_def)
  moreover have "mset (map snd fs) = mset cs" using assms(1) by (simp add: chain_files_def)
  ultimately show ?thesis
    using assms(2) by (simp add: chain_files_def)
qed

lemma files_delete_last:
  assumes "chain_files (cs @ [c]) fs" and "(path, c) \<in> set fs"
  shows "chain_files cs (AList.delete path fs)"
proof -
  have dist: "distinct (map fst fs)" using assms(1) by (simp add: chain_files_def named_files_def)
  obtain us vs where split: "fs = us @ (path, c) # vs" using assms(2) by (meson split_list)
  with dist have "AList.delete path fs = us @ vs" by (simp only: alist_delete_split)
  moreover have "named_files (us @ vs)"
    using assms(1) split unfolding chain_files_def named_files_def by auto
  ultimately show ?thesis
    using assms(1) split by (simp add: chain_files_def is_chain_snoc)
qed

definition replace_by_hash :: "snapshot \<Rightarrow> snapshot list \<Rightarrow> snapshot list" where
  "replace_by_hash new cs = map (\<lambda>c. if extrinsic_hash c = extrinsic_hash new then new else c) cs"

lemma replace_by_hash_chain:
  assumes "is_chain cs" "c \<in> set cs" "extrinsic_hash new = extrinsic_hash c"
    "depends_on new = depends_on c"
  shows "is_chain (replace_by_hash new cs)"
proof -
  have hashes: "map extrinsic_hash (replace_by_hash new cs) = map extrinsic_hash cs" for cs
    by (simp add: replace_by_hash_def)
  have "chain_from p (replace_by_hash new cs)"
    if "chain_from p cs" "\<forall>d\<in>set cs. extrinsic_hash d = extrinsic_hash new \<longrightarrow> depends_on d = depends_on new"
    for p cs
    using that by (induction cs arbitrary: p) (auto simp: replace_by_hash_def)
  moreover have "\<forall>d\<in>set cs. extrinsic_hash d = extrinsic_hash new \<longrightarrow> depends_on d = depends_on new"
    using assms by (auto simp: is_chain_def distinct_map dest: inj_onD)
  ultimately show ?thesis
    using assms(1) unfolding is_chain_def hashes by blast
qed

lemma files_replace_file:
  assumes "chain_files cs fs" "(path, c) \<in> set fs"
    and "extrinsic_hash new = extrinsic_hash c" "depends_on new = depends_on c"
  shows "chain_files (replace_by_hash new cs) (AList.update path new fs)"
proof -
  have "c \<in> set cs"
    using assms(1,2) unfolding chain_files_def by (metis image_eqI set_map set_mset_mset snd_conv)
  then have chain: "is_chain (replace_by_hash new cs)"
    using assms by (intro replace_by_hash_chain) (auto simp: chain_files_def)
  have dist: "distinct (map fst fs)" using assms(1) by (simp add: chain_files_def named_files_def)
  obtain us vs where split: "fs = us @ (path, c) # vs" using assms(2) by (meson split_list)
  with dist have upd: "AList.update path new fs = us @ (path, new) # vs"
    by (simp only: alist_update_split)
  have other: "extrinsic_hash (snd e) \<noteq> extrinsic_hash new" if "e \<in> set us \<union> set vs" for e
  proof
    assume "extrinsic_hash (snd e) = extrinsic_hash new"
    then have "e = (path, c)"
      using files_inj [OF assms(1), of "fst e" "snd e" path c] that split assms(2,3) by auto
    with that dist split show False by force
  qed
  let ?f = "\<lambda>c. if extrinsic_hash c = extrinsic_hash new then new else c"
  have "map ?f (map snd us) = map snd us" "map ?f (map snd vs) = map snd vs"
    using other by (auto intro!: map_idI)
  then have "map snd (us @ (path, new) # vs) = map ?f (map snd fs)"
    using split assms(3) by simp
  then have "mset (map snd (us @ (path, new) # vs)) = image_mset ?f (mset (map snd fs))"
    by (simp only: mset_map)
  also have "\<dots> = mset (replace_by_hash new cs)"
    using assms(1) by (simp add: chain_files_def replace_by_hash_def)
  finally have "mset (map snd (us @ (path, new) # vs)) = mset (replace_by_hash new cs)" .
  moreover have "named_files (us @ (path, new) # vs)"
    using assms(1,3) split unfolding chain_files_def named_files_def by auto
  ultimately show ?thesis
    using chain upd by (simp add: chain_files_def)
qed

section \<open>What each operation does, whatever fails\<close>

text \<open>The errors of the environment: a failed file operation, or a marker of another address.\<close>

fun env_error :: "ps_error \<Rightarrow> bool" where
  "env_error (Io w) = True"
| "env_error (InvalidFormat (MarkerMismatch m b)) = True"
| "env_error e = False"

lemma wp_write_atomic:
  assumes "\<And>fs fs'. Q (Ok ()) ((put (s\<lparr>faults := fs\<rparr>))\<lparr>faults := fs'\<rparr>)"
    and "\<And>fs w. Q (Err (Io w)) (s\<lparr>faults := fs\<rparr>)"
    and "\<And>fs fs' w. Q (Err (Io w)) ((put (s\<lparr>faults := fs\<rparr>))\<lparr>faults := fs'\<rparr>)"
  shows "wp (write_atomic put) Q s"
proof -
  have "wp (write_atomic put) Q (s\<lparr>faults := fs\<rparr>)" for fs
    unfolding write_atomic_def wp_sbind
    by (intro wp_io; simp add: assms; intro wp_io; simp add: assms; intro wp_io; simp add: assms)
  from this [of "faults s"] show ?thesis by simp
qed

lemma wp_write_snapshot:
  assumes "\<And>t. address_files X a t = AList.update path snap (address_files X a s) \<Longrightarrow> Q (Ok ()) t"
    and "\<And>t w. address_files X a t = address_files X a s \<Longrightarrow> Q (Err (Io w)) t"
    and "\<And>t w. address_files X a t = AList.update path snap (address_files X a s) \<Longrightarrow> Q (Err (Io w)) t"
  shows "wp (write_snapshot X a path snap) Q s"
  unfolding write_snapshot_def create_private_dir_def Let_def wp_sbind
  by (intro wp_io; simp add: assms) (intro wp_write_atomic; simp add: assms)

lemma wp_ensure_address_marker:
  assumes "\<And>t. address_files X a t = address_files X a s \<Longrightarrow> Q (Ok ()) t"
    and "\<And>t e. address_files X a t = address_files X a s \<Longrightarrow> env_error e \<Longrightarrow> Q (Err e) t"
  shows "wp (ensure_address_marker X a) Q s"
  unfolding ensure_address_marker_def create_private_dir_def Let_def wp_sbind
  apply (intro wp_io; simp add: assms)
  apply (intro wp_io; simp add: assms split: option.split)
  apply (intro conjI impI allI wp_write_atomic; simp add: assms)
  done

lemma wp_remove_snapshot_file:
  assumes "\<And>t. address_files X a t = AList.delete path (address_files X a s) \<Longrightarrow> Q (Ok ()) t"
    and "\<And>t w. address_files X a t = address_files X a s \<Longrightarrow> Q (Err (Io w)) t"
  shows "wp (remove_snapshot_file X a path) Q s"
  unfolding remove_snapshot_file_def wp_sbind
  by (intro wp_io; simp add: assms)

lemma wp_undo_failed_append:
  assumes "wp write (\<lambda>r t. case r of Err e \<Rightarrow>
      wp (remove_snapshot_file X a path) (\<lambda>_. Q (Err e)) t | _ \<Rightarrow> Q r t) s"
  shows "wp (undo_failed_append X a path write) Q s"
  using assms by (auto simp: wp_def undo_failed_append_def split: prod.splits res.splits)

lemma find_Some_prop: "find P xs = Some x \<Longrightarrow> x \<in> set xs \<and> P x"
  by (induction xs) (auto split: if_splits)

lemma find_hash_Some:
  assumes "chain_files cs (address_files X a s)"
    and "find (\<lambda>(path, snap). extrinsic_hash snap = h) (snapshot_files X a s) = Some (path, snap)"
  shows "(path, snap) \<in> set (address_files X a s)" "extrinsic_hash snap = h" "snap \<in> set cs"
proof -
  from assms(2) have "(path, snap) \<in> set (snapshot_files X a s)" and h: "extrinsic_hash snap = h"
    using find_Some_prop [OF assms(2)] by simp_all
  then show mem: "(path, snap) \<in> set (address_files X a s)" by simp
  show "extrinsic_hash snap = h" by (rule h)
  show "snap \<in> set cs"
    using assms(1) mem unfolding chain_files_def by (metis image_eqI set_map set_mset_mset snd_conv)
qed

lemma find_hash_None:
  assumes "chain_files cs (address_files X a s)"
  shows "find (\<lambda>(path, snap). extrinsic_hash snap = h) (snapshot_files X a s) = None \<longleftrightarrow>
    h \<notin> extrinsic_hash ` set cs"
  unfolding files_hashes [OF assms] find_None_iff by (simp add: image_image) (force simp: image_iff)

end
