(* ===== verification/JournalContract.thy ===== *)
theory JournalContract
  imports JournalStore
begin

text \<open>
  The contract of the private-state journal. The abstract machine below works on the chain of
  an address; the file operations of \<^verbatim>\<open>fs.rs\<close> refine it whatever file operation
  fails. The locale \<open>journal_contract\<close> is the interface a client of the store relies on; it
  is proved once and interpreted on the file store.
\<close>

section \<open>The journal as an abstract machine\<close>

datatype journal_op =
    AppendPending nat bytes "bytes option" bytes
  | Confirm bytes "u64 option" bytes
  | MarkFailed bytes
  | RollbackFrom bytes

fun run_op :: "ps_host \<Rightarrow> string \<Rightarrow> journal_op \<Rightarrow> unit fs_op" where
  "run_op X a (AppendPending nanos ext dep st) = append_pending X nanos a ext dep st"
| "run_op X a (Confirm ext height block) = confirm X a ext height block"
| "run_op X a (MarkFailed ext) = mark_failed X a ext"
| "run_op X a (RollbackFrom ext) = rollback_from X a ext"

definition spec_append ::
  "string \<Rightarrow> string \<Rightarrow> string option \<Rightarrow> bytes \<Rightarrow> snapshot list \<Rightarrow> (ps_error, unit) res \<times> snapshot list"
where
  "spec_append a h dep st cs =
     (if h \<in> extrinsic_hash ` set cs then (Err (SnapshotAlreadyExists a h), cs)
      else if chain_tip cs \<noteq> dep then (Err (JournalConflict a dep (chain_tip cs)), cs)
      else (Ok (), cs @ [\<lparr>status = Pending, extrinsic_hash = h, block_hash = None,
        block_height = None, depends_on = dep, data = st\<rparr>]))"

definition confirmed_as :: "u64 option \<Rightarrow> string \<Rightarrow> snapshot \<Rightarrow> snapshot" where
  "confirmed_as height b c =
     (if status c = Confirmed then
        if block_height c = None \<and> height \<noteq> None then c\<lparr>block_height := height\<rparr> else c
      else c\<lparr>status := Confirmed, block_height := height, block_hash := Some b\<rparr>)"

definition spec_confirm ::
  "string \<Rightarrow> string \<Rightarrow> u64 option \<Rightarrow> string \<Rightarrow> snapshot list \<Rightarrow> (ps_error, unit) res \<times> snapshot list"
where
  "spec_confirm a h height b cs =
     (case find (\<lambda>c. extrinsic_hash c = h) cs of
        None \<Rightarrow> (Err (SnapshotNotFound a h), cs)
      | Some c \<Rightarrow>
          if status c = Confirmed \<and> block_hash c \<noteq> Some b
          then (Err (InvalidFormat (ConfirmedElsewhere a h)), cs)
          else (Ok (), map (\<lambda>d. if extrinsic_hash d = h then confirmed_as height b d else d) cs))"

definition spec_rollback ::
  "string \<Rightarrow> string \<Rightarrow> snapshot list \<Rightarrow> (ps_error, unit) res \<times> snapshot list" where
  "spec_rollback a h cs =
     (if h \<in> extrinsic_hash ` set cs then (Ok (), takeWhile (\<lambda>c. extrinsic_hash c \<noteq> h) cs)
      else (Err (SnapshotNotFound a h), cs))"

fun spec_op ::
  "ps_host \<Rightarrow> string \<Rightarrow> journal_op \<Rightarrow> snapshot list \<Rightarrow> (ps_error, unit) res \<times> snapshot list" where
  "spec_op X a (AppendPending nanos ext dep st) =
     spec_append a (hex_encode X ext) (map_option (hex_encode X) dep) st"
| "spec_op X a (Confirm ext height block) =
     spec_confirm a (hex_encode X ext) height (hex_encode X block)"
| "spec_op X a (MarkFailed ext) = spec_rollback a (hex_encode X ext)"
| "spec_op X a (RollbackFrom ext) = spec_rollback a (hex_encode X ext)"

text \<open>
  The chains an operation may leave when a file operation fails under way: its target, or a
  prefix of the old chain that is no shorter than the target.
\<close>

definition torn :: "snapshot list \<Rightarrow> snapshot list \<Rightarrow> snapshot list \<Rightarrow> bool" where
  "torn target cs cs' \<longleftrightarrow> cs' = target \<or> (\<exists>k. length target \<le> k \<and> cs' = take k cs)"

definition outcome ::
  "(ps_error, unit) res \<times> snapshot list \<Rightarrow> snapshot list \<Rightarrow> (ps_error, unit) res \<Rightarrow> snapshot list \<Rightarrow> bool"
where
  "outcome spec cs r cs' \<longleftrightarrow>
     (r, cs') = spec \<or> (\<exists>e. r = Err e \<and> env_error e \<and> torn (snd spec) cs cs')"

lemma torn_refl: "length target \<le> length cs \<Longrightarrow> torn target cs cs"
  unfolding torn_def by (metis order_refl take_all)

lemma torn_target: "torn target cs target"
  by (simp add: torn_def)

lemma spec_append_length: "length cs \<le> length (snd (spec_append a h dep st cs))"
  by (simp add: spec_append_def)

lemma append_torn: "torn (snd (spec_append a h dep st cs)) cs cs"
  unfolding torn_def
  by (intro disjI2 exI [of _ "length (snd (spec_append a h dep st cs))"]) (simp add: spec_append_length)

lemma holds_cong: "address_files X a t = address_files X a s \<Longrightarrow> holds X a t cs = holds X a s cs"
  by (simp add: holds_def)

lemma files_cong:
  assumes "address_files X a t = address_files X a s"
  shows "snapshot_files X a t = snapshot_files X a s" "journal X a t = journal X a s"
  using assms by (simp_all add: journal_def snapshot_files_def)

lemma wp_if: "wp (if b then m else n) Q s \<longleftrightarrow> (b \<longrightarrow> wp m Q s) \<and> (\<not> b \<longrightarrow> wp n Q s)"
  by simp

lemma wp_find_snapshot_path:
  assumes "\<And>t. address_files X a t = address_files X a s \<Longrightarrow>
      Q (Ok (map_option fst (find (\<lambda>(path, snap). extrinsic_hash snap = h) (snapshot_files X a s)))) t"
    and "\<And>t w. address_files X a t = address_files X a s \<Longrightarrow> Q (Err (Io w)) t"
  shows "wp (find_snapshot_path X a h) Q s"
  unfolding find_snapshot_path_def wp_sbind
proof (rule wp_load)
  show "case Ok (snapshot_files X a s) of
      Ok aa \<Rightarrow> wp (sret (map_option fst (find (\<lambda>(path, snap). extrinsic_hash snap = h) aa))) Q (s\<lparr>faults := fs\<rparr>)
    | Err e \<Rightarrow> Q (Err e) (s\<lparr>faults := fs\<rparr>) | Panic \<Rightarrow> Q Panic (s\<lparr>faults := fs\<rparr>)
    | NoFuel \<Rightarrow> Q NoFuel (s\<lparr>faults := fs\<rparr>)" for fs
    using assms(1) [of "s\<lparr>faults := fs\<rparr>"] by simp
qed (simp add: assms(2))

lemma wp_head_snapshot:
  assumes "\<And>t. address_files X a t = address_files X a s \<Longrightarrow> Q (find_leaf (journal X a s)) t"
    and "\<And>t w. address_files X a t = address_files X a s \<Longrightarrow> Q (Err (Io w)) t"
  shows "wp (head_snapshot X a) Q s"
  unfolding head_snapshot_def wp_sbind
proof (rule wp_load)
  show "case Ok (snapshot_files X a s) of
      Ok aa \<Rightarrow> wp (slift (find_leaf (map snd aa))) Q (s\<lparr>faults := fs\<rparr>)
    | Err e \<Rightarrow> Q (Err e) (s\<lparr>faults := fs\<rparr>) | Panic \<Rightarrow> Q Panic (s\<lparr>faults := fs\<rparr>)
    | NoFuel \<Rightarrow> Q NoFuel (s\<lparr>faults := fs\<rparr>)" for fs
    using assms(1) [of "s\<lparr>faults := fs\<rparr>"] by (simp add: journal_def)
qed (simp add: assms(2))

lemma wp_append_pending:
  fixes X a s nanos ext dep st
  defines "h \<equiv> hex_encode X ext" and "expected \<equiv> map_option (hex_encode X) dep"
  assumes env: "\<And>t e. address_files X a t = address_files X a s \<Longrightarrow> env_error e \<Longrightarrow> Q (Err e) t"
    and dup: "\<And>t. address_files X a t = address_files X a s \<Longrightarrow>
      find (\<lambda>(path, snap). extrinsic_hash snap = h) (snapshot_files X a s) \<noteq> None \<Longrightarrow>
      Q (Err (SnapshotAlreadyExists a h)) t"
    and malformed: "\<And>t e. address_files X a t = address_files X a s \<Longrightarrow>
      find_leaf (journal X a s) = Err e \<Longrightarrow> Q (Err e) t"
    and conflict: "\<And>t head. address_files X a t = address_files X a s \<Longrightarrow>
      find (\<lambda>(path, snap). extrinsic_hash snap = h) (snapshot_files X a s) = None \<Longrightarrow>
      find_leaf (journal X a s) = Ok head \<Longrightarrow> map_option extrinsic_hash head \<noteq> expected \<Longrightarrow>
      Q (Err (JournalConflict a expected (map_option extrinsic_hash head))) t"
    and fresh: "\<And>t head. address_files X a t = address_files X a s \<Longrightarrow>
      find (\<lambda>(path, snap). extrinsic_hash snap = h) (snapshot_files X a s) = None \<Longrightarrow>
      find_leaf (journal X a s) = Ok head \<Longrightarrow> map_option extrinsic_hash head = expected \<Longrightarrow>
      wp (undo_failed_append X a (nanos, h) (write_snapshot X a (nanos, h)
        \<lparr>status = Pending, extrinsic_hash = h, block_hash = None,
         block_height = None, depends_on = expected, data = st\<rparr>)) Q t"
  shows "wp (append_pending X nanos a ext dep st) Q s"
  unfolding append_pending_def Let_def wp_sbind h_def [symmetric] expected_def [symmetric]

  apply (rule wp_ensure_address_marker; simp only: res.case)
   prefer 2 apply (erule (1) env)
  apply (rule wp_find_snapshot_path; simp only: res.case)
   prefer 2 apply (rule env; simp)
  subgoal for t u
    apply (simp only: wp_if option.map_disc_iff files_cong(1) [of t X a s] wp_sbind wp_basics)
    apply (intro conjI impI)
     apply (rule dup; simp)
    apply (rule wp_head_snapshot)
     apply (simp only: files_cong(2) [of u X a s])
     apply (cases "find_leaf (journal X a s)")
        apply (simp_all add: wp_if env malformed find_leaf_total del: not_None_eq not_Some_eq)
    apply (intro conjI impI; (rule conflict | rule fresh); simp)
    done
  done

lemma append_pending_refines:
  assumes "holds X a s cs"
  shows "wp (append_pending X nanos a ext dep st) (\<lambda>r t. \<exists>cs'. holds X a t cs' \<and>
    outcome (spec_append a (hex_encode X ext) (map_option (hex_encode X) dep) st cs) cs r cs') s"
proof -
  let ?h = "hex_encode X ext" and ?dep = "map_option (hex_encode X) dep"
  let ?snap = "\<lparr>status = Pending, extrinsic_hash = ?h, block_hash = None, block_height = None,
    depends_on = ?dep, data = st\<rparr>"
  let ?spec = "spec_append a ?h ?dep st cs"
  let ?Q = "\<lambda>r t. \<exists>cs'. holds X a t cs' \<and> outcome ?spec cs r cs'"
  have keep: "?Q (Err e) t" if "holds X a t cs" "env_error e" for e t
    using that append_torn unfolding outcome_def by blast
  have files: "chain_files cs (address_files X a s)" using assms by (simp add: holds_def)
  have tip: "find_leaf (journal X a s) = Ok head \<Longrightarrow> map_option extrinsic_hash head = chain_tip cs" for head
    using holds_head [OF assms] by (auto simp: chain_tip_def)
  show ?thesis
  proof (rule wp_append_pending)
    fix t e assume "address_files X a t = address_files X a s" "env_error e"
    with assms keep show "?Q (Err e) t" by (simp add: holds_def)
  next
    fix t assume "address_files X a t = address_files X a s"
      "find (\<lambda>(path, snap). extrinsic_hash snap = ?h) (snapshot_files X a s) \<noteq> None"
    with assms have "holds X a t cs \<and> outcome ?spec cs (Err (SnapshotAlreadyExists a ?h)) cs"
      unfolding find_hash_None [OF files] by (simp add: holds_def outcome_def spec_append_def)
    then show "?Q (Err (SnapshotAlreadyExists a ?h)) t" ..
  next
    fix t e assume "find_leaf (journal X a s) = Err e"
    with holds_head [OF assms] show "?Q (Err e) t" by simp
  next
    fix t head assume "address_files X a t = address_files X a s"
      "find (\<lambda>(path, snap). extrinsic_hash snap = ?h) (snapshot_files X a s) = None"
      "find_leaf (journal X a s) = Ok head" "map_option extrinsic_hash head \<noteq> ?dep"
    with assms tip have "holds X a t cs \<and>
        outcome ?spec cs (Err (JournalConflict a ?dep (map_option extrinsic_hash head))) cs"
      unfolding find_hash_None [OF files] by (simp add: holds_def outcome_def spec_append_def)
    then show "?Q (Err (JournalConflict a ?dep (map_option extrinsic_hash head))) t" ..
  next
    fix t head assume t: "address_files X a t = address_files X a s"
      and "find (\<lambda>(path, snap). extrinsic_hash snap = ?h) (snapshot_files X a s) = None"
      and "find_leaf (journal X a s) = Ok head" "map_option extrinsic_hash head = ?dep"
    with tip have new: "?h \<notin> extrinsic_hash ` set cs" and tip: "chain_tip cs = ?dep"
      unfolding find_hash_None [OF files] by auto
    let ?fs = "address_files X a s" and ?path = "(nanos, ?h)"
    have chain: "is_chain (cs @ [?snap])"
      using files new tip by (simp add: is_chain_snoc chain_files_def)
    have spec: "?spec = (Ok (), cs @ [?snap])" using new tip by (simp add: spec_append_def)
    have added: "chain_files (cs @ [?snap]) (AList.update ?path ?snap ?fs)"
      using files chain by (rule files_append_file) simp
    have mem: "(?path, ?snap) \<in> set (AList.update ?path ?snap ?fs)"
      by (rule map_of_SomeD) (simp add: update_conv')
    have gone: "chain_files cs (AList.delete ?path (AList.update ?path ?snap ?fs))"
      using added mem by (rule files_delete_last)
    have "?path \<notin> fst ` set ?fs"
      by (rule fresh_path [OF files]) (simp add: new)
    then have same: "AList.delete ?path ?fs = ?fs" by (rule delete_id)
    show "wp (undo_failed_append X a ?path (write_snapshot X a ?path ?snap)) ?Q t"
    proof (rule wp_undo_failed_append, rule wp_write_snapshot, unfold res.case t)
      fix u assume "address_files X a u = AList.update ?path ?snap ?fs"
      with added show "?Q (Ok ()) u" by (auto simp: holds_def outcome_def spec)
    next
      fix u w assume "address_files X a u = ?fs"
      with same files show "wp (remove_snapshot_file X a ?path) (\<lambda>_. ?Q (Err (Io w))) u"
        by (intro wp_remove_snapshot_file keep) (simp_all add: holds_def)
    next
      fix u w assume u: "address_files X a u = AList.update ?path ?snap ?fs"
      have late: "?Q (Err (Io w)) v" if "address_files X a v = AList.update ?path ?snap ?fs" for v
        using that added by (auto simp: holds_def outcome_def spec torn_target)
      have undone: "?Q (Err (Io w)) v" if "address_files X a v = AList.delete ?path (address_files X a u)" for v
        by (rule keep) (use that gone u in \<open>simp_all add: holds_def\<close>)
      show "wp (remove_snapshot_file X a ?path) (\<lambda>_. ?Q (Err (Io w))) u"
        by (rule wp_remove_snapshot_file) (use late undone u in simp_all)
    qed
  qed
qed

lemma wp_confirm:
  fixes X a s ext height block
  defines "h \<equiv> hex_encode X ext" and "b \<equiv> hex_encode X block"
  assumes files: "chain_files cs (address_files X a s)"
    and env: "\<And>t e. address_files X a t = address_files X a s \<Longrightarrow> env_error e \<Longrightarrow> Q (Err e) t"
    and missing: "\<And>t. address_files X a t = address_files X a s \<Longrightarrow>
      h \<notin> extrinsic_hash ` set cs \<Longrightarrow> Q (Err (SnapshotNotFound a h)) t"
    and elsewhere: "\<And>t c. address_files X a t = address_files X a s \<Longrightarrow>
      c \<in> set cs \<Longrightarrow> extrinsic_hash c = h \<Longrightarrow> status c = Confirmed \<Longrightarrow> block_hash c \<noteq> Some b \<Longrightarrow>
      Q (Err (InvalidFormat (ConfirmedElsewhere a h))) t"
    and again: "\<And>t c. address_files X a t = address_files X a s \<Longrightarrow>
      c \<in> set cs \<Longrightarrow> extrinsic_hash c = h \<Longrightarrow> status c = Confirmed \<Longrightarrow> block_hash c = Some b \<Longrightarrow>
      confirmed_as height b c = c \<Longrightarrow> Q (Ok ()) t"
    and rewrite: "\<And>t c path. address_files X a t = address_files X a s \<Longrightarrow>
      c \<in> set cs \<Longrightarrow> extrinsic_hash c = h \<Longrightarrow> (status c = Confirmed \<longrightarrow> block_hash c = Some b) \<Longrightarrow>
      (path, c) \<in> set (address_files X a s) \<Longrightarrow>
      wp (write_snapshot X a path (confirmed_as height b c)) Q t"
  shows "wp (confirm X a ext height block) Q s"
  unfolding confirm_def Let_def wp_sbind h_def [symmetric] b_def [symmetric]
proof (rule wp_find_snapshot_path, unfold res.case)
  fix t assume t: "address_files X a t = address_files X a s"
  let ?f = "find (\<lambda>(path, snap). extrinsic_hash snap = h) (snapshot_files X a s)"
  show "wp (case map_option fst ?f of None \<Rightarrow> sfail (SnapshotNotFound a h)
      | Some path \<Rightarrow> sbind (io ''read'') (\<lambda>_.
        sbind (sget (\<lambda>s. map_of (files (dir_at s (hashed_name X a))) path)) (\<lambda>read.
        case read of
          None \<Rightarrow> sfail (Io ''snapshot disappeared'')
        | Some snap \<Rightarrow>
          if status snap = Confirmed then
            if block_hash snap \<noteq> Some b then sfail (InvalidFormat (ConfirmedElsewhere a h))
            else if block_height snap = None \<and> height \<noteq> None then
              write_snapshot X a path (snap\<lparr>block_height := height\<rparr>)
            else sret ()
          else
            write_snapshot X a path
              (snap\<lparr>status := Confirmed, block_height := height, block_hash := Some b\<rparr>)))) Q t"
  proof (cases ?f)
    case None
    with find_hash_None [OF files, of h] missing [OF t] show ?thesis by simp
  next
    case (Some pc)
    then obtain path c where f: "?f = Some (path, c)" by (cases pc) simp
    note c = find_hash_Some [OF files f]
    have "map_of (address_files X a s) path = Some c"
      using files c(1) by (simp add: chain_files_def named_files_def map_of_is_SomeI)
    then have read: "map_of (address_files X a (t\<lparr>faults := fs\<rparr>)) path = Some c" for fs
      by (simp add: t)
    have same: "address_files X a (t\<lparr>faults := fs\<rparr>) = address_files X a s" for fs by (simp add: t)
    note fin = elsewhere [OF same c(3,2)] again [OF same c(3,2)] rewrite [OF same c(3,2) _ c(1)]
    show ?thesis
      unfolding f option.map fst_conv option.case wp_sbind
    proof (rule wp_io, unfold res.case wp_basics read option.case)
      show "wp (if status c = Confirmed then
            if block_hash c \<noteq> Some b then sfail (InvalidFormat (ConfirmedElsewhere a h))
            else if block_height c = None \<and> height \<noteq> None then
              write_snapshot X a path (c\<lparr>block_height := height\<rparr>)
            else sret ()
          else
            write_snapshot X a path
              (c\<lparr>status := Confirmed, block_height := height, block_hash := Some b\<rparr>)) Q (t\<lparr>faults := fs\<rparr>)" for fs
        using fin [of fs] by (auto simp: confirmed_as_def)
    qed (rule env, simp_all add: t)
  qed
qed (simp add: env)

lemma confirmed_as_fields [simp]:
  "extrinsic_hash (confirmed_as height b c) = extrinsic_hash c"
  "depends_on (confirmed_as height b c) = depends_on c"
  "data (confirmed_as height b c) = data c"
  "status (confirmed_as height b c) = Confirmed"
  by (simp_all add: confirmed_as_def)

lemma chain_find:
  assumes "is_chain cs" "c \<in> set cs"
  shows "find (\<lambda>d. extrinsic_hash d = extrinsic_hash c) cs = Some c"
proof -
  have "d = c" if "d \<in> set cs" "extrinsic_hash d = extrinsic_hash c" for d
    using assms that by (auto simp: is_chain_def distinct_map dest: inj_onD)
  with assms(2) show ?thesis by (induction cs) auto
qed

lemma replace_by_hash_confirmed:
  assumes "is_chain cs" "c \<in> set cs"
  shows "replace_by_hash (confirmed_as height b c) cs =
    map (\<lambda>d. if extrinsic_hash d = extrinsic_hash c then confirmed_as height b d else d) cs"
proof -
  have "d = c" if "d \<in> set cs" "extrinsic_hash d = extrinsic_hash c" for d
    using assms that by (auto simp: is_chain_def distinct_map dest: inj_onD)
  then show ?thesis by (auto simp: replace_by_hash_def)
qed

lemma confirm_refines:
  assumes "holds X a s cs"
  shows "wp (confirm X a ext height block) (\<lambda>r t. \<exists>cs'. holds X a t cs' \<and>
    outcome (spec_confirm a (hex_encode X ext) height (hex_encode X block) cs) cs r cs') s"
proof -
  let ?h = "hex_encode X ext" and ?b = "hex_encode X block"
  let ?spec = "spec_confirm a ?h height ?b cs"
  let ?Q = "\<lambda>r t. \<exists>cs'. holds X a t cs' \<and> outcome ?spec cs r cs'"
  have files: "chain_files cs (address_files X a s)" using assms by (simp add: holds_def)
  then have chain: "is_chain cs" by (simp add: chain_files_def)
  have len: "length (snd ?spec) = length cs"
    by (simp add: spec_confirm_def split: option.split)
  have result: "?Q r t" if "address_files X a t = address_files X a s" "outcome ?spec cs r cs" for r t
    using that assms by (auto simp: holds_def)
  have found: "find (\<lambda>d. extrinsic_hash d = ?h) cs = Some c"
    if "c \<in> set cs" "extrinsic_hash c = ?h" for c
    using chain_find [OF chain that(1)] that(2) by simp
  show ?thesis
  proof (rule wp_confirm [OF files])
    fix t e assume "address_files X a t = address_files X a s" "env_error e"
    then show "?Q (Err e) t"
      by (intro result) (auto simp: outcome_def len intro!: torn_refl)
  next
    fix t assume t: "address_files X a t = address_files X a s" and "?h \<notin> extrinsic_hash ` set cs"
    then have "find (\<lambda>d. extrinsic_hash d = ?h) cs = None" unfolding find_None_iff by (metis imageI)
    with t show "?Q (Err (SnapshotNotFound a ?h)) t"
      by (intro result) (simp_all add: outcome_def spec_confirm_def)
  next
    fix t c assume "address_files X a t = address_files X a s"
      and c: "c \<in> set cs" "extrinsic_hash c = ?h" "status c = Confirmed" "block_hash c \<noteq> Some ?b"
    then show "?Q (Err (InvalidFormat (ConfirmedElsewhere a ?h))) t"
      by (intro result) (simp_all add: outcome_def spec_confirm_def found [OF c(1,2)])
  next
    fix t c assume t: "address_files X a t = address_files X a s"
      and c: "c \<in> set cs" "extrinsic_hash c = ?h" "status c = Confirmed" "block_hash c = Some ?b"
        "confirmed_as height ?b c = c"
    have "replace_by_hash c cs = cs"
      using chain_find [OF chain] c(1) chain
      by (auto simp: replace_by_hash_def is_chain_def distinct_map intro!: map_idI dest: inj_onD)
    then have "?spec = (Ok (), cs)"
      using replace_by_hash_confirmed [OF chain c(1), of height ?b] c
      by (simp add: spec_confirm_def found [OF c(1,2)])
    with t show "?Q (Ok ()) t" by (intro result) (simp_all add: outcome_def)
  next
    fix t c path assume t: "address_files X a t = address_files X a s"
      and c: "c \<in> set cs" "extrinsic_hash c = ?h" "status c = Confirmed \<longrightarrow> block_hash c = Some ?b"
        "(path, c) \<in> set (address_files X a s)"
    let ?new = "confirmed_as height ?b c"
    have spec: "?spec = (Ok (), replace_by_hash ?new cs)"
      using c by (simp add: spec_confirm_def found [OF c(1,2)] replace_by_hash_confirmed [OF chain c(1)])
    have new: "chain_files (replace_by_hash ?new cs) (AList.update path ?new (address_files X a s))"
      by (rule files_replace_file [OF files c(4)]) simp_all
    show "wp (write_snapshot X a path ?new) ?Q t"
    proof (rule wp_write_snapshot, unfold t)
      fix u w assume "address_files X a u = address_files X a s"
      then show "?Q (Err (Io w)) u"
        by (rule result) (simp add: outcome_def len torn_refl)
    qed (use new in \<open>auto simp: holds_def outcome_def spec torn_target\<close>)
  qed
qed

lemma wp_remove_each:
  assumes "chain_files (xs @ zs) (address_files X a s)"
    and "\<forall>z\<in>set zs. \<exists>p. paths (extrinsic_hash z) = Some p \<and> (p, z) \<in> set (address_files X a s)"
    and "\<And>t. chain_files xs (address_files X a t) \<Longrightarrow> Q (Ok ()) t"
    and "\<And>t k w. chain_files (xs @ take k zs) (address_files X a t) \<Longrightarrow> Q (Err (Io w)) t"
  shows "wp (remove_each X a paths (rev (map extrinsic_hash zs))) Q s"
  using assms
proof (induction zs arbitrary: s rule: rev_induct)
  case Nil
  then show ?case by simp
next
  case (snoc z zs)
  let ?fs = "address_files X a s"
  from snoc.prems(2) obtain p where p: "paths (extrinsic_hash z) = Some p" "(p, z) \<in> set ?fs" by auto
  have rest: "chain_files (xs @ zs) (AList.delete p ?fs)"
    by (rule files_delete_last [OF _ p(2)]) (use snoc.prems(1) in simp)
  have dist: "distinct (map extrinsic_hash (xs @ zs @ [z]))"
    using snoc.prems(1) by (simp add: chain_files_def is_chain_def)
  have "wp (remove_snapshot_file X a p) (\<lambda>r t. case r of
      Ok _ \<Rightarrow> wp (remove_each X a paths (rev (map extrinsic_hash zs))) Q t
    | Err e \<Rightarrow> Q (Err e) t | Panic \<Rightarrow> Q Panic t | NoFuel \<Rightarrow> Q NoFuel t) s"
  proof (rule wp_remove_snapshot_file, unfold res.case)
    fix t assume t: "address_files X a t = AList.delete p ?fs"
    have "\<exists>q. paths (extrinsic_hash y) = Some q \<and> (q, y) \<in> set (AList.delete p ?fs)"
      if y: "y \<in> set zs" for y
    proof -
      obtain q where q: "paths (extrinsic_hash y) = Some q" "(q, y) \<in> set ?fs"
        using snoc.prems(2) y by auto
      have names: "snd q = extrinsic_hash y" "snd p = extrinsic_hash z"
        using snoc.prems(1) p(2) q(2) by (auto simp: chain_files_def named_files_def)
      then have "q \<noteq> p" using dist y by auto
      with q show ?thesis by (auto simp: AList.delete_eq)
    qed
    moreover have "Q (Err (Io w)) u"
      if "chain_files (xs @ take k zs) (address_files X a u)" for u k w
      by (rule snoc.prems(4) [of "min k (length zs)"]) (use that in \<open>cases "k \<le> length zs"; simp add: min_def\<close>)
    ultimately show "wp (remove_each X a paths (rev (map extrinsic_hash zs))) Q t"
      using rest t snoc.prems(3) by (intro snoc.IH) auto
  next
    fix t w assume "address_files X a t = ?fs"
    with snoc.prems(1) show "Q (Err (Io w)) t"
      by (intro snoc.prems(4) [of "length (zs @ [z])"]) simp
  qed
  with p show ?case by simp
qed

lemma paths_by_hash:
  assumes "chain_files cs fs" "(p, z) \<in> set fs" "set snaps = set fs" "distinct snaps"
  shows "map_from_list (map (\<lambda>(path, snap). (extrinsic_hash snap, path)) snaps) (extrinsic_hash z) = Some p"
proof -
  let ?f = "\<lambda>(path, snap). (extrinsic_hash snap, path)"
  have "inj_on (\<lambda>e. extrinsic_hash (snd e)) (set snaps)"
    using files_inj [OF assms(1)] unfolding assms(3) by (intro inj_onI) auto
  then have "distinct (map fst (rev (map ?f snaps)))"
    using assms(4) by (simp add: distinct_map comp_def case_prod_beta flip: rev_map)
  then show ?thesis
    using assms(2,3) unfolding map_from_list_def by (intro map_of_is_SomeI) force+
qed

lemma take_while_hash:
  assumes "is_chain (xs @ y # ys)"
  shows "takeWhile (\<lambda>c. extrinsic_hash c \<noteq> extrinsic_hash y) (xs @ y # ys) = xs"
proof -
  have "extrinsic_hash c \<noteq> extrinsic_hash y" if "c \<in> set xs" for c
    using assms imageI [OF that, of extrinsic_hash] by (auto simp: is_chain_def)
  then show ?thesis by (simp add: takeWhile_append2)
qed

lemma cascade_drop_refines:
  assumes "holds X a s cs"
  shows "wp (cascade_drop X a h) (\<lambda>r t. \<exists>cs'. holds X a t cs' \<and>
    outcome (spec_rollback a h cs) cs r cs') s"
proof -
  let ?spec = "spec_rollback a h cs"
  let ?Q = "\<lambda>r t. \<exists>cs'. holds X a t cs' \<and> outcome ?spec cs r cs'"
  let ?snaps = "snapshot_files X a s"
  have files: "chain_files cs (address_files X a s)" using assms by (simp add: holds_def)
  have len: "length (snd ?spec) \<le> length cs"
    by (simp add: spec_rollback_def length_takeWhile_le)
  have present: "list_ex (\<lambda>(path, snap). extrinsic_hash snap = h) ?snaps \<longleftrightarrow> h \<in> extrinsic_hash ` set cs"
    unfolding files_hashes [OF files] by (auto simp: list_ex_iff image_image) force+
  show ?thesis
    unfolding cascade_drop_def wp_sbind
  proof (rule wp_load, unfold res.case present)
    fix fs
    let ?t = "s\<lparr>faults := fs\<rparr>"
    let ?paths = "map_from_list (map (\<lambda>(path, snap). (extrinsic_hash snap, path)) ?snaps)"
    show "wp (if h \<notin> extrinsic_hash ` set cs then sfail (SnapshotNotFound a h)
        else let paths = ?paths; doomed = walk_children (map snd ?snaps) [h]
          in sbind (remove_each X a paths (rev doomed)) (\<lambda>_. io ''sync'')) ?Q ?t"
    proof (cases "h \<in> extrinsic_hash ` set cs")
      case False
      with assms show ?thesis by (auto simp: outcome_def spec_rollback_def)
    next
      case True
      then obtain y where y: "y \<in> set cs" "h = extrinsic_hash y" by auto
      then obtain xs ys where cs: "cs = xs @ y # ys" by (meson split_list)
      have chain: "is_chain (xs @ y # ys)" using files cs by (simp add: chain_files_def)
      have spec: "?spec = (Ok (), xs)"
        using take_while_hash [OF chain] True y(2) cs by (simp add: spec_rollback_def)
      have "mset (map snd ?snaps) = mset (xs @ y # ys)"
        using files cs by (simp add: chain_files_def snapshot_files_def)
      then have doomed: "walk_children (map snd ?snaps) [h] = map extrinsic_hash (y # ys)"
        unfolding y(2) using chain by (rule walk_children_chain)
      have "distinct (address_files X a s)"
        using files by (auto simp: chain_files_def named_files_def distinct_map)
      then have "distinct ?snaps" by (simp add: snapshot_files_def)
      then have paths: "\<exists>p. ?paths (extrinsic_hash z) = Some p \<and> (p, z) \<in> set (address_files X a ?t)"
        if "z \<in> set cs" for z
      proof -
        from files that obtain p where p: "(p, z) \<in> set (address_files X a s)" by (rule files_file)
        then have "?paths (extrinsic_hash z) = Some p"
          by (intro paths_by_hash [OF files]) (simp_all add: \<open>distinct ?snaps\<close>)
        with p show ?thesis by auto
      qed
      have partial: "?Q (Err (Io w)) u" if "chain_files (xs @ take k (y # ys)) (address_files X a u)" for u k w
      proof -
        have "torn xs cs (xs @ take k (y # ys))"
          unfolding torn_def cs by (intro disjI2 exI [of _ "length xs + k"]) simp
        with that show ?thesis
          by (intro exI [of _ "xs @ take k (y # ys)"]) (simp add: holds_def outcome_def spec)
      qed
      have "wp (remove_each X a ?paths (rev (map extrinsic_hash (y # ys)))) (\<lambda>r t. case r of
          Ok _ \<Rightarrow> wp (io ''sync'') ?Q t | Err e \<Rightarrow> ?Q (Err e) t | Panic \<Rightarrow> ?Q Panic t
        | NoFuel \<Rightarrow> ?Q NoFuel t) ?t"
      proof (rule wp_remove_each [where xs = xs], unfold res.case)
        show "chain_files (xs @ y # ys) (address_files X a ?t)" using files cs by simp
        show "\<forall>z\<in>set (y # ys). \<exists>p. ?paths (extrinsic_hash z) = Some p \<and> (p, z) \<in> set (address_files X a ?t)"
          using paths cs by simp
        fix u assume u: "chain_files xs (address_files X a u)"
        then have "?Q (Ok ()) (u\<lparr>faults := fs\<rparr>)" "?Q (Err (Io w)) (u\<lparr>faults := fs\<rparr>)" for fs w
          by (auto simp: holds_def outcome_def spec torn_target)
        then show "wp (io ''sync'') ?Q u" by (rule wp_io)
      qed (rule partial)
      with True show ?thesis by (simp add: doomed Let_def)
    qed
  next
    fix fs
    show "?Q (Err (Io ''read dir'')) (s\<lparr>faults := fs\<rparr>)"
      using assms len by (auto simp: outcome_def intro!: torn_refl)
  qed
qed


section \<open>Without faults the outcome is the specified one\<close>

definition marker_ok :: "ps_host \<Rightarrow> string \<Rightarrow> fs_store \<Rightarrow> bool" where
  "marker_ok X a s \<longleftrightarrow>
     (case marker (dir_at s (hashed_name X a)) of None \<Rightarrow> True | Some m \<Rightarrow> trim m = a)"

definition expected :: "(ps_error, unit) res \<Rightarrow> bool" where
  "expected r \<longleftrightarrow> (\<forall>e. r = Err e \<longrightarrow> \<not> env_error e)"

lemma expected_simps [simp]: "expected (Ok u)" "expected (Err e) = (\<not> env_error e)"
  by (simp_all add: expected_def)

lemma faults_update_dir [simp]: "faults (update_dir d f s) = faults s"
  by (simp add: update_dir_def)

lemma write_snapshot_expected:
  assumes "faults s = []" shows "wp (write_snapshot X a path snap) (\<lambda>r t. expected r) s"
  using assms by (simp add: write_snapshot_def create_private_dir_def write_atomic_def Let_def)

lemma write_snapshot_undo_expected:
  assumes "faults s = []"
  shows "wp (undo_failed_append X a path (write_snapshot X a path snap)) (\<lambda>r t. expected r) s"
  using assms
  by (intro wp_undo_failed_append)
    (simp add: write_snapshot_def create_private_dir_def write_atomic_def Let_def)

lemma snapshot_files_marker [simp]:
  "snapshot_files X a (update_dir d id s) = snapshot_files X a s"
  "snapshot_files X a (update_dir d (marker_update f) s) = snapshot_files X a s"
  by (simp_all add: snapshot_files_def)

lemma append_pending_expected:
  assumes "faults s = []" "marker_ok X a s" "holds X a s cs"
  shows "wp (append_pending X nanos a ext dep st) (\<lambda>r t. expected r) s"
  using assms(1,2) holds_head [OF assms(3)]
  by (auto simp: append_pending_def ensure_address_marker_def create_private_dir_def
      find_snapshot_path_def head_snapshot_def journal_def
      write_atomic_def Let_def wp_if marker_ok_def split: option.splits intro!: write_snapshot_undo_expected)

lemma confirm_expected:
  assumes "faults s = []" "holds X a s cs"
  shows "wp (confirm X a ext height block) (\<lambda>r t. expected r) s"
proof -
  let ?f = "find (\<lambda>(path, snap). extrinsic_hash snap = hex_encode X ext) (snapshot_files X a s)"
  have files: "chain_files cs (address_files X a s)" using assms by (simp add: holds_def)
  have "\<exists>c. map_of (address_files X a s) path = Some c" if "?f = Some (path, snap)" for path snap
    using find_hash_Some(1) [OF files that] by (rule weak_map_of_SomeI)
  with assms(1) show ?thesis
    by (cases ?f) (auto simp: confirm_def find_snapshot_path_def Let_def wp_if
        intro!: write_snapshot_expected split: option.split)
qed

lemma remove_each_expected:
  "faults s = [] \<Longrightarrow> wp (remove_each X a paths hs) (\<lambda>r t. faults t = [] \<and> r = Ok ()) s"
  by (induction hs arbitrary: s) (auto simp: remove_snapshot_file_def split: option.split)

lemma cascade_drop_expected:
  assumes "faults s = []"
  shows "wp (cascade_drop X a h) (\<lambda>r t. expected r) s"
proof -
  have "wp (remove_each X a paths hs) (\<lambda>r t. case r of Ok _ \<Rightarrow> wp (io ''sync'') (\<lambda>r t. expected r) t
    | Err e \<Rightarrow> expected (Err e) | Panic \<Rightarrow> expected Panic | NoFuel \<Rightarrow> expected NoFuel) s" for paths hs
    by (rule wp_mono [OF remove_each_expected [OF assms]]) auto
  with assms show ?thesis by (simp add: cascade_drop_def Let_def wp_if)
qed

section \<open>The contract\<close>

text \<open>
  What a client of the journal relies on: a state that stores a chain still stores one after
  any operation, and the pair of results is the specified one or a torn one with an error of
  the environment.
\<close>

locale journal_contract =
  fixes X :: ps_host and a :: string
    and stores :: "'s \<Rightarrow> snapshot list \<Rightarrow> bool"
    and run :: "journal_op \<Rightarrow> ('s, ps_error, unit) sm"
    and healthy :: "'s \<Rightarrow> bool"
  assumes stores_chain: "stores s cs \<Longrightarrow> is_chain cs"
    and refines: "stores s cs \<Longrightarrow> wp (run op) (\<lambda>r t. \<exists>cs'. stores t cs' \<and> outcome (spec_op X a op cs) cs r cs') s"
    and exact: "stores s cs \<Longrightarrow> healthy s \<Longrightarrow> wp (run op) (\<lambda>r t. expected r) s"
begin

lemma step:
  assumes "stores s cs" "run op s = (r, t)"
  obtains cs' where "stores t cs'" "outcome (spec_op X a op cs) cs r cs'"
  using wpD [OF refines [OF assms(1)] assms(2)] that by blast

lemma exact_step:
  assumes "stores s cs" "healthy s" "run op s = (r, t)"
  shows "r = fst (spec_op X a op cs) \<and> stores t (snd (spec_op X a op cs))"
proof -
  obtain cs' where cs': "stores t cs'" "outcome (spec_op X a op cs) cs r cs'"
    using assms(1,3) by (rule step)
  moreover have "expected r" using wpD [OF exact [OF assms(1,2)] assms(3)] .
  ultimately have "(r, cs') = spec_op X a op cs" by (auto simp: outcome_def)
  with cs'(1) show ?thesis by (metis fst_conv snd_conv)
qed

lemma ok_step:
  assumes "stores s cs" "run op s = (Ok u, t)"
  shows "spec_op X a op cs = (Ok u, snd (spec_op X a op cs)) \<and> stores t (snd (spec_op X a op cs))"
proof -
  obtain cs' where cs': "stores t cs'" "outcome (spec_op X a op cs) cs (Ok u) cs'"
    using assms by (rule step)
  then have "(Ok u, cs') = spec_op X a op cs" by (auto simp: outcome_def)
  with cs'(1) show ?thesis by (metis snd_conv)
qed

text \<open>Two calls that were prepared on one baseline do not both get recorded.\<close>

lemma second_append_fails:
  assumes "stores s cs"
    and "run (AppendPending nanos ext dep st) s = (Ok u, t)"
    and "run (AppendPending nanos' ext' dep st') t = (r, t')"
  shows "\<exists>e. r = Err e"
proof -
  let ?h = "hex_encode X ext" and ?dep = "map_option (hex_encode X) dep"
  note first = ok_step [OF assms(1,2)]
  then have tip: "chain_tip cs = ?dep" "?h \<notin> extrinsic_hash ` set cs"
    and snd: "\<exists>new. extrinsic_hash new = ?h \<and> snd (spec_op X a (AppendPending nanos ext dep st) cs) = cs @ [new]"
    by (auto simp: spec_append_def split: if_splits)
  then obtain new where new: "extrinsic_hash new = ?h" "stores t (cs @ [new])"
    using first by auto
  obtain cs' where out: "outcome (spec_op X a (AppendPending nanos' ext' dep st') (cs @ [new])) (cs @ [new]) r cs'"
    using new(2) assms(3) by (rule step)
  have "Some ?h \<noteq> ?dep"
  proof
    assume "Some ?h = ?dep"
    then have "chain_tip cs = Some ?h" using tip(1) by simp
    then have "cs \<noteq> []" "extrinsic_hash (last cs) = ?h"
      by (auto simp: chain_tip_def split: if_splits)
    with tip(2) show False by (metis imageI last_in_set)
  qed
  with out new(1) show ?thesis
    by (auto simp: outcome_def spec_append_def chain_tip_def split: if_splits)
qed

lemma runs_store_chains:
  "stores s cs \<Longrightarrow> \<exists>cs'. stores (fold (\<lambda>op t. snd (run op t)) ops s) cs'"
proof (induction ops arbitrary: s cs)
  case Nil
  then show ?case by auto
next
  case (Cons op ops)
  obtain r t where rt: "run op s = (r, t)" by fastforce
  obtain cs' where "stores t cs'" using Cons.prems rt by (rule step)
  with Cons.IH rt show ?case by simp
qed

end

lemma run_op_refines:
  "holds X a s cs \<Longrightarrow>
   wp (run_op X a op) (\<lambda>r t. \<exists>cs'. holds X a t cs' \<and> outcome (spec_op X a op cs) cs r cs') s"
  by (cases op) (simp_all add: append_pending_refines confirm_refines cascade_drop_refines
      mark_failed_def rollback_from_def)

lemma run_op_expected:
  "holds X a s cs \<Longrightarrow> faults s = [] \<and> marker_ok X a s \<Longrightarrow> wp (run_op X a op) (\<lambda>r t. expected r) s"
  by (cases op) (simp_all add: append_pending_expected confirm_expected cascade_drop_expected
      mark_failed_def rollback_from_def)

interpretation fs: journal_contract X a "holds X a" "run_op X a" "\<lambda>s. faults s = [] \<and> marker_ok X a s"
  for X a
proof unfold_locales
  show "holds X a s cs \<Longrightarrow> is_chain cs" for s cs by (simp add: holds_def chain_files_def)
qed (auto intro: run_op_refines run_op_expected)

section \<open>Journals of different addresses\<close>

definition same_dir :: "string \<Rightarrow> fs_store \<Rightarrow> fs_store \<Rightarrow> bool" where
  "same_dir d s t \<longleftrightarrow> dir_at t d = dir_at s d"

lemma same_dir_order: "transp (same_dir d)" "reflp (same_dir d)"
  by (auto simp: same_dir_def intro: transpI reflpI)

lemmas same_dir_basics = preserves_sbind [OF same_dir_order(1)] preserves_pure [OF same_dir_order(2)]

lemma preserves_if: "preserves R m \<Longrightarrow> preserves R n \<Longrightarrow> preserves R (if b then m else n)"
  by simp

lemma preserves_option:
  "preserves R m \<Longrightarrow> (\<And>x. preserves R (f x)) \<Longrightarrow> preserves R (case v of None \<Rightarrow> m | Some x \<Rightarrow> f x)"
  by (cases v) simp_all

lemma same_dir_io: "preserves (same_dir d) (io w)"
  by (simp add: preserves_def io_def same_dir_def split: list.split)

lemma same_dir_update: "d' \<noteq> d \<Longrightarrow> preserves (same_dir d) (smodify (update_dir d' f))"
  by (rule preserves_smodify) (simp add: same_dir_def)

lemmas same_dir_intros = same_dir_basics same_dir_io same_dir_update preserves_if preserves_option

lemma same_dir_write:
  "hashed_name X b \<noteq> d \<Longrightarrow> preserves (same_dir d) (write_snapshot X b path snap)"
  "hashed_name X b \<noteq> d \<Longrightarrow> preserves (same_dir d) (ensure_address_marker X b)"
  "hashed_name X b \<noteq> d \<Longrightarrow> preserves (same_dir d) (remove_snapshot_file X b path)"
  unfolding write_snapshot_def ensure_address_marker_def remove_snapshot_file_def
    create_private_dir_def write_atomic_def Let_def
  by (intro same_dir_intros; assumption)+

lemma same_dir_undo:
  assumes "hashed_name X b \<noteq> d" "preserves (same_dir d) m"
  shows "preserves (same_dir d) (undo_failed_append X b path m)"
  unfolding preserves_def undo_failed_append_def
proof
  fix s
  obtain r t where m: "m s = (r, t)" by fastforce
  have 1: "same_dir d s t" using assms(2) m by (rule preservesD)
  have "same_dir d t (snd (remove_snapshot_file X b path t))"
    using same_dir_write(3) [OF assms(1)] by (simp add: preserves_def)
  with 1 have "same_dir d s (snd (remove_snapshot_file X b path t))"
    using same_dir_order(1) by (rule transpD [rotated])
  with m 1 show "same_dir d s (snd (case m s of (Err e, s') \<Rightarrow>
      (Err e, snd (remove_snapshot_file X b path s')) | (Ok a, s') \<Rightarrow> (Ok a, s') | (Panic, s') \<Rightarrow> (Panic, s') | (NoFuel, s') \<Rightarrow> (NoFuel, s')))"
    by (cases r) simp_all
qed

lemma same_dir_remove_each:
  "hashed_name X b \<noteq> d \<Longrightarrow> preserves (same_dir d) (remove_each X b paths hs)"
  by (induction hs) (auto intro!: same_dir_intros same_dir_write)

lemma run_op_isolated:
  assumes "hashed_name X b \<noteq> d"
  shows "preserves (same_dir d) (run_op X b op)"
  using assms
  by (cases op)
    (auto simp: append_pending_def confirm_def mark_failed_def rollback_from_def cascade_drop_def
      find_snapshot_path_def head_snapshot_def load_snapshots_def Let_def
      intro!: same_dir_intros same_dir_write same_dir_undo same_dir_remove_each)

definition run_all :: "ps_host \<Rightarrow> (string \<times> journal_op) list \<Rightarrow> fs_store \<Rightarrow> fs_store" where
  "run_all X ops s = fold (\<lambda>(b, op) t. snd (run_op X b op t)) ops s"

lemma run_all_holds:
  "holds X a s cs \<Longrightarrow> \<exists>cs'. holds X a (run_all X ops s) cs'"
  unfolding run_all_def
proof (induction ops arbitrary: s cs)
  case Nil
  then show ?case by auto
next
  case (Cons bop ops)
  obtain b op where bop: "bop = (b, op)" by fastforce
  obtain r t where rt: "run_op X b op s = (r, t)" by fastforce
  have "\<exists>cs'. holds X a t cs'"
  proof (cases "hashed_name X b = hashed_name X a")
    case True
    then have "holds X b = holds X a" by (intro ext) (simp add: holds_def)
    with Cons.prems fs.step [of X b s cs op r t] rt show ?thesis by metis
  next
    case False
    then have "same_dir (hashed_name X a) s t"
      using preservesD [OF run_op_isolated] rt by metis
    with Cons.prems show ?thesis by (auto simp: same_dir_def holds_def)
  qed
  with Cons.IH bop rt show ?case by auto
qed

definition empty_store :: "bool list \<Rightarrow> fs_store" where
  "empty_store fs = \<lparr>states = [], keys = [], faults = fs\<rparr>"

lemma empty_store_holds: "holds X a (empty_store fs) []"
  by (simp add: empty_store_def holds_def dir_at_def empty_dir_def chain_files_def named_files_def)


section \<open>Recovery of a branched journal\<close>

text \<open>The directory of a journal that may branch, one file per hash.\<close>

definition rooted_files :: "(snap_path \<times> snapshot) list \<Rightarrow> bool" where
  "rooted_files fs \<longleftrightarrow> named_files fs \<and> rooted (map snd fs)"

definition without :: "string set \<Rightarrow> (snap_path \<times> snapshot) list \<Rightarrow> (snap_path \<times> snapshot) list" where
  "without D fs = filter (\<lambda>(path, snap). extrinsic_hash snap \<notin> D) fs"

lemma without_without [simp]: "without D (without E fs) = without (E \<union> D) fs"
  unfolding without_def by (induction fs) auto

lemma without_empty [simp]: "without {} fs = fs"
  by (simp add: without_def case_prod_beta)

lemma delete_named:
  assumes "named_files fs" "distinct (map (extrinsic_hash \<circ> snd) fs)" "(path, c) \<in> set fs"
  shows "AList.delete path fs = without {extrinsic_hash c} fs"
proof -
  have "path \<noteq> fst e \<longleftrightarrow> extrinsic_hash (snd e) \<noteq> extrinsic_hash c" if "e \<in> set fs" for e
  proof
    assume "path \<noteq> fst e"
    show "extrinsic_hash (snd e) \<noteq> extrinsic_hash c"
    proof
      assume "extrinsic_hash (snd e) = extrinsic_hash c"
      then have "(extrinsic_hash \<circ> snd) e = (extrinsic_hash \<circ> snd) (path, c)" by simp
      from inj_onD [OF _ this that assms(3)] assms(2) have "e = (path, c)"
        unfolding distinct_map by blast
      with \<open>path \<noteq> fst e\<close> show False by simp
    qed
  next
    assume ne: "extrinsic_hash (snd e) \<noteq> extrinsic_hash c"
    have "snd path = extrinsic_hash c" "snd (fst e) = extrinsic_hash (snd e)"
      using assms(1,3) that by (auto simp: named_files_def)
    with ne show "path \<noteq> fst e" by auto
  qed
  then show ?thesis
    unfolding AList.delete_eq without_def case_prod_beta by (intro filter_cong refl) blast
qed

lemma distinct_without:
  "distinct (map (extrinsic_hash \<circ> snd) fs) \<Longrightarrow> distinct (map (extrinsic_hash \<circ> snd) (without D fs))"
  "named_files fs \<Longrightarrow> named_files (without D fs)"
  by (auto simp: without_def named_files_def distinct_map intro: inj_on_subset)

lemma wp_remove_each_files:
  assumes "named_files (address_files X a s)"
    and "distinct (map (extrinsic_hash \<circ> snd) (address_files X a s))"
    and "\<And>h. h \<in> set hs \<Longrightarrow>
      (case paths h of None \<Rightarrow> h \<notin> (extrinsic_hash \<circ> snd) ` set (address_files X a s)
       | Some p \<Rightarrow> \<exists>c. (p, c) \<in> set (address_files X a s) \<and> extrinsic_hash c = h)"
    and "distinct hs"
  shows "wp (remove_each X a paths hs) (\<lambda>r t. \<exists>j\<le>length hs.
    address_files X a t = without (set (take j hs)) (address_files X a s)) s"
  using assms
proof (induction hs arbitrary: s)
  case Nil
  then show ?case by simp
next
  case (Cons h hs)
  let ?fs = "address_files X a s"
  show ?case
  proof (cases "paths h")
    case None
    then have "without {h} ?fs = ?fs"
      using Cons.prems(3) [of h] by (force simp: without_def filter_id_conv)
    then have same: "without (set (take (Suc j) (h # hs))) ?fs = without (set (take j hs)) ?fs" for j
      using without_without [of "set (take j hs)" "{h}" ?fs] by simp
    have "wp (remove_each X a paths hs) (\<lambda>r t. \<exists>j\<le>length hs.
        address_files X a t = without (set (take j hs)) ?fs) s"
      by (rule Cons.IH) (use Cons.prems in auto)
    then have "wp (remove_each X a paths hs) (\<lambda>r t. \<exists>j\<le>length (h # hs).
        address_files X a t = without (set (take j (h # hs))) ?fs) s"
      by (rule wp_mono) (metis Suc_le_mono length_Cons same)
    with None show ?thesis by simp
  next
    case (Some p)
    then obtain c where c: "(p, c) \<in> set ?fs" "extrinsic_hash c = h"
      using Cons.prems(3) [of h] by auto
    have del: "AList.delete p ?fs = without {h} ?fs"
      using delete_named [OF Cons.prems(1,2) c(1)] c(2) by simp
    have "wp (remove_snapshot_file X a p) (\<lambda>r t. case r of
        Ok _ \<Rightarrow> wp (remove_each X a paths hs) (\<lambda>r t. \<exists>j\<le>length (h # hs).
          address_files X a t = without (set (take j (h # hs))) ?fs) t
      | _ \<Rightarrow> \<exists>j\<le>length (h # hs). address_files X a t = without (set (take j (h # hs))) ?fs) s"
    proof (rule wp_remove_snapshot_file, unfold res.case)
      fix t assume t: "address_files X a t = AList.delete p ?fs"
      have "wp (remove_each X a paths hs) (\<lambda>r u. \<exists>j\<le>length hs.
          address_files X a u = without (set (take j hs)) (address_files X a t)) t"
      proof (rule Cons.IH, unfold t del)
        fix g assume g: "g \<in> set hs"
        then have "g \<noteq> h" using Cons.prems(4) by auto
        with Cons.prems(3) [of g] g
        show "case paths g of None \<Rightarrow> g \<notin> (extrinsic_hash \<circ> snd) ` set (without {h} ?fs)
          | Some p \<Rightarrow> \<exists>c. (p, c) \<in> set (without {h} ?fs) \<and> extrinsic_hash c = g"
          by (auto simp: without_def split: option.splits)
      next
        show "named_files (without {h} ?fs)" using Cons.prems(1) by (rule distinct_without)
        show "distinct (map (extrinsic_hash \<circ> snd) (without {h} ?fs))"
          using Cons.prems(2) by (rule distinct_without)
        show "distinct hs" using Cons.prems(4) by simp
      qed
      then show "wp (remove_each X a paths hs) (\<lambda>r t. \<exists>j\<le>length (h # hs).
          address_files X a t = without (set (take j (h # hs))) ?fs) t"
      proof (rule wp_mono)
        fix r u assume "\<exists>j\<le>length hs. address_files X a u = without (set (take j hs)) (address_files X a t)"
        then obtain j where "j \<le> length hs" "address_files X a u = without (set (take j hs)) (without {h} ?fs)"
          unfolding t del by blast
        then show "\<exists>j\<le>length (h # hs). address_files X a u = without (set (take j (h # hs))) ?fs"
          by (intro exI [of _ "Suc j"]) simp
      qed
    qed (auto intro: exI [of _ 0])
    then show ?thesis
      by (simp only: remove_each.simps Some option.case wp_sbind)
  qed
qed

lemma rooted_mset: "mset ss = mset ts \<Longrightarrow> rooted ss = rooted ts"
proof -
  assume eq: "mset ss = mset ts"
  then have "mset (map extrinsic_hash ss) = mset (map extrinsic_hash ts)" by simp
  from mset_eq_imp_distinct_iff [OF this] have "distinct (map extrinsic_hash ss) = distinct (map extrinsic_hash ts)" .
  moreover have "set ss = set ts" using eq by (metis set_mset_mset)
  ultimately show ?thesis by (simp add: rooted_def)
qed

lemma map_snd_without: "map snd (without D fs) = filter (\<lambda>s. extrinsic_hash s \<notin> D) (map snd fs)"
  by (induction fs) (auto simp: without_def)

lemma rooted_files_distinct:
  "rooted_files fs \<Longrightarrow> distinct (map (extrinsic_hash \<circ> snd) fs)"
  by (simp add: rooted_files_def rooted_def)

lemma paths_by_hash_rooted:
  assumes "rooted_files fs" "set snaps = set fs" "distinct snaps"
  shows "case map_from_list (map (\<lambda>(path, snap). (extrinsic_hash snap, path)) snaps) h of
      None \<Rightarrow> h \<notin> (extrinsic_hash \<circ> snd) ` set fs
    | Some p \<Rightarrow> \<exists>c. (p, c) \<in> set fs \<and> extrinsic_hash c = h"
proof -
  let ?kvs = "map (\<lambda>(path, snap). (extrinsic_hash snap, path)) snaps"
  show ?thesis
  proof (cases "map_from_list ?kvs h")
    case None
    then have "h \<notin> fst ` set ?kvs" by (simp add: map_from_list_def map_of_eq_None_iff)
    with None assms(2) show ?thesis by (force simp: image_iff)
  next
    case (Some p)
    then have "(h, p) \<in> set ?kvs" unfolding map_from_list_def by (auto dest: map_of_SomeD)
    with Some assms(2) show ?thesis by auto
  qed
qed

lemma cascade_drop_rooted:
  assumes "rooted_files (address_files X a s)"
  shows "wp (cascade_drop X a h) (\<lambda>r t. rooted_files (address_files X a t)) s"
proof -
  let ?fs = "address_files X a s" and ?snaps = "snapshot_files X a s"
  let ?W = "walk_children (map snd ?snaps) [h]"
  let ?paths = "map_from_list (map (\<lambda>(path, snap). (extrinsic_hash snap, path)) ?snaps)"
  have files: "rooted_files (address_files X a t)" if "address_files X a t = ?fs" for t
    using that assms by simp
  have "distinct ?fs" using assms by (auto simp: rooted_files_def named_files_def distinct_map)
  then have snaps: "distinct ?snaps" "set ?snaps = set ?fs" by (simp_all add: snapshot_files_def)
  have perm: "mset (map snd ?fs) = mset (map snd ?snaps)" by (simp add: snapshot_files_def)
  show ?thesis
    unfolding cascade_drop_def wp_sbind
  proof (rule wp_load, unfold res.case)
    fix fs
    let ?t = "s\<lparr>faults := fs\<rparr>"
    show "wp (if \<not> list_ex (\<lambda>(path, snap). extrinsic_hash snap = h) ?snaps
        then sfail (SnapshotNotFound a h)
        else let paths = ?paths; doomed = ?W
          in sbind (remove_each X a paths (rev doomed)) (\<lambda>_. io ''sync''))
        (\<lambda>r t. rooted_files (address_files X a t)) ?t"
    proof (cases "list_ex (\<lambda>(path, snap). extrinsic_hash snap = h) ?snaps")
      case False
      with assms show ?thesis by simp
    next
      case True
      have "rooted (map snd ?snaps)"
        using assms rooted_mset [OF perm] by (simp add: rooted_files_def)
      moreover have "h \<in> extrinsic_hash ` set (map snd ?snaps)"
        using True by (force simp: list_ex_iff)
      ultimately have "rooted (filter (\<lambda>s. extrinsic_hash s \<notin> set (drop k ?W)) (map snd ?snaps))" for k
        by (rule rooted_partial_cascade)
      moreover have "mset (map snd (without D ?fs)) =
          mset (filter (\<lambda>s. extrinsic_hash s \<notin> D) (map snd ?snaps))" for D
        by (simp only: map_snd_without mset_filter perm)
      ultimately have cut: "rooted_files (without (set (drop k ?W)) ?fs)" for k
        using assms rooted_mset distinct_without(2) unfolding rooted_files_def by metis
      have "wp (remove_each X a ?paths (rev ?W)) (\<lambda>r t. \<exists>j\<le>length (rev ?W).
          address_files X a t = without (set (take j (rev ?W))) (address_files X a ?t)) ?t"
        by (rule wp_remove_each_files, unfold dir_at_simps)
          (use assms rooted_files_distinct [OF assms] in \<open>simp_all add: rooted_files_def
            paths_by_hash_rooted [OF assms snaps(2,1)]\<close>)
      then have "wp (remove_each X a ?paths (rev ?W)) (\<lambda>r t. case r of
          Ok _ \<Rightarrow> wp (io ''sync'') (\<lambda>r t. rooted_files (address_files X a t)) t
        | Err e \<Rightarrow> rooted_files (address_files X a t) | Panic \<Rightarrow> rooted_files (address_files X a t)
        | NoFuel \<Rightarrow> rooted_files (address_files X a t)) ?t"
      proof (rule wp_mono)
        fix r t assume "\<exists>j\<le>length (rev ?W).
          address_files X a t = without (set (take j (rev ?W))) (address_files X a ?t)"
        then obtain j where "address_files X a t = without (set (take j (rev ?W))) ?fs" by auto
        then have "rooted_files (address_files X a t)" by (simp add: take_rev cut)
        then show "case r of
            Ok _ \<Rightarrow> wp (io ''sync'') (\<lambda>r t. rooted_files (address_files X a t)) t
          | Err e \<Rightarrow> rooted_files (address_files X a t) | Panic \<Rightarrow> rooted_files (address_files X a t)
          | NoFuel \<Rightarrow> rooted_files (address_files X a t)"
          by (auto split: res.split intro!: wp_io)
      qed
      with True show ?thesis by (simp add: Let_def)
    qed
  qed (use assms in simp)
qed


section \<open>Properties\<close>

text \<open>A host for the witnesses: names are not hashed, and a hash is spelled by its characters.\<close>

definition demo_host :: ps_host where
  "demo_host = \<lparr>hashed_name = id, hex_encode = map (\<lambda>b. char_of (unat b)),
     hex_decode = \<lambda>h. Some (map (\<lambda>c. of_nat (of_char c)) h)\<rparr>"

lemma demo_hex: "hex_encode demo_host [1] = [CHR 0x01]" "hex_encode demo_host [2] = [CHR 0x02]"
  by code_simp+

lemma demo_append:
  defines "s \<equiv> empty_store []"
  shows "fst (run_op demo_host ''a'' (AppendPending 7 [1] None [9]) s) = Ok ()"
    and "holds demo_host ''a'' (snd (run_op demo_host ''a'' (AppendPending 7 [1] None [9]) s))
     [\<lparr>status = Pending, extrinsic_hash = [CHR 0x01], block_hash = None, block_height = None,
       depends_on = None, data = [9]\<rparr>]"
proof -
  have "faults s = [] \<and> marker_ok demo_host ''a'' s"
    by (simp add: s_def empty_store_def marker_ok_def dir_at_def empty_dir_def)
  from fs.exact_step [OF empty_store_holds this [unfolded s_def] prod.collapse [symmetric],
      of "AppendPending 7 [1] None [9]"]
  show "fst (run_op demo_host ''a'' (AppendPending 7 [1] None [9]) s) = Ok ()"
    and "holds demo_host ''a'' (snd (run_op demo_host ''a'' (AppendPending 7 [1] None [9]) s))
     [\<lparr>status = Pending, extrinsic_hash = [CHR 0x01], block_hash = None, block_height = None,
       depends_on = None, data = [9]\<rparr>]"
    by (simp_all add: spec_append_def chain_tip_def demo_hex s_def)
qed

text \<open>Two snapshots of the address \<open>a\<close>, the second built on the first.\<close>

definition demo_first :: snapshot where
  "demo_first = \<lparr>status = Confirmed, extrinsic_hash = [CHR 0x01], block_hash = Some ''b'',
     block_height = None, depends_on = None, data = [9]\<rparr>"

definition demo_second :: snapshot where
  "demo_second = \<lparr>status = Pending, extrinsic_hash = [CHR 0x02], block_hash = None,
     block_height = None, depends_on = Some [CHR 0x01], data = [5]\<rparr>"

definition demo_store :: "bool list \<Rightarrow> fs_store" where
  "demo_store fs = \<lparr>states = [(''a'', \<lparr>marker = Some ''a'',
     files = [((7, [CHR 0x01]), demo_first), ((8, [CHR 0x02]), demo_second)]\<rparr>)], keys = [], faults = fs\<rparr>"

lemma demo_store_files:
  "address_files demo_host ''a'' (demo_store fs) =
     [((7, [CHR 0x01]), demo_first), ((8, [CHR 0x02]), demo_second)]"
  by (simp add: demo_store_def demo_host_def dir_at_def)

lemma demo_store_holds: "holds demo_host ''a'' (demo_store fs) [demo_first, demo_second]"
  unfolding holds_def demo_store_files
  by (simp add: chain_files_def named_files_def is_chain_def demo_first_def demo_second_def)

lemma demo_marker_ok: "marker_ok demo_host ''a'' (demo_store fs)"
proof -
  have "trim ''a'' = ''a''" by code_simp
  then show ?thesis by (simp add: marker_ok_def demo_store_def demo_host_def dir_at_def)
qed

text \<open>
  C1: whatever calls are made at whatever addresses, in whatever order, and whichever file
  operations fail, the journal of every address is one linear chain, so that no later read is
  refused as branched, cyclic or orphaned.
\<close>

theorem journal_always_linear: "linear (journal X a (run_all X ops (empty_store fs)))"
  using run_all_holds [OF empty_store_holds, of X a ops fs] holds_linear by blast

text \<open>
  C2: each operation refines the abstract machine under every fault: the directory stores a
  chain again, and the result and the chain are the specified ones, or the operation reports an
  error of the environment and the chain is the specified one or a prefix of the old one.
\<close>

theorem journal_op_refines:
  assumes "holds X a s cs" and "run_op X a op s = (r, t)"
  shows "\<exists>cs'. holds X a t cs' \<and> outcome (spec_op X a op cs) cs r cs'"
  using fs.step [OF assms] by blast

theorem journal_op_refines_witness:
  "\<exists>cs'. holds demo_host ''a'' (snd (run_op demo_host ''a'' (AppendPending 7 [1] None [9]) (empty_store [False, False, True]))) cs' \<and>
     outcome (spec_op demo_host ''a'' (AppendPending 7 [1] None [9]) []) []
       (fst (run_op demo_host ''a'' (AppendPending 7 [1] None [9]) (empty_store [False, False, True]))) cs'"
  by (rule journal_op_refines [OF empty_store_holds]) simp

text \<open>
  C3: without faults, and with an address marker that names the address, every operation
  returns the specified result and leaves the specified chain.
\<close>

theorem journal_op_exact:
  assumes "holds X a s cs" and "faults s = []" "marker_ok X a s"
  shows "fst (run_op X a op s) = fst (spec_op X a op cs) \<and>
    holds X a (snd (run_op X a op s)) (snd (spec_op X a op cs))"
  using fs.exact_step [of X a s cs op "fst (run_op X a op s)" "snd (run_op X a op s)"] assms by simp_all

theorem journal_op_exact_witness:
  "fst (run_op demo_host ''a'' (AppendPending 7 [1] None [9]) (empty_store [])) = Ok () \<and>
   holds demo_host ''a'' (snd (run_op demo_host ''a'' (AppendPending 7 [1] None [9]) (empty_store [])))
     [\<lparr>status = Pending, extrinsic_hash = [CHR 0x01], block_hash = None, block_height = None,
       depends_on = None, data = [9]\<rparr>]"
proof -
  have "faults (empty_store []) = []" "marker_ok demo_host ''a'' (empty_store [])"
    by (simp_all add: empty_store_def marker_ok_def dir_at_def empty_dir_def)
  from journal_op_exact [OF empty_store_holds this, of "AppendPending 7 [1] None [9]"]
  show ?thesis by (simp add: spec_append_def chain_tip_def demo_hex)
qed

text \<open>
  C9: \<^verbatim>\<open>find_leaf\<close> accepts a set of snapshots exactly when they form one linear chain in
  some order, and then the head it returns is the end of that chain.
\<close>

theorem find_leaf_accepts_chains:
  "find_leaf ss = Ok leaf \<longleftrightarrow>
     (\<exists>cs. mset cs = mset ss \<and> is_chain cs \<and> leaf = (if cs = [] then None else Some (last cs)))"
proof
  assume ok: "find_leaf ss = Ok leaf"
  then have "linear ss" using find_leaf_linear by blast
  then obtain cs where cs: "mset cs = mset ss" "is_chain cs" by (auto simp: linear_def)
  with ok find_leaf_head [OF cs] show
    "\<exists>cs. mset cs = mset ss \<and> is_chain cs \<and> leaf = (if cs = [] then None else Some (last cs))"
    by (intro exI [of _ cs]) simp
next
  assume "\<exists>cs. mset cs = mset ss \<and> is_chain cs \<and> leaf = (if cs = [] then None else Some (last cs))"
  then obtain cs where "mset cs = mset ss" "is_chain cs" "leaf = (if cs = [] then None else Some (last cs))"
    by blast
  then show "find_leaf ss = Ok leaf" by (simp only: find_leaf_head)
qed



text \<open>
  C10: a cascade that stops at a failed file operation is resumable: it leaves a prefix of the
  chain, in which the start snapshot is still present unless the whole cascade is already gone,
  and running it again without faults completes it.
\<close>

theorem interrupted_rollback_resumes:
  assumes "holds X a s cs" and "h \<in> extrinsic_hash ` set cs" and "cascade_drop X a h s = (Err e, t)"
  shows "\<exists>k. holds X a t (take k cs) \<and>
    (take k cs = takeWhile (\<lambda>c. extrinsic_hash c \<noteq> h) cs \<or>
     holds X a (snd (cascade_drop X a h (t\<lparr>faults := []\<rparr>))) (takeWhile (\<lambda>c. extrinsic_hash c \<noteq> h) cs))"
proof -
  from assms(2) have "\<exists>c\<in>set cs. extrinsic_hash c = h" by auto
  then obtain xs y ys where cs: "cs = xs @ y # ys" "extrinsic_hash y = h"
      "\<forall>c\<in>set xs. extrinsic_hash c \<noteq> h"
    by (rule split_list_first_propE)
  have cut: "takeWhile (\<lambda>c. extrinsic_hash c \<noteq> h) (xs @ y # zs) = xs" for zs
    using cs(2,3) by (simp add: takeWhile_append2)
  obtain cs' where cs': "holds X a t cs'" and "outcome (spec_rollback a h cs) cs (Err e) cs'"
    using wpD [OF cascade_drop_refines [OF assms(1)] assms(3)] by blast
  with assms(2) have "torn xs cs cs'" by (simp add: outcome_def spec_rollback_def cs(1) cut)
  then obtain k where k: "length xs \<le> k" "cs' = take k cs"
    unfolding torn_def cs(1) by (auto intro: that [of "length xs"])
  have "take k cs = xs \<or> holds X a (snd (cascade_drop X a h (t\<lparr>faults := []\<rparr>))) xs"
  proof (cases "k = length xs")
    case True
    then show ?thesis by (simp add: cs(1))
  next
    case False
    with k(1) obtain j where "k = length xs + Suc j" by (metis add_Suc_right le_neq_implies_less less_iff_Suc_add)
    then have part: "take k cs = xs @ y # take j ys" by (simp add: cs(1))
    with cs' k(2) have "holds X a (t\<lparr>faults := []\<rparr>) (xs @ y # take j ys)" by simp
    from wpD [OF cascade_drop_refines [OF this] prod.collapse [symmetric], of h] obtain cs'' where
      "holds X a (snd (cascade_drop X a h (t\<lparr>faults := []\<rparr>))) cs''"
      "outcome (spec_rollback a h (xs @ y # take j ys)) (xs @ y # take j ys)
        (fst (cascade_drop X a h (t\<lparr>faults := []\<rparr>))) cs''"
      by blast
    moreover have "expected (fst (cascade_drop X a h (t\<lparr>faults := []\<rparr>)))"
      by (rule wpD [OF cascade_drop_expected prod.collapse [symmetric]]) simp
    ultimately show ?thesis
      using cs(2) by (auto simp: outcome_def spec_rollback_def cut)
  qed
  with cs' k(2) show ?thesis unfolding cs(1) cut by blast
qed

theorem interrupted_rollback_resumes_witness:
  "\<exists>k. holds demo_host ''a'' (snd (cascade_drop demo_host ''a'' [CHR 0x01] (demo_store [False, False, True])))
     (take k [demo_first, demo_second])"
proof -
  let ?r = "cascade_drop demo_host ''a'' [CHR 0x01] (demo_store [False, False, True])"
  have "fst ?r = Err (Io ''remove'')" by code_simp
  then have "?r = (Err (Io ''remove''), snd ?r)" by (metis prod.collapse)
  from interrupted_rollback_resumes [OF demo_store_holds _ this] show ?thesis
    by (auto simp: demo_first_def)
qed

text \<open>
  C11: the recovery the error messages point to never makes a journal worse: from any journal in
  which every snapshot hangs below a root, branched ones included, a cascade leaves such a
  journal again, whatever file operation fails.
\<close>

theorem cascade_keeps_rooted:
  assumes "rooted_files (address_files X a s)"
  shows "rooted_files (address_files X a (snd (cascade_drop X a h s)))"
  using wpD [OF cascade_drop_rooted [OF assms] prod.collapse [symmetric]] .

theorem cascade_keeps_rooted_witness:
  "rooted_files (address_files demo_host ''a'' (snd (cascade_drop demo_host ''a'' [CHR 0x02] (demo_store [False, True]))))"
proof (rule cascade_keeps_rooted)
  have "linear [demo_first, demo_second]"
    by (auto simp: linear_def is_chain_def demo_first_def demo_second_def
        intro!: exI [of _ "[demo_first, demo_second]"])
  then have "rooted [demo_first, demo_second]" by (rule linear_rooted)
  then show "rooted_files (address_files demo_host ''a'' (demo_store [False, True]))"
    by (simp add: demo_store_files rooted_files_def named_files_def demo_first_def demo_second_def)
qed

text \<open>
  C14: the reads agree with the chain: \<^verbatim>\<open>snapshots\<close> lists it oldest first, and
  \<^verbatim>\<open>head_with_extrinsic\<close> returns the data of its last snapshot with the hash of that
  same snapshot.
\<close>

theorem reads_see_the_chain:
  assumes "holds X a s cs" and "faults s = []"
  shows "fst (snapshots X a s) = Ok cs \<and>
    fst (head_with_extrinsic X a s) =
      (if cs = [] then Ok None
       else rmap (\<lambda>ext. Some (data (last cs), ext)) (parse_hash X (extrinsic_hash (last cs))))"
proof -
  have "wp (snapshots X a) (\<lambda>r t. r = Ok cs) s"
    using assms holds_topo [OF assms(1)] by (simp add: snapshots_def journal_def)
  moreover have "wp (head_with_extrinsic X a) (\<lambda>r t. r = (if cs = [] then Ok None
      else rmap (\<lambda>ext. Some (data (last cs), ext)) (parse_hash X (extrinsic_hash (last cs))))) s"
    using assms(2) holds_head [OF assms(1)]
    by (simp add: head_with_extrinsic_def head_snapshot_def journal_def split: res.split)
  ultimately show ?thesis by (auto simp: wp_def split: prod.splits)
qed

theorem reads_see_the_chain_witness:
  "fst (snapshots demo_host ''a'' (demo_store [])) = Ok [demo_first, demo_second]"
  using reads_see_the_chain [OF demo_store_holds, of "[]"] by (simp add: demo_store_def)

definition drops :: "journal_op \<Rightarrow> bool" where
  "drops op = (case op of MarkFailed _ \<Rightarrow> True | RollbackFrom _ \<Rightarrow> True | _ \<Rightarrow> False)"

definition same_record :: "snapshot \<Rightarrow> snapshot \<Rightarrow> bool" where
  "same_record c d \<longleftrightarrow> status d = status c \<and> extrinsic_hash d = extrinsic_hash c \<and>
     block_hash d = block_hash c \<and> depends_on d = depends_on c \<and> data d = data c \<and>
     (block_height c \<noteq> None \<longrightarrow> block_height d = block_height c)"

lemma spec_op_keeps_confirmed:
  assumes "\<not> drops op" "torn (snd (spec_op X a op cs)) cs cs'" "c \<in> set cs" "status c = Confirmed"
  shows "\<exists>d\<in>set cs'. same_record c d"
proof -
  have refl: "same_record c c" by (simp add: same_record_def)
  have len: "length cs \<le> length (snd (spec_op X a op cs))"
    using assms(1) by (cases op) (auto simp: drops_def spec_append_def spec_confirm_def split: option.split)
  from assms(2) consider "cs' = snd (spec_op X a op cs)" | "cs' = cs"
    unfolding torn_def using len by auto
  then show ?thesis
  proof cases
    case 1
    show ?thesis
    proof (cases op)
      case (AppendPending n e dep st)
      with 1 assms(3) refl show ?thesis by (auto simp: spec_append_def)
    next
      case (Confirm e height b)
      have "same_record c (confirmed_as height h c)" for h
        using assms(4) by (auto simp: same_record_def confirmed_as_def)
      with 1 assms(3) refl Confirm show ?thesis
        by (auto simp: spec_confirm_def split: option.split)
    qed (use assms(1) in \<open>simp_all add: drops_def\<close>)
  next
    case 2
    with assms(3) refl show ?thesis by blast
  qed
qed



text \<open>
  C16: an operation on one address leaves the directory of every other address as it was, as
  long as their hashed names differ.
\<close>

theorem addresses_are_isolated:
  assumes "hashed_name X b \<noteq> hashed_name X a"
  shows "journal X a (snd (run_op X b op s)) = journal X a s"
proof -
  have "same_dir (hashed_name X a) s (snd (run_op X b op s))"
    using run_op_isolated [OF assms] by (simp add: preserves_def)
  then show ?thesis by (simp add: journal_def snapshot_files_def same_dir_def)
qed

theorem addresses_are_isolated_witness:
  "journal demo_host ''a'' (snd (run_op demo_host ''b'' (AppendPending 9 [3] None [1]) (demo_store []))) =
     journal demo_host ''a'' (demo_store [])"
  by (rule addresses_are_isolated) (simp add: demo_host_def)

end
