(* ===== verification/JournalTransfer.thy ===== *)
theory JournalTransfer
  imports JournalContract
begin

text \<open>
  Export and import of private states and signing keys: the option and result types of
  \<^verbatim>\<open>crates/midnight-private-state/src/lib.rs\<close>, the envelope of \<^verbatim>\<open>crypto.rs\<close>, and
  the two import paths of \<^verbatim>\<open>fs.rs\<close>. Argon2, AES-GCM, base64 and serde are not part of
  the repository: they are the parameters in the records \<open>cipher\<close> and \<open>codec\<close>.
\<close>

section \<open>Options and results\<close>

definition max_export_entries :: nat where "max_export_entries = 10000"
definition min_password_len :: nat where "min_password_len = 16"
definition format_states :: string where
  "format_states = ''midnight-rs-private-state-journal-export-v1''"
definition format_keys :: string where
  "format_keys = ''midnight-rs-signing-key-export-v1''"

datatype conflict_strategy = Skip | Overwrite | ErrorOut

text \<open>A password is a list of characters (Unicode scalar values).\<close>

record export_options =
  ex_password :: "nat list"
  ex_max_entries :: nat

record import_options =
  im_password :: "nat list"
  im_conflict :: conflict_strategy
  im_max_entries :: nat

definition export_options_new :: "nat list \<Rightarrow> export_options" where
  "export_options_new pw = \<lparr>ex_password = pw, ex_max_entries = max_export_entries\<rparr>"

definition export_with_max_entries :: "nat \<Rightarrow> export_options \<Rightarrow> export_options" where
  "export_with_max_entries m opts = opts\<lparr>ex_max_entries := min m max_export_entries\<rparr>"

definition import_options_new :: "nat list \<Rightarrow> import_options" where
  "import_options_new pw =
     \<lparr>im_password = pw, im_conflict = ErrorOut, im_max_entries = max_export_entries\<rparr>"

definition with_conflict :: "conflict_strategy \<Rightarrow> import_options \<Rightarrow> import_options" where
  "with_conflict c opts = opts\<lparr>im_conflict := c\<rparr>"

definition import_with_max_entries :: "nat \<Rightarrow> import_options \<Rightarrow> import_options" where
  "import_with_max_entries m opts = opts\<lparr>im_max_entries := min m max_export_entries\<rparr>"

definition check_password :: "export_options \<Rightarrow> (ps_error, unit) res" where
  "check_password opts =
     (if length (ex_password opts) < min_password_len then Err PasswordTooShort else Ok ())"

record import_result =
  imported :: nat
  skipped :: nat
  overwritten :: nat

definition no_imports :: import_result where
  "no_imports = \<lparr>imported = 0, skipped = 0, overwritten = 0\<rparr>"

text \<open>
  \<^verbatim>\<open>ImportResult::admit\<close>. The counters are \<^verbatim>\<open>usize\<close>; they count entries of a list in
  memory, so they do not reach the width.
\<close>

fun admit :: "bool \<Rightarrow> conflict_strategy \<Rightarrow> string \<times> string \<Rightarrow> import_result \<Rightarrow>
    (ps_error, bool \<times> import_result) res" where
  "admit False c label r = Ok (True, r\<lparr>imported := imported r + 1\<rparr>)"
| "admit True Skip label r = Ok (False, r\<lparr>skipped := skipped r + 1\<rparr>)"
| "admit True Overwrite label r = Ok (True, r\<lparr>overwritten := overwritten r + 1\<rparr>)"
| "admit True ErrorOut label r = Err (ImportConflict (fst label) (snd label))"

section \<open>Envelopes\<close>

record envelope =
  format :: string
  salt :: string
  ciphertext :: string

record cipher =
  derive_key :: "nat list \<Rightarrow> bytes \<Rightarrow> bytes option"
  aead_seal :: "bytes \<Rightarrow> bytes \<Rightarrow> string \<Rightarrow> bytes \<Rightarrow> bytes option"
  aead_open :: "bytes \<Rightarrow> bytes \<Rightarrow> string \<Rightarrow> bytes \<Rightarrow> bytes option"
  base64_encode :: "bytes \<Rightarrow> string"
  base64_decode :: "string \<Rightarrow> bytes option"

record 'a codec =
  to_json :: "'a list \<Rightarrow> bytes"
  from_json :: "bytes \<Rightarrow> 'a list option"

definition salt_len :: nat where "salt_len = 32"
definition nonce_len :: nat where "nonce_len = 12"

text \<open>\<open>salt_bytes\<close> and \<open>nonce\<close> are what the random generator returned.\<close>

definition encrypt ::
  "ps_host \<Rightarrow> cipher \<Rightarrow> bytes \<Rightarrow> bytes \<Rightarrow> nat list \<Rightarrow> string \<Rightarrow> bytes \<Rightarrow> (ps_error, string \<times> string) res"
where
  "encrypt X C salt_bytes nonce pw aad plain =
     rbind (ok_or KeyDerivation (derive_key C pw salt_bytes)) (\<lambda>key.
     rbind (ok_or Encrypt (aead_seal C key nonce aad plain)) (\<lambda>ct.
     Ok (hex_encode X salt_bytes, base64_encode C (nonce @ ct))))"

definition decrypt ::
  "ps_host \<Rightarrow> cipher \<Rightarrow> nat list \<Rightarrow> string \<Rightarrow> string \<Rightarrow> string \<Rightarrow> (ps_error, bytes) res" where
  "decrypt X C pw aad salt_hex ct64 =
     rbind (ok_or (InvalidFormat BadHex) (hex_decode X salt_hex)) (\<lambda>salt_bytes.
     if length salt_bytes \<noteq> salt_len then Err (InvalidFormat (OtherImport ''salt length''))
     else rbind (ok_or (InvalidFormat (OtherImport ''base64'')) (base64_decode C ct64)) (\<lambda>combined.
       if length combined < nonce_len then Err (InvalidFormat (OtherImport ''ciphertext shorter than nonce''))
       else rbind (ok_or KeyDerivation (derive_key C pw salt_bytes)) (\<lambda>key.
         ok_or Decrypt (aead_open C key (take nonce_len combined) aad (drop nonce_len combined)))))"

definition seal ::
  "ps_host \<Rightarrow> cipher \<Rightarrow> 'a codec \<Rightarrow> bytes \<Rightarrow> bytes \<Rightarrow> string \<Rightarrow> export_options \<Rightarrow> 'a list \<Rightarrow> (ps_error, envelope) res"
where
  "seal X C J salt_bytes nonce fmt opts records =
     (if ex_max_entries opts < length records then Err TooManyEntries
      else rmap (\<lambda>(s, ct). \<lparr>format = fmt, salt = s, ciphertext = ct\<rparr>)
        (encrypt X C salt_bytes nonce (ex_password opts) fmt (to_json J records)))"

definition open_envelope ::
  "ps_host \<Rightarrow> cipher \<Rightarrow> 'a codec \<Rightarrow> string \<Rightarrow> envelope \<Rightarrow> import_options \<Rightarrow> (ps_error, 'a list) res" where
  "open_envelope X C J fmt export opts =
     (if format export \<noteq> fmt then Err (InvalidFormat (OtherImport ''format''))
      else rbind (decrypt X C (im_password opts) fmt (salt export) (ciphertext export)) (\<lambda>payload.
        rbind (ok_or (InvalidFormat (OtherImport ''malformed payload'')) (from_json J payload)) (\<lambda>records.
        if im_max_entries opts < length records then Err TooManyEntries else Ok records)))"

section \<open>Private states\<close>

record export_entry =
  ent_address :: string
  ent_snapshot :: snapshot

text \<open>
  \<^verbatim>\<open>collect_export_entries\<close>. The directories come in the order the system lists them,
  here their order in the store.
\<close>

definition collect_dir :: "ps_host \<Rightarrow> string \<times> addr_dir \<Rightarrow> export_entry list fs_op" where
  "collect_dir X d =
     sbind (io ''read marker'') (\<lambda>_.
     case marker (snd d) of
       None \<Rightarrow> sret []
     | Some m \<Rightarrow>
         if fst d \<noteq> hashed_name X (trim m) then sfail (InvalidFormat (MarkerDirMismatch (trim m)))
         else sbind (io ''read dir'') (\<lambda>_.
           sret (map (\<lambda>(path, snap). \<lparr>ent_address = trim m, ent_snapshot = snap\<rparr>)
             (sort_key fst (files (snd d))))))"

definition collect_export_entries :: "ps_host \<Rightarrow> export_entry list fs_op" where
  "collect_export_entries X =
     sbind (io ''read dir'') (\<lambda>_.
     sbind (sget states) (\<lambda>dirs.
     sbind (straverse (collect_dir X) dirs) (\<lambda>parts. sret (concat parts))))"

definition export_private_states ::
  "ps_host \<Rightarrow> cipher \<Rightarrow> export_entry codec \<Rightarrow> bytes \<Rightarrow> bytes \<Rightarrow> export_options \<Rightarrow> envelope fs_op" where
  "export_private_states X C J salt_bytes nonce opts =
     sbind (slift (check_password opts)) (\<lambda>_.
     sbind (collect_export_entries X) (\<lambda>entries.
     slift (seal X C J salt_bytes nonce format_states opts entries)))"

definition lowercase_hex :: "string \<Rightarrow> bool" where
  "lowercase_hex h \<longleftrightarrow> length h = 64 \<and>
     list_all (\<lambda>c. (CHR ''0'' \<le> c \<and> c \<le> CHR ''9'') \<or> (CHR ''a'' \<le> c \<and> c \<le> CHR ''f'')) h"

definition validate_hash_field :: "string \<Rightarrow> string option \<Rightarrow> (ps_error, unit) res" where
  "validate_hash_field name field =
     (case field of
        None \<Rightarrow> Ok ()
      | Some h \<Rightarrow> if lowercase_hex h then Ok () else Err (InvalidFormat (BadHashField name h)))"

text \<open>Pass 1 of \<^verbatim>\<open>apply_import_entries\<close>.\<close>

definition validate_entry :: "export_entry \<Rightarrow> (ps_error, unit) res" where
  "validate_entry e =
     rbind (validate_hash_field ''extrinsic_hash'' (Some (extrinsic_hash (ent_snapshot e)))) (\<lambda>_.
     rbind (validate_hash_field ''depends_on'' (depends_on (ent_snapshot e))) (\<lambda>_.
     validate_hash_field ''block_hash'' (block_hash (ent_snapshot e))))"

text \<open>Pass 2: no two entries of the payload share address and hash.\<close>

definition entry_key :: "export_entry \<Rightarrow> string \<times> string" where
  "entry_key e = (ent_address e, extrinsic_hash (ent_snapshot e))"

fun reject_duplicate_entries :: "(string \<times> string) list \<Rightarrow> export_entry list \<Rightarrow> (ps_error, unit) res" where
  "reject_duplicate_entries seen [] = Ok ()"
| "reject_duplicate_entries seen (e # es) =
     (if entry_key e \<in> set seen
      then Err (InvalidFormat (DuplicateEntry (ent_address e) (extrinsic_hash (ent_snapshot e))))
      else reject_duplicate_entries (entry_key e # seen) es)"

text \<open>
  Pass 3: the simulated journals, one table from hash to file per touched address. The code
  iterates over a hash set of addresses, so in an order of its own: \<open>addrs\<close>, a list with the
  addresses of the payload. A staged table entry has no path yet (\<^verbatim>\<open>PathBuf::new()\<close>), here
  \<^term>\<open>None\<close>.
\<close>

type_synonym table = "(string \<times> (snap_path option \<times> snapshot)) list"

definition load_table :: "(snap_path \<times> snapshot) list \<Rightarrow> table" where
  "load_table fs = fold (\<lambda>(path, snap). AList.update (extrinsic_hash snap) (Some path, snap)) fs []"

definition load_tables :: "ps_host \<Rightarrow> string list \<Rightarrow> (string \<times> table) list fs_op" where
  "load_tables X addrs =
     straverse (\<lambda>a. sbind (load_snapshots X a) (\<lambda>snaps. sret (a, load_table snaps))) addrs"

text \<open>Pass 4: what to write, against the simulated journals.\<close>

definition would_downgrade :: "conflict_strategy \<Rightarrow> snapshot option \<Rightarrow> snapshot \<Rightarrow> bool" where
  "would_downgrade c existing new \<longleftrightarrow> c = Overwrite \<and> status new = Pending \<and>
     (case existing of None \<Rightarrow> False | Some old \<Rightarrow> status old = Confirmed)"

text \<open>
  The expectation \<^verbatim>\<open>populated above\<close> panics when it fails. An entry found in the table under
  a staged (path-less) record cannot occur after pass 2; the code would then write to the empty
  path.
\<close>

definition stage_entry :: "(export_entry \<Rightarrow> nat) \<Rightarrow> conflict_strategy \<Rightarrow> export_entry \<Rightarrow>
    (string \<times> table) list \<times> import_result \<Rightarrow>
    (ps_error, (export_entry \<times> snap_path option option) \<times> (string \<times> table) list \<times> import_result) res" where
  "stage_entry clock c e acc =
     (let snap = ent_snapshot e; a = ent_address e; h = extrinsic_hash snap in
      case map_of (fst acc) a of
        None \<Rightarrow> Panic
      | Some tab \<Rightarrow>
          let existing = map_of tab h in
          if would_downgrade c (map_option snd existing) snap
          then Err (InvalidFormat (Downgrade a h))
          else
            rbind (admit (existing \<noteq> None) c (a, h) (snd acc)) (\<lambda>(write, r).
            let target = (if \<not> write then None
              else Some (case existing of Some (path, _) \<Rightarrow> path | None \<Rightarrow> Some (clock e, h)));
              tabs = (if target = None then fst acc
                else AList.update a (AList.update h (None, snap) tab) (fst acc))
            in Ok ((e, target), tabs, r)))"

fun stage_entries :: "(export_entry \<Rightarrow> nat) \<Rightarrow> conflict_strategy \<Rightarrow> export_entry list \<Rightarrow>
    (string \<times> table) list \<times> import_result \<Rightarrow>
    (ps_error, (export_entry \<times> snap_path option option) list \<times> (string \<times> table) list \<times> import_result) res"
where
  "stage_entries clock c [] acc = Ok ([], fst acc, snd acc)"
| "stage_entries clock c (e # es) acc =
     rbind (stage_entry clock c e acc) (\<lambda>(staged, tabs, r).
     rbind (stage_entries clock c es (tabs, r)) (\<lambda>(rest, tabs', r').
     Ok (staged # rest, tabs', r')))"

text \<open>Pass 5: the simulated journals must be linear.\<close>

definition check_table :: "(string \<times> table) list \<Rightarrow> string \<Rightarrow> (ps_error, unit) res" where
  "check_table tabs a =
     (case map_of tabs a of
        None \<Rightarrow> Panic
      | Some tab \<Rightarrow>
          (case find_leaf (map (snd \<circ> snd) tab) of
             Ok _ \<Rightarrow> Ok ()
           | Err (InvalidFormat why) \<Rightarrow> Err (InvalidFormat (MalformedImport a why))
           | Err e \<Rightarrow> Err e
           | Panic \<Rightarrow> Panic
           | NoFuel \<Rightarrow> NoFuel))"

text \<open>Pass 6: the writes.\<close>

fun commit_entries :: "ps_host \<Rightarrow> (export_entry \<times> snap_path option option) list \<Rightarrow> unit fs_op" where
  "commit_entries X [] = sret ()"
| "commit_entries X ((e, target) # rest) =
     sbind (ensure_address_marker X (ent_address e)) (\<lambda>_.
     sbind (case target of
         None \<Rightarrow> sret ()
       | Some None \<Rightarrow> sfail (Io ''empty path'')
       | Some (Some path) \<Rightarrow> write_snapshot X (ent_address e) path (ent_snapshot e)) (\<lambda>_.
     commit_entries X rest))"

definition apply_import_entries ::
  "ps_host \<Rightarrow> (export_entry \<Rightarrow> nat) \<Rightarrow> string list \<Rightarrow> conflict_strategy \<Rightarrow> export_entry list \<Rightarrow> import_result fs_op"
where
  "apply_import_entries X clock addrs c entries =
     sbind (slift (try_each validate_entry entries)) (\<lambda>_.
     sbind (slift (reject_duplicate_entries [] entries)) (\<lambda>_.
     sbind (load_tables X addrs) (\<lambda>tabs.
     sbind (slift (stage_entries clock c entries (tabs, no_imports))) (\<lambda>(staged, tabs', r).
     sbind (slift (try_each (check_table tabs') addrs)) (\<lambda>_.
     sbind (commit_entries X staged) (\<lambda>_. sret r))))))"

definition import_private_states ::
  "ps_host \<Rightarrow> cipher \<Rightarrow> export_entry codec \<Rightarrow> (export_entry \<Rightarrow> nat) \<Rightarrow> string list \<Rightarrow> envelope \<Rightarrow>
   import_options \<Rightarrow> import_result fs_op" where
  "import_private_states X C J clock addrs export opts =
     sbind (slift (open_envelope X C J format_states export opts)) (\<lambda>entries.
     apply_import_entries X clock addrs (im_conflict opts) entries)"

section \<open>Signing keys\<close>

definition export_signing_keys ::
  "ps_host \<Rightarrow> cipher \<Rightarrow> key_record codec \<Rightarrow> bytes \<Rightarrow> bytes \<Rightarrow> export_options \<Rightarrow> envelope fs_op" where
  "export_signing_keys X C J salt_bytes nonce opts =
     sbind (slift (check_password opts)) (\<lambda>_.
     sbind (io ''read dir'') (\<lambda>_.
     sbind (sget (\<lambda>s. sort_key fst (keys s))) (\<lambda>recs.
     sbind (slift (traverse (\<lambda>(name, rec).
         if name \<noteq> hashed_name X (key_address rec)
         then Err (InvalidFormat (KeyAddressMismatch (key_address rec))) else Ok rec) recs)) (\<lambda>records.
     slift (seal X C J salt_bytes nonce format_keys opts records)))))"

definition reject_duplicate_paths :: "(string \<times> key_record) list \<Rightarrow> (ps_error, unit) res" where
  "reject_duplicate_paths resolved =
     (if distinct (map fst resolved) then Ok () else Err (InvalidFormat DuplicateKeys))"

fun admit_keys :: "(string \<Rightarrow> bool) \<Rightarrow> conflict_strategy \<Rightarrow> (string \<times> key_record) list \<Rightarrow> import_result \<Rightarrow>
    (ps_error, (string \<times> key_record) list \<times> import_result) res" where
  "admit_keys exists c [] r = Ok ([], r)"
| "admit_keys exists c ((path, rec) # rest) r =
     rbind (admit (exists path) c (key_address rec, '''') r) (\<lambda>(write, r').
     rbind (admit_keys exists c rest r') (\<lambda>(admitted, r'').
     Ok (if write then (path, rec) # admitted else admitted, r'')))"

definition write_key :: "string \<times> key_record \<Rightarrow> unit fs_op" where
  "write_key kr =
     sbind (io ''create dir'') (\<lambda>_. write_atomic (keys_update (AList.update (fst kr) (snd kr))))"

definition import_signing_keys ::
  "ps_host \<Rightarrow> cipher \<Rightarrow> key_record codec \<Rightarrow> envelope \<Rightarrow> import_options \<Rightarrow> import_result fs_op" where
  "import_signing_keys X C J export opts =
     sbind (slift (open_envelope X C J format_keys export opts)) (\<lambda>records.
     let resolved = map (\<lambda>rec. (hashed_name X (key_address rec), rec)) records in
     sbind (slift (reject_duplicate_paths resolved)) (\<lambda>_.
     sbind (sget (\<lambda>s path. map_of (keys s) path \<noteq> None)) (\<lambda>exists.
     sbind (slift (admit_keys exists (im_conflict opts) resolved no_imports)) (\<lambda>(admitted, r).
     sbind (straverse write_key admitted) (\<lambda>_. sret r)))))"

definition forget_all :: "unit fs_op" where
  "forget_all = sbind (io ''clear'') (\<lambda>_. smodify (states_update (\<lambda>_. [])))"

definition clear_signing_keys :: "unit fs_op" where
  "clear_signing_keys = sbind (io ''clear'') (\<lambda>_. smodify (keys_update (\<lambda>_. [])))"


section \<open>A refused import changes nothing\<close>

definition same_states :: "fs_store \<Rightarrow> fs_store \<Rightarrow> bool" where
  "same_states s t \<longleftrightarrow> states t = states s \<and> keys t = keys s"

lemma same_states_order: "transp (same_states)" "reflp (same_states)"
  by (auto simp: same_states_def intro: transpI reflpI)

lemma same_states_io: "preserves same_states (io w)"
  by (simp add: preserves_def io_def same_states_def split: list.split)

lemmas same_states_basics = preserves_sbind [OF same_states_order(1)]
  preserves_pure [OF same_states_order(2)] preserves_straverse [OF same_states_order] same_states_io

lemma load_tables_same: "preserves same_states (load_tables X addrs)"
  unfolding load_tables_def load_snapshots_def by (intro same_states_basics)

lemma write_snapshot_env:
  "wp (write_snapshot X a path snap) (\<lambda>r t. \<forall>e. r = Err e \<longrightarrow> env_error e) s"
  by (rule wp_write_snapshot) simp_all

lemma ensure_address_marker_env:
  "wp (ensure_address_marker X a) (\<lambda>r t. \<forall>e. r = Err e \<longrightarrow> env_error e) s"
  by (rule wp_ensure_address_marker) simp_all

lemma commit_entries_env:
  "wp (commit_entries X staged) (\<lambda>r t. \<forall>e. r = Err e \<longrightarrow> env_error e) s"
proof (induction staged arbitrary: s)
  case Nil
  then show ?case by simp
next
  case (Cons st staged)
  obtain e target where st: "st = (e, target)" by fastforce
  have target: "wp (case target of None \<Rightarrow> sret () | Some None \<Rightarrow> sfail (Io ''empty path'')
      | Some (Some path) \<Rightarrow> write_snapshot X (ent_address e) path (ent_snapshot e))
      (\<lambda>r t. \<forall>e. r = Err e \<longrightarrow> env_error e) t" for t
    by (auto simp: write_snapshot_env split: option.split)
  show ?case
    unfolding st commit_entries.simps wp_sbind
  proof (rule wp_mono [OF ensure_address_marker_env], goal_cases)
    case (1 r t)
    then show ?case
      by (cases r) (auto intro!: wp_mono [OF target] Cons.IH split: res.splits)
  qed
qed

lemma import_refused_unchanged:
  assumes "apply_import_entries X clock addrs c entries s = (Err e, t)" "\<not> env_error e"
  shows "same_states s t"
proof -
  have refl: "same_states s s" by (simp add: same_states_def)
  obtain r1 t1 where load: "load_tables X addrs s = (r1, t1)" by fastforce
  have same: "same_states s t1" using load_tables_same load by (rule preservesD)
  show ?thesis
  proof (cases "try_each validate_entry entries")
    case v: (Ok u)
    show ?thesis
    proof (cases "reject_duplicate_entries [] entries")
      case d: (Ok u)
      show ?thesis
      proof (cases r1)
        case l: (Ok tabs)
        show ?thesis
        proof (cases "stage_entries clock c entries (tabs, no_imports)")
          case st: (Ok x)
          obtain staged tabs' r where x: "x = (staged, tabs', r)" by (cases x) auto
          show ?thesis
          proof (cases "try_each (check_table tabs') addrs")
            case c: (Ok u)
            have "wp (commit_entries X staged) (\<lambda>r t. \<forall>e. r = Err e \<longrightarrow> env_error e) t1"
              by (rule commit_entries_env)
            with assms v d load l st x c show ?thesis
              by (auto simp: apply_import_entries_def sbind_def sm_simps wp_def split: prod.splits res.splits)
          qed (use assms v d load l st x same in \<open>auto simp: apply_import_entries_def sbind_def sm_simps\<close>)
        qed (use assms v d load l same in \<open>auto simp: apply_import_entries_def sbind_def sm_simps\<close>)
      qed (use assms v d load same in \<open>auto simp: apply_import_entries_def sbind_def sm_simps\<close>)
    qed (use assms v refl in \<open>auto simp: apply_import_entries_def sbind_def sm_simps\<close>)
  qed (use assms refl in \<open>auto simp: apply_import_entries_def sbind_def sm_simps\<close>)
qed

section \<open>A successful import leaves linear journals\<close>

text \<open>
  \<open>simulates tab fs\<close>: the simulated table of an address holds the hashes and snapshots of
  its files, and the paths it remembers are theirs.
\<close>

definition by_name :: "(snap_path \<times> snapshot) list \<Rightarrow> (string \<times> snapshot) list" where
  "by_name fs = map (\<lambda>(path, snap). (extrinsic_hash snap, snap)) fs"

definition contents :: "table \<Rightarrow> (string \<times> snapshot) list" where
  "contents tab = map (\<lambda>(h, path, snap). (h, snap)) tab"

definition simulates :: "table \<Rightarrow> (snap_path \<times> snapshot) list \<Rightarrow> bool" where
  "simulates tab fs \<longleftrightarrow> named_files fs \<and> distinct (map fst tab) \<and>
     mset (contents tab) = mset (by_name fs) \<and>
     (\<forall>h path snap. map_of tab h = Some (Some path, snap) \<longrightarrow> snd path = h \<and> (path, snap) \<in> set fs)"

lemma contents_update:
  "contents (AList.update h (q, snap) tab) = AList.update h snap (contents tab)"
  by (induction tab) (auto simp: contents_def)

lemma mset_update:
  "distinct (map fst al) \<Longrightarrow>
   mset (AList.update k v al) = mset (filter (\<lambda>(k', _). k' \<noteq> k) al) + {#(k, v)#}"
proof (induction al)
  case (Cons x al)
  obtain k' v' where x: "x = (k', v')" by fastforce
  show ?case
  proof (cases "k' = k")
    case True
    with Cons.prems x have "filter (\<lambda>(k', _). k' \<noteq> k) al = al" by (force simp: filter_id_conv)
    with True x show ?thesis by simp
  qed (use Cons x in simp)
qed simp

lemma by_name_update:
  assumes "named_files fs" "snd path = extrinsic_hash snap"
    and "\<And>c q. (q, c) \<in> set fs \<Longrightarrow> extrinsic_hash c = extrinsic_hash snap \<Longrightarrow> q = path"
  shows "mset (by_name (AList.update path snap fs)) =
    mset (filter (\<lambda>(h, _). h \<noteq> extrinsic_hash snap) (by_name fs)) + {#(extrinsic_hash snap, snap)#}"
proof -
  have dist: "distinct (map fst fs)" using assms(1) by (simp add: named_files_def)
  have "mset (by_name (AList.update path snap fs)) =
      mset (by_name (filter (\<lambda>(q, _). q \<noteq> path) fs)) + {#(extrinsic_hash snap, snap)#}"
    unfolding by_name_def mset_map mset_update [OF dist] by simp
  also have "by_name (filter (\<lambda>(q, _). q \<noteq> path) fs) =
      filter (\<lambda>(h, _). h \<noteq> extrinsic_hash snap) (by_name fs)"
  proof -
    have "q \<noteq> path \<longleftrightarrow> extrinsic_hash c \<noteq> extrinsic_hash snap" if "(q, c) \<in> set fs" for q c
    proof -
      have "snd q = extrinsic_hash c" using assms(1) that by (auto simp: named_files_def)
      with assms(2) assms(3) [OF that] show ?thesis by auto
    qed
    then show ?thesis by (induction fs) (auto simp: by_name_def)
  qed
  finally show ?thesis .
qed

lemma set_update_subset: "set (AList.update k v al) \<subseteq> insert (k, v) (set al)"
  by (induction al) auto

lemma named_files_update:
  assumes "named_files fs" "snd path = extrinsic_hash snap"
  shows "named_files (AList.update path snap fs)"
  using assms set_update_subset [of path snap fs]
  unfolding named_files_def by (fastforce simp: distinct_update)

lemma simulates_hash_path:
  assumes "simulates tab fs" "(q, c) \<in> set fs" "map_of tab (extrinsic_hash c) = Some (p, d)"
  shows "d = c"
proof -
  have "(extrinsic_hash c, c) \<in> set (by_name fs)" using assms(2) by (force simp: by_name_def)
  also have "set (by_name fs) = set (contents tab)"
    using assms(1) unfolding simulates_def by (metis set_mset_mset)
  finally obtain p' where "(extrinsic_hash c, p', c) \<in> set tab" by (auto simp: contents_def)
  then have "map_of tab (extrinsic_hash c) = Some (p', c)"
    using assms(1) by (simp add: simulates_def map_of_is_SomeI)
  with assms(3) show ?thesis by simp
qed

lemma simulates_update:
  assumes "simulates tab fs" "extrinsic_hash snap = h"
    and "case map_of tab h of None \<Rightarrow> snd path = h | Some (q, _) \<Rightarrow> q = Some path"
  shows "simulates (AList.update h (None, snap) tab) (AList.update path snap fs)"
proof -
  have named: "named_files fs" and dist: "distinct (map fst tab)"
    and eq: "mset (contents tab) = mset (by_name fs)"
    using assms(1) by (simp_all add: simulates_def)
  have snd: "snd path = h"
  proof (cases "map_of tab h")
    case None
    with assms(3) show ?thesis by simp
  next
    case (Some qd)
    with assms(3) have "map_of tab h = Some (Some path, snd qd)" by (cases qd) simp
    with assms(1) show ?thesis unfolding simulates_def by blast
  qed
  have uniq: "q = path" if "(q, d) \<in> set fs" "extrinsic_hash d = extrinsic_hash snap" for d q
  proof -
    have "(h, d) \<in> set (by_name fs)" using that assms(2) by (force simp: by_name_def)
    also have "set (by_name fs) = set (contents tab)" using eq by (metis set_mset_mset)
    finally obtain p where "map_of tab h = Some (p, d)"
      using dist by (auto simp: contents_def intro: map_of_is_SomeI)
    with assms(3) have "map_of tab h = Some (Some path, d)" by auto
    with assms(1) have "(path, d) \<in> set fs" unfolding simulates_def by blast
    moreover have "distinct (map extrinsic_hash (map snd fs))"
    proof -
      have "mset (map fst (contents tab)) = mset (map fst (by_name fs))" using eq by simp
      from mset_eq_imp_distinct_iff [OF this] show ?thesis
        using dist by (simp add: contents_def by_name_def comp_def case_prod_beta)
    qed
    then have "inj_on (\<lambda>e. extrinsic_hash (snd e)) (set fs)"
      by (simp add: distinct_map comp_def inj_on_def)
    from inj_onD [OF this _ that(1) \<open>(path, d) \<in> set fs\<close>] show ?thesis by simp
  qed
  have "mset (contents (AList.update h (None, snap) tab)) = mset (by_name (AList.update path snap fs))"
  proof -
    have "distinct (map fst (contents tab))"
      using dist by (simp add: contents_def comp_def case_prod_beta)
    then have "mset (contents (AList.update h (None, snap) tab)) =
        filter_mset (\<lambda>(g, _). g \<noteq> h) (mset (contents tab)) + {#(h, snap)#}"
      by (simp add: contents_update mset_update flip: mset_filter)
    also have "\<dots> = mset (by_name (AList.update path snap fs))"
      using snd assms(2) by (simp add: eq by_name_update [OF named _ uniq] flip: mset_filter)
    finally show ?thesis .
  qed
  moreover have "named_files (AList.update path snap fs)"
    using named snd assms(2) by (simp add: named_files_update)
  moreover have "snd q = g \<and> (q, d) \<in> set (AList.update path snap fs)"
    if "map_of (AList.update h (None, snap) tab) g = Some (Some q, d)" for g q d
  proof -
    have old: "map_of tab g = Some (Some q, d)" and "g \<noteq> h"
      using that by (auto simp: update_conv' split: if_splits)
    with assms(1) have q: "snd q = g" "(q, d) \<in> set fs" unfolding simulates_def by blast+
    with \<open>g \<noteq> h\<close> snd have "q \<noteq> path" by auto
    have "map_of fs q = Some d" using named q(2) by (simp add: named_files_def map_of_is_SomeI)
    with \<open>q \<noteq> path\<close> have "map_of (AList.update path snap fs) q = Some d" by (simp add: update_conv')
    then show ?thesis using q(1) by (simp add: map_of_SomeD)
  qed
  ultimately show ?thesis using dist by (simp add: simulates_def distinct_update)
qed

lemma ensure_address_marker_files:
  "wp (ensure_address_marker X a) (\<lambda>r t. \<forall>d. files (dir_at t d) = files (dir_at s d)) s"
  unfolding ensure_address_marker_def create_private_dir_def Let_def wp_sbind
  apply (intro wp_io; simp)
  apply (intro wp_io; simp split: option.split)
  apply (intro conjI impI allI wp_write_atomic; simp)
  done

lemma write_snapshot_files:
  "wp (write_snapshot X a path snap) (\<lambda>r t. r = Ok () \<longrightarrow> (\<forall>d. files (dir_at t d) =
     (if d = hashed_name X a then AList.update path snap (files (dir_at s d)) else files (dir_at s d)))) s"
  unfolding write_snapshot_def create_private_dir_def Let_def wp_sbind
  by (intro wp_io; simp) (intro wp_write_atomic; simp)

definition all_simulated :: "ps_host \<Rightarrow> (string \<times> table) list \<Rightarrow> fs_store \<Rightarrow> bool" where
  "all_simulated X tabs s \<longleftrightarrow> (\<forall>a tab. map_of tabs a = Some tab \<longrightarrow> simulates tab (address_files X a s))"

text \<open>The entries still to be staged: their table records, if any, have a path.\<close>

definition unstaged :: "(string \<times> table) list \<Rightarrow> export_entry \<Rightarrow> bool" where
  "unstaged tabs e \<longleftrightarrow> (\<forall>tab c. map_of tabs (ent_address e) = Some tab \<longrightarrow>
     map_of tab (extrinsic_hash (ent_snapshot e)) \<noteq> Some (None, c))"

lemma all_simulated_cong:
  "(\<And>d. files (dir_at t d) = files (dir_at s d)) \<Longrightarrow> all_simulated X tabs t = all_simulated X tabs s"
  by (simp add: all_simulated_def)

lemma commit_target_ok:
  assumes "commit_entries X ((e, target) # staged) s = (Ok u, t)"
  obtains s1 where "commit_entries X staged s1 = (Ok u, t)"
    "target = None \<Longrightarrow> \<forall>d. files (dir_at s1 d) = files (dir_at s d)"
    "\<And>path. target = Some (Some path) \<Longrightarrow> \<forall>d. files (dir_at s1 d) =
       (if d = hashed_name X (ent_address e)
        then AList.update path (ent_snapshot e) (files (dir_at s d)) else files (dir_at s d))"
    "target \<noteq> Some None"
proof -
  obtain u1 s0 where marker: "ensure_address_marker X (ent_address e) s = (Ok u1, s0)"
    and "sbind (case target of None \<Rightarrow> sret () | Some None \<Rightarrow> sfail (Io ''empty path'')
      | Some (Some path) \<Rightarrow> write_snapshot X (ent_address e) path (ent_snapshot e))
      (\<lambda>_. commit_entries X staged) s0 = (Ok u, t)"
    using assms by auto
  then obtain u2 s1 where step: "(case target of None \<Rightarrow> sret () | Some None \<Rightarrow> sfail (Io ''empty path'')
      | Some (Some path) \<Rightarrow> write_snapshot X (ent_address e) path (ent_snapshot e)) s0 = (Ok u2, s1)"
    and rest: "commit_entries X staged s1 = (Ok u, t)"
    by auto
  have s0: "\<forall>d. files (dir_at s0 d) = files (dir_at s d)"
    using wpD [OF ensure_address_marker_files marker] .
  show thesis
  proof (rule that [OF rest])
    show "target = None \<Longrightarrow> \<forall>d. files (dir_at s1 d) = files (dir_at s d)"
      using step s0 by simp
    show "target \<noteq> Some None" using step by auto
    fix path assume "target = Some (Some path)"
    then have "write_snapshot X (ent_address e) path (ent_snapshot e) s0 = (Ok u2, s1)"
      using step by simp
    from wpD [OF write_snapshot_files this] s0 show "\<forall>d. files (dir_at s1 d) =
       (if d = hashed_name X (ent_address e)
        then AList.update path (ent_snapshot e) (files (dir_at s d)) else files (dir_at s d))"
      by simp
  qed
qed

lemma stage_entry_cases:
  assumes "stage_entry clock c e (tabs, r) = Ok ((e', target), tabs', r')"
  obtains tab where "map_of tabs (ent_address e) = Some tab" "e' = e"
    "target = None \<Longrightarrow> tabs' = tabs"
    "target \<noteq> None \<Longrightarrow> tabs' = AList.update (ent_address e)
       (AList.update (extrinsic_hash (ent_snapshot e)) (None, ent_snapshot e) tab) tabs"
    "\<And>q. target = Some q \<Longrightarrow> (case map_of tab (extrinsic_hash (ent_snapshot e)) of
       None \<Rightarrow> q = Some (clock e, extrinsic_hash (ent_snapshot e)) | Some (p, _) \<Rightarrow> q = p)"
  using assms that
  by (cases "map_of tabs (ent_address e)")
    (auto simp: stage_entry_def Let_def split: if_splits option.splits prod.splits)

lemma stage_commit_simulates:
  assumes "stage_entries clock c es (tabs, r) = Ok (staged, tabs', r')"
    and "commit_entries X staged s = (Ok u, t)"
    and "all_simulated X tabs s" and "\<forall>e\<in>set es. unstaged tabs e"
    and "distinct (map entry_key es)" and "inj_on (hashed_name X) (fst ` set tabs)"
  shows "all_simulated X tabs' t"
  using assms
proof (induction es arbitrary: tabs r staged tabs' r' s)
  case Nil
  then show ?case by simp
next
  case (Cons e es)
  let ?a = "ent_address e" and ?snap = "ent_snapshot e" and ?h = "extrinsic_hash (ent_snapshot e)"
  from Cons.prems(1) obtain e' target tabs1 r1 rest where
    first: "stage_entry clock c e (tabs, r) = Ok ((e', target), tabs1, r1)"
    and more: "stage_entries clock c es (tabs1, r1) = Ok (rest, tabs', r')"
    and staged: "staged = (e', target) # rest"
    by (auto split: prod.splits)
  obtain tab where tab: "map_of tabs ?a = Some tab" and e': "e' = e"
    and skip: "target = None \<Longrightarrow> tabs1 = tabs"
    and put: "target \<noteq> None \<Longrightarrow> tabs1 = AList.update ?a (AList.update ?h (None, ?snap) tab) tabs"
    and path: "\<And>q. target = Some q \<Longrightarrow> (case map_of tab ?h of
       None \<Rightarrow> q = Some (clock e, ?h) | Some (p, _) \<Rightarrow> q = p)"
    using first by (rule stage_entry_cases) blast
  obtain s1 where commit: "commit_entries X rest s1 = (Ok u, t)"
    and keep: "target = None \<Longrightarrow> \<forall>d. files (dir_at s1 d) = files (dir_at s d)"
    and filed: "\<And>path. target = Some (Some path) \<Longrightarrow> \<forall>d. files (dir_at s1 d) =
       (if d = hashed_name X ?a then AList.update path ?snap (files (dir_at s d)) else files (dir_at s d))"
    and some: "target \<noteq> Some None"
    using Cons.prems(2) [unfolded staged e'] by (rule commit_target_ok) blast
  show ?case
  proof (cases target)
    case None
    have "all_simulated X tabs s1"
      using Cons.prems(3) keep [OF None] all_simulated_cong by blast
    then show ?thesis
      by (intro Cons.IH [OF more commit]) (use Cons.prems(4,5,6) skip [OF None] in auto)
  next
    case (Some q)
    with some obtain p where q: "target = Some (Some p)" by auto
    have dom: "fst ` set tabs1 = fst ` set tabs"
      using put q tab by (force simp: dom_update dest: map_of_SomeD)
    show ?thesis
    proof (rule Cons.IH [OF more commit])
      show "all_simulated X tabs1 s1"
        unfolding all_simulated_def
      proof (intro allI impI)
        fix b tb assume tb: "map_of tabs1 b = Some tb"
        then have "b \<in> fst ` set tabs" "?a \<in> fst ` set tabs"
          using dom tab by (force dest: map_of_SomeD)+
        with Cons.prems(6) have inj: "hashed_name X b = hashed_name X ?a \<longleftrightarrow> b = ?a"
          by (auto dest: inj_onD)
        show "simulates tb (address_files X b s1)"
        proof (cases "b = ?a")
          case True
          have "simulates (AList.update ?h (None, ?snap) tab) (AList.update p ?snap (address_files X ?a s))"
          proof (rule simulates_update)
            show "simulates tab (address_files X ?a s)"
              using Cons.prems(3) tab by (simp add: all_simulated_def)
            show "case map_of tab ?h of None \<Rightarrow> snd p = ?h | Some (q, _) \<Rightarrow> q = Some p"
              using path [OF q] by (auto split: option.splits)
          qed simp
          with True tb put q filed [OF q] show ?thesis by (simp add: update_conv')
        next
          case False
          with tb put q have "map_of tabs b = Some tb" by (simp add: update_conv')
          with Cons.prems(3) False inj filed [OF q] show ?thesis by (simp add: all_simulated_def)
        qed
      qed
      show "\<forall>e\<in>set es. unstaged tabs1 e"
      proof
        fix e2 assume e2: "e2 \<in> set es"
        then have "entry_key e2 \<noteq> entry_key e" using Cons.prems(5) by (metis distinct.simps(2) imageI list.set_map list.simps(9))
        moreover have "unstaged tabs e2" using Cons.prems(4) e2 by simp
        ultimately show "unstaged tabs1 e2"
          using put q tab by (auto simp: unstaged_def update_conv' entry_key_def split: if_splits)
      qed
    qed (use Cons.prems dom in auto)
  qed
qed

definition clean_files :: "(snap_path \<times> snapshot) list \<Rightarrow> bool" where
  "clean_files fs \<longleftrightarrow> named_files fs \<and> distinct (map (\<lambda>(path, snap). extrinsic_hash snap) fs)"

lemma load_table_clean:
  assumes "distinct (map (\<lambda>(path, snap). extrinsic_hash snap) fs)"
  shows "load_table fs = map (\<lambda>(path, snap). (extrinsic_hash snap, Some path, snap)) fs"
  using assms
proof (induction fs rule: rev_induct)
  case Nil
  then show ?case by (simp add: load_table_def)
next
  case (snoc x fs)
  obtain path snap where x: "x = (path, snap)" by fastforce
  from snoc have fresh: "extrinsic_hash snap \<notin> fst ` set (map (\<lambda>(path, snap). (extrinsic_hash snap, Some path, snap)) fs)"
    using x by auto
  have "load_table (fs @ [x]) = AList.update (extrinsic_hash snap) (Some path, snap) (load_table fs)"
    by (simp add: load_table_def x)
  with snoc x update_fresh [OF fresh] show ?case by simp
qed

lemma load_table_paths: "(h, None, snap) \<notin> set (load_table fs)"
proof (induction fs rule: rev_induct)
  case Nil
  then show ?case by (simp add: load_table_def)
next
  case (snoc x fs)
  obtain path c where x: "x = (path, c)" by fastforce
  have "load_table (fs @ [x]) = AList.update (extrinsic_hash c) (Some path, c) (load_table fs)"
    by (simp add: load_table_def x)
  with set_update_subset [of "extrinsic_hash c" "(Some path, c)" "load_table fs"] snoc
  show ?case by auto
qed

lemma load_table_simulates:
  assumes "clean_files (address_files X a s)"
  shows "simulates (load_table (snapshot_files X a s)) (address_files X a s)"
proof -
  let ?fs = "address_files X a s" and ?sorted = "snapshot_files X a s"
  have perm: "mset ?sorted = mset ?fs" by (simp add: snapshot_files_def)
  have "mset (map (\<lambda>(path, snap). extrinsic_hash snap) ?sorted) = mset (map (\<lambda>(path, snap). extrinsic_hash snap) ?fs)"
    by (simp only: mset_map perm)
  from mset_eq_imp_distinct_iff [OF this] have dist: "distinct (map (\<lambda>(path, snap). extrinsic_hash snap) ?sorted)"
    using assms by (simp add: clean_files_def)
  have keys: "map fst (load_table ?sorted) = map (\<lambda>(path, snap). extrinsic_hash snap) ?sorted"
    by (simp add: load_table_clean [OF dist] comp_def case_prod_beta)
  have "contents (load_table ?sorted) = by_name ?sorted"
    by (simp add: load_table_clean [OF dist] contents_def by_name_def comp_def case_prod_beta)
  then have "mset (contents (load_table ?sorted)) = mset (by_name ?fs)"
    by (simp only: by_name_def mset_map perm)
  moreover have "snd path = h \<and> (path, snap) \<in> set ?fs"
    if "map_of (load_table ?sorted) h = Some (Some path, snap)" for h path snap
  proof -
    have "(h, Some path, snap) \<in> set (load_table ?sorted)" using that by (rule map_of_SomeD)
    then have "(path, snap) \<in> set ?fs" "h = extrinsic_hash snap"
      by (auto simp: load_table_clean [OF dist])
    with assms show ?thesis by (auto simp: clean_files_def named_files_def)
  qed
  ultimately show ?thesis
    using assms dist by (simp add: simulates_def clean_files_def keys)
qed

lemma load_tables_spec:
  "wp (load_tables X addrs) (\<lambda>r t. (\<forall>d. dir_at t d = dir_at s d) \<and>
     (\<forall>tabs. r = Ok tabs \<longrightarrow> tabs = map (\<lambda>a. (a, load_table (snapshot_files X a s))) addrs)) s"
proof -
  have "wp (load_tables X addrs) (\<lambda>r t. (\<forall>d. dir_at t d = dir_at s d) \<and>
     (\<forall>tabs. r = Ok tabs \<longrightarrow> tabs = map (\<lambda>a. (a, load_table (snapshot_files X a s))) addrs)) u"
    if "\<forall>d. dir_at u d = dir_at s d" for u
    using that unfolding load_tables_def
  proof (induction addrs arbitrary: u)
    case Nil
    then show ?case by simp
  next
    case (Cons a addrs)
    have same: "snapshot_files X a u = snapshot_files X a s"
      using Cons.prems by (simp add: snapshot_files_def)
    show ?case
      unfolding straverse.simps wp_sbind
      by (rule wp_load; simp add: same)
        (rule wp_mono [OF Cons.IH], use Cons.prems in \<open>auto split: res.split\<close>)
  qed
  then show ?thesis by simp
qed

lemma import_success:
  assumes "apply_import_entries X clock addrs c entries s = (Ok r, t)"
    and "set addrs = ent_address ` set entries" "inj_on (hashed_name X) (set addrs)"
    and "\<forall>a\<in>set addrs. clean_files (address_files X a s)"
  obtains tabs where "all_simulated X tabs t"
    "\<And>a. a \<in> set addrs \<Longrightarrow> \<exists>tab. map_of tabs a = Some tab \<and> linear (map (snd \<circ> snd) tab)"
proof -
  from assms(1) obtain tabs s1 staged tabs' where
    dup: "reject_duplicate_entries [] entries = Ok ()"
    and load: "load_tables X addrs s = (Ok tabs, s1)"
    and stage: "stage_entries clock c entries (tabs, no_imports) = Ok (staged, tabs', r)"
    and check: "try_each (check_table tabs') addrs = Ok ()"
    and commit: "commit_entries X staged s1 = (Ok (), t)"
    by (auto simp: apply_import_entries_def simp del: try_each_Ok_iff split: prod.splits) (metis old.unit.exhaust)
  have s1: "\<forall>d. dir_at s1 d = dir_at s d" and tabs: "tabs = map (\<lambda>a. (a, load_table (snapshot_files X a s))) addrs"
    using wpD [OF load_tables_spec load] by auto
  have tabs_at: "map_of tabs a = Some tab \<longleftrightarrow> a \<in> set addrs \<and> tab = load_table (snapshot_files X a s)" for a tab
    unfolding tabs by (auto simp: map_of_map_restrict restrict_map_def)
  have "all_simulated X tabs s1"
    using assms(4) s1 load_table_simulates by (auto simp: all_simulated_def tabs_at)
  moreover have "unstaged tabs e" if "e \<in> set entries" for e
    unfolding unstaged_def
  proof (intro allI impI)
    fix tab d assume "map_of tabs (ent_address e) = Some tab"
    then have "clean_files (address_files X (ent_address e) s)"
      and tab: "tab = load_table (snapshot_files X (ent_address e) s)"
      using assms(4) by (auto simp: tabs_at)
    then have "simulates tab (address_files X (ent_address e) s)" using load_table_simulates by simp
    show "map_of tab (extrinsic_hash (ent_snapshot e)) \<noteq> Some (None, d)"
    proof
      assume "map_of tab (extrinsic_hash (ent_snapshot e)) = Some (None, d)"
      then have "(extrinsic_hash (ent_snapshot e), None, d) \<in> set tab" by (rule map_of_SomeD)
      then show False unfolding tab using load_table_paths by blast
    qed
  qed
  moreover have "distinct (map entry_key entries)"
  proof -
    have "reject_duplicate_entries seen es = Ok () \<Longrightarrow> distinct (map entry_key es) \<and> set seen \<inter> entry_key ` set es = {}" for seen es
      by (induction seen es rule: reject_duplicate_entries.induct) (auto split: if_splits)
    with dup show ?thesis by blast
  qed
  moreover have "fst ` set tabs = set addrs" by (auto simp: tabs image_image)
  ultimately have "all_simulated X tabs' t"
    using stage_commit_simulates [OF stage commit] assms(3) by simp
  moreover have "\<exists>tab. map_of tabs' a = Some tab \<and> linear (map (snd \<circ> snd) tab)" if "a \<in> set addrs" for a
  proof -
    have "check_table tabs' a = Ok ()" using check that by simp
    then obtain tab leaf where "map_of tabs' a = Some tab" "find_leaf (map (snd \<circ> snd) tab) = Ok leaf"
      by (auto simp: check_table_def split: option.splits res.splits ps_error.splits)
    then show ?thesis using find_leaf_linear by blast
  qed
  ultimately show thesis by (rule that)
qed

lemma simulates_linear:
  assumes "simulates tab (address_files X a t)" "linear (map (snd \<circ> snd) tab)"
  shows "linear (journal X a t)"
proof -
  have "mset (map snd (contents tab)) = mset (map snd (by_name (address_files X a t)))"
    using assms(1) by (simp add: simulates_def)
  then have "mset (map (snd \<circ> snd) tab) = mset (journal X a t)"
    by (simp only: contents_def by_name_def map_map comp_def case_prod_beta snd_conv mset_journal)
  with assms(2) show ?thesis by (simp add: linear_def)
qed


section \<open>Properties\<close>


definition demo_hash :: "char \<Rightarrow> string" where
  "demo_hash c = replicate 64 c"

definition demo_entry :: "string \<Rightarrow> char \<Rightarrow> string option \<Rightarrow> export_entry" where
  "demo_entry a c dep = \<lparr>ent_address = a, ent_snapshot = \<lparr>status = Pending,
     extrinsic_hash = demo_hash c, block_hash = None, block_height = None, depends_on = dep, data = []\<rparr>\<rparr>"


text \<open>
  C12: after an import that succeeds, the journal on disk of every address of the payload is one
  linear chain, under every conflict strategy, provided the destination directories are the
  store's own (one file per hash, named for it) and no two touched addresses share a hashed name.
\<close>

theorem import_leaves_linear_journals:
  assumes "apply_import_entries X clock addrs c entries s = (Ok r, t)"
    and "set addrs = ent_address ` set entries" "inj_on (hashed_name X) (set addrs)"
    and "\<forall>a\<in>set addrs. clean_files (address_files X a s)" and "b \<in> set addrs"
  shows "linear (journal X b t)"
proof -
  obtain tabs where sim: "all_simulated X tabs t"
    and lin: "\<And>a. a \<in> set addrs \<Longrightarrow> \<exists>tab. map_of tabs a = Some tab \<and> linear (map (snd \<circ> snd) tab)"
    using assms(1-4) by (rule import_success) blast
  from lin [OF assms(5)] obtain tab where "map_of tabs b = Some tab" "linear (map (snd \<circ> snd) tab)" by blast
  with sim show ?thesis unfolding all_simulated_def using simulates_linear by blast
qed

theorem import_leaves_linear_journals_witness:
  "linear (journal demo_host ''b'' (snd (apply_import_entries demo_host (\<lambda>_. 0) [''b''] ErrorOut
     [demo_entry ''b'' CHR ''2'' (Some (demo_hash CHR ''1'')), demo_entry ''b'' CHR ''1'' None] (demo_store []))))"
proof -
  let ?r = "apply_import_entries demo_host (\<lambda>_. 0) [''b''] ErrorOut
     [demo_entry ''b'' CHR ''2'' (Some (demo_hash CHR ''1'')), demo_entry ''b'' CHR ''1'' None] (demo_store [])"
  have "fst ?r = Ok \<lparr>imported = 2, skipped = 0, overwritten = 0\<rparr>" by code_simp
  then have r: "?r = (Ok \<lparr>imported = 2, skipped = 0, overwritten = 0\<rparr>, snd ?r)"
    by (metis prod.collapse)
  show ?thesis
    by (rule import_leaves_linear_journals [OF r])
      (simp_all add: demo_entry_def demo_store_def demo_host_def dir_at_def empty_dir_def
        clean_files_def named_files_def)
qed


text \<open>
  C17: what one export sealed, an import with the same password opens: the same records, in the
  same order, given that decoding undoes encoding for hex, base64, the cipher and serde.
\<close>

theorem open_seal:
  assumes "seal X C J salt_bytes nonce fmt ex records = Ok env"
    and "length salt_bytes = salt_len" "length nonce = nonce_len"
    and "\<And>b. hex_decode X (hex_encode X b) = Some b"
    and "\<And>b. base64_decode C (base64_encode C b) = Some b"
    and "\<And>key n aad m ct. aead_seal C key n aad m = Some ct \<Longrightarrow> aead_open C key n aad ct = Some m"
    and "\<And>rs. from_json J (to_json J rs) = Some rs"
    and "im_password im = ex_password ex" "length records \<le> im_max_entries im"
  shows "open_envelope X C J fmt env im = Ok records"
proof -
  from assms(1) obtain key ct where "derive_key C (ex_password ex) salt_bytes = Some key"
    "aead_seal C key nonce fmt (to_json J records) = Some ct"
    "env = \<lparr>format = fmt, salt = hex_encode X salt_bytes, ciphertext = base64_encode C (nonce @ ct)\<rparr>"
    by (auto simp: seal_def encrypt_def split: if_splits prod.splits)
  with assms(2-) show ?thesis
    by (simp add: open_envelope_def decrypt_def)
qed

definition demo_cipher :: cipher where
  "demo_cipher = \<lparr>derive_key = \<lambda>pw sb. Some sb, aead_seal = \<lambda>k n aad m. Some (rev m),
     aead_open = \<lambda>k n aad ct. Some (rev ct), base64_encode = map (\<lambda>b. char_of (unat b)),
     base64_decode = \<lambda>h. Some (map (\<lambda>c. of_nat (of_char c)) h)\<rparr>"

definition demo_codec :: "unit codec" where
  "demo_codec = \<lparr>to_json = \<lambda>rs. replicate (length rs) 0, from_json = \<lambda>b. Some (replicate (length b) ())\<rparr>"

lemma demo_bytes: "map (\<lambda>c. word_of_nat (of_char c)) (map (\<lambda>b. char_of (unat b)) xs) = (xs :: bytes)"
proof -
  have "word_of_nat (of_char (char_of (unat b) :: char)) = b" for b :: u8
  proof -
    have "unat b < 256" using unsigned_less [of b] by simp
    then show ?thesis by (simp add: take_bit_eq_mod)
  qed
  then show ?thesis by (simp add: comp_def)
qed

theorem open_seal_witness:
  "open_envelope demo_host demo_cipher demo_codec format_keys
     \<lparr>format = format_keys, salt = hex_encode demo_host (replicate 32 7),
      ciphertext = base64_encode demo_cipher (replicate 12 9 @ [0, 0])\<rparr>
     (import_options_new (replicate 16 0)) = Ok [(), ()]"
proof (rule open_seal [where salt_bytes = "replicate 32 7" and nonce = "replicate 12 9"
      and ex = "export_options_new (replicate 16 0)"])
  show "seal demo_host demo_cipher demo_codec (replicate 32 7) (replicate 12 9) format_keys
      (export_options_new (replicate 16 0)) [(), ()] = Ok
     \<lparr>format = format_keys, salt = hex_encode demo_host (replicate 32 7),
      ciphertext = base64_encode demo_cipher (replicate 12 9 @ [0, 0])\<rparr>"
    by (simp add: seal_def encrypt_def demo_cipher_def demo_codec_def export_options_new_def
        max_export_entries_def)
  show "from_json demo_codec (to_json demo_codec rs) = Some rs" for rs
    by (simp add: demo_codec_def) (metis (full_types) old.unit.exhaust replicate_eqI)
qed (auto simp: demo_host_def demo_cipher_def demo_bytes salt_len_def nonce_len_def
      import_options_new_def export_options_new_def max_export_entries_def simp del: map_map)

text \<open>
  C18: no envelope yields more records than the limit of 10 000 that guards the memory of the
  importer, whatever limit the caller asked for.
\<close>

theorem import_is_bounded:
  assumes "open_envelope X C J fmt env (import_with_max_entries m (import_options_new pw)) = Ok records"
  shows "length records \<le> 10000 \<and> length records \<le> m"
  using assms
  by (auto simp: open_envelope_def import_with_max_entries_def import_options_new_def
      max_export_entries_def split: if_splits)

theorem import_is_bounded_witness:
  "length [(), ()] \<le> 10000 \<and> length [(), ()] \<le> 2"
proof (rule import_is_bounded [where fmt = format_keys and X = demo_host and C = demo_cipher and J = demo_codec
      and env = "\<lparr>format = format_keys, salt = hex_encode demo_host (replicate 32 7),
      ciphertext = base64_encode demo_cipher (replicate 12 9 @ [0, 0])\<rparr>" and pw = "[]"])
  show "open_envelope demo_host demo_cipher demo_codec format_keys
    \<lparr>format = format_keys, salt = hex_encode demo_host (replicate 32 7),
      ciphertext = base64_encode demo_cipher (replicate 12 9 @ [0, 0])\<rparr>
    (import_with_max_entries 2 (import_options_new [])) = Ok [(), ()]"
    by code_simp
qed

text \<open>
  C19: an import of signing keys decides every record before the first write: when it is refused
  for a duplicate, a conflict or a bad envelope, no key and no private state has changed.
\<close>

theorem refused_key_import_changes_nothing:
  assumes "import_signing_keys X C J export opts s = (Err e, t)" and "\<not> env_error e"
  shows "states t = states s \<and> keys t = keys s"
proof -
  have env: "wp (straverse write_key krs) (\<lambda>r t. \<forall>e. r = Err e \<longrightarrow> env_error e) u" for krs u
  proof (induction krs arbitrary: u)
    case Nil
    then show ?case by simp
  next
    case (Cons kr krs)
    show ?case
      unfolding straverse.simps wp_sbind write_key_def [of kr]
      by (intro wp_io wp_write_atomic; simp)
        (intro wp_write_atomic; auto intro!: wp_mono [OF Cons.IH] split: res.split)
  qed
  have env: "straverse write_key krs u = (Err e, v) \<Longrightarrow> env_error e" for krs u v
    using wpD [OF env [of krs u]] by blast
  show ?thesis
    using assms env
    by (auto simp: import_signing_keys_def sbind_def sm_simps Let_def split: prod.splits res.splits)
qed

theorem refused_key_import_changes_nothing_witness:
  "keys (snd (import_signing_keys demo_host demo_cipher
     \<lparr>to_json = \<lambda>_. [], from_json = \<lambda>_. Some [\<lparr>key_address = ''a'', key_data = []\<rparr>, \<lparr>key_address = ''a'', key_data = [1]\<rparr>]\<rparr>
     \<lparr>format = format_keys, salt = hex_encode demo_host (replicate 32 7), ciphertext = base64_encode demo_cipher (replicate 12 9)\<rparr>
     (import_options_new []) (demo_store []))) = keys (demo_store [])"
proof -
  let ?r = "import_signing_keys demo_host demo_cipher
     \<lparr>to_json = \<lambda>_. [], from_json = \<lambda>_. Some [\<lparr>key_address = ''a'', key_data = []\<rparr>, \<lparr>key_address = ''a'', key_data = [1]\<rparr>]\<rparr>
     \<lparr>format = format_keys, salt = hex_encode demo_host (replicate 32 7), ciphertext = base64_encode demo_cipher (replicate 12 9)\<rparr>
     (import_options_new []) (demo_store [])"
  have "fst ?r = Err (InvalidFormat DuplicateKeys)" by code_simp
  then have "?r = (Err (InvalidFormat DuplicateKeys), snd ?r)" by (metis prod.collapse)
  from refused_key_import_changes_nothing [OF this] show ?thesis by simp
qed

end
