(* ===== verification/Sexp.thy ===== *)
theory Sexp
  imports Prelude
begin

text \<open>
  The datum reader of the analyzed IR, \<^verbatim>\<open>crates/compact/analyzed-ir/src/sexp.rs\<close>.

  A text is its UTF-8 bytes, one character per byte. The reader's state is the text that is
  left and the number of bytes read, \<^verbatim>\<open>src[pos..]\<close> and \<^verbatim>\<open>pos\<close> in the code. The mutual
  recursion of \<^verbatim>\<open>read\<close> and \<^verbatim>\<open>read_list\<close> is an open step function, \<open>read_step\<close>, iterated on
  a fuel argument; \<open>read_enough\<close> shows that twice the length of the text is enough.
\<close>

section \<open>Data\<close>

datatype sexp =
    SSym string
  | SStr string
  | SInt int
  | SBool bool
  | SBytes bytes
  | SList "sexp list"
  | SPair sexp sexp

fun as_sym :: "sexp \<Rightarrow> string option" where
  "as_sym (SSym s) = Some s"
| "as_sym _ = None"

fun as_list :: "sexp \<Rightarrow> sexp list option" where
  "as_list (SList l) = Some l"
| "as_list _ = None"

fun head_sym :: "sexp \<Rightarrow> string option" where
  "head_sym (SList (h # t)) = as_sym h"
| "head_sym _ = None"

datatype read_message =
    UnexpectedEnd | UnexpectedClose | UnterminatedList | ExpectedClose | DottedPair
  | UnterminatedString | UnterminatedEscape | UnterminatedHexEscape | NotScalar | UnknownEscape
  | UnterminatedBytes | ByteRange | NonIntegerByte | UnknownHash | EmptyToken | TrailingContent

record read_error =
  at :: nat
  message :: read_message

section \<open>Characters\<close>

definition ascii_whitespace :: "char \<Rightarrow> bool" where
  "ascii_whitespace c \<longleftrightarrow> c \<in> {CHR '' '', CHR 0x09, CHR 0x0A, CHR 0x0C, CHR 0x0D}"

definition is_delimiter :: "char \<Rightarrow> bool" where
  "is_delimiter c \<longleftrightarrow> ascii_whitespace c \<or>
     c \<in> {CHR ''('', CHR '')'', CHR ''['', CHR '']'', CHR 0x22, CHR '';''}"

definition ascii_digit :: "char \<Rightarrow> bool" where
  "ascii_digit c \<longleftrightarrow> 48 \<le> (of_char c :: nat) \<and> (of_char c :: nat) \<le> 57"

definition hex_digit :: "char \<Rightarrow> nat option" where
  "hex_digit c = (let n = of_char c in
     if 48 \<le> n \<and> n \<le> 57 then Some (n - 48)
     else if 97 \<le> n \<and> n \<le> 102 then Some (n - 87)
     else if 65 \<le> n \<and> n \<le> 70 then Some (n - 55)
     else None)"

text \<open>\<^verbatim>\<open>u32::from_str_radix(digits, 16)\<close>, which refuses the empty text and a value past the width.\<close>

definition hex_value :: "string \<Rightarrow> nat" where
  "hex_value ds = foldl (\<lambda>v d. 16 * v + the (hex_digit d)) 0 ds"

definition u32_from_hex :: "string \<Rightarrow> nat option" where
  "u32_from_hex ds = (if ds = [] \<or> 2 ^ 32 \<le> hex_value ds then None else Some (hex_value ds))"

text \<open>\<^verbatim>\<open>char::from_u32\<close>.\<close>

definition is_scalar :: "nat \<Rightarrow> bool" where
  "is_scalar n \<longleftrightarrow> n < 0xD800 \<or> (0xE000 \<le> n \<and> n < 0x110000)"

text \<open>\<^verbatim>\<open>String::push\<close>: the UTF-8 bytes of a scalar value.\<close>

definition utf8 :: "nat \<Rightarrow> string" where
  "utf8 n =
     (if n < 0x80 then [char_of n]
      else if n < 0x800 then [char_of (0xC0 + n div 64), char_of (0x80 + n mod 64)]
      else if n < 0x10000 then
        [char_of (0xE0 + n div 4096), char_of (0x80 + n div 64 mod 64), char_of (0x80 + n mod 64)]
      else
        [char_of (0xF0 + n div 262144), char_of (0x80 + n div 4096 mod 64),
         char_of (0x80 + n div 64 mod 64), char_of (0x80 + n mod 64)])"

section \<open>The reader's tokens\<close>

type_synonym reader = "string \<times> nat"

type_synonym 'a read = "(read_error, 'a \<times> reader) res"

definition fail_at :: "reader \<Rightarrow> read_message \<Rightarrow> (read_error, 'a) res" where
  "fail_at r m = Err \<lparr>at = snd r, message = m\<rparr>"

definition advance :: "nat \<Rightarrow> reader \<Rightarrow> reader" where
  "advance n r = (drop n (fst r), snd r + n)"

fun skip_ws :: "string \<Rightarrow> nat \<Rightarrow> reader" and skip_line :: "string \<Rightarrow> nat \<Rightarrow> reader" where
  "skip_ws [] p = ([], p)"
| "skip_ws (c # s) p =
     (if ascii_whitespace c then skip_ws s (p + 1)
      else if c = CHR '';'' then skip_line s (p + 1)
      else (c # s, p))"
| "skip_line [] p = ([], p)"
| "skip_line (c # s) p = (if c = CHR 0x0A then skip_ws s (p + 1) else skip_line s (p + 1))"

definition skip :: "reader \<Rightarrow> reader" where
  "skip r = skip_ws (fst r) (snd r)"

definition lone_dot :: "reader \<Rightarrow> bool" where
  "lone_dot r = (case fst r of c # d # _ \<Rightarrow> is_delimiter d | _ \<Rightarrow> True)"

fun strip_minus :: "string \<Rightarrow> string" where
  "strip_minus (c # s) = (if c = CHR ''-'' then s else c # s)"
| "strip_minus [] = []"

definition numeric :: "string \<Rightarrow> bool" where
  "numeric tok \<longleftrightarrow> strip_minus tok \<noteq> [] \<and> list_all ascii_digit (strip_minus tok)"

definition digits_value :: "string \<Rightarrow> int" where
  "digits_value ds = foldl (\<lambda>v d. 10 * v + (of_char d - 48)) 0 ds"

definition parse_int :: "string \<Rightarrow> int" where
  "parse_int tok = (if tok \<noteq> [] \<and> hd tok = CHR ''-'' then - digits_value (tl tok) else digits_value tok)"

definition read_atom :: "reader \<Rightarrow> sexp read" where
  "read_atom r =
     (let tok = takeWhile (\<lambda>c. \<not> is_delimiter c) (fst r) in
      if tok = [] then fail_at r EmptyToken
      else Ok (if numeric tok then SInt (parse_int tok) else SSym tok, advance (length tok) r))"

text \<open>
  \<^verbatim>\<open>read_escape\<close>, after the backslash: the bytes that are pushed. An error is placed after
  the bytes that were read.
\<close>

definition simple_escapes :: "(char \<times> nat) list" where
  "simple_escapes = [(CHR ''a'', 7), (CHR ''b'', 8), (CHR ''t'', 9), (CHR ''n'', 10),
     (CHR ''v'', 11), (CHR ''f'', 12), (CHR ''r'', 13), (CHR 0x22, 34), (CHR 0x5C, 92)]"

definition read_escape :: "reader \<Rightarrow> string read" where
  "read_escape r =
     (case fst r of
        [] \<Rightarrow> fail_at r UnterminatedEscape
      | c # _ \<Rightarrow>
          (case map_of simple_escapes c of
             Some n \<Rightarrow> Ok (utf8 n, advance 1 r)
           | None \<Rightarrow>
               if c = CHR ''x'' then
                 (let r1 = advance 1 r;
                      ds = takeWhile (\<lambda>d. hex_digit d \<noteq> None) (fst r1);
                      r2 = advance (length ds) r1
                  in case fst r2 of
                       [] \<Rightarrow> fail_at r2 UnterminatedHexEscape
                     | d # _ \<Rightarrow>
                         if d \<noteq> CHR '';'' then fail_at (advance 1 r2) UnterminatedHexEscape
                         else (case u32_from_hex ds of
                             Some n \<Rightarrow>
                               if is_scalar n then Ok (utf8 n, advance 1 r2)
                               else fail_at (advance 1 r2) NotScalar
                           | None \<Rightarrow> fail_at (advance 1 r2) NotScalar))
               else fail_at (advance 1 r) UnknownEscape))"

definition plain_char :: "char \<Rightarrow> bool" where
  "plain_char c \<longleftrightarrow> c \<noteq> CHR 0x22 \<and> c \<noteq> CHR 0x5C"

lemma advance_length: "length (fst (advance n r)) = length (fst r) - n"
  by (simp add: advance_def)

lemma drop_Cons_length: "drop n xs = y # ys \<Longrightarrow> length ys < length xs"
  by (drule arg_cong [where f = length]) simp

lemma read_escape_shorter:
  assumes "read_escape r = Ok (c, r')"
  shows "length (fst r') < length (fst r)"
  using assms
  by (auto simp: read_escape_def fail_at_def advance_def Let_def dest: drop_Cons_length
      split: list.splits option.splits if_splits)

text \<open>The loop of \<^verbatim>\<open>read_string\<close>, after the opening quote.\<close>

function read_chars :: "string \<Rightarrow> reader \<Rightarrow> sexp read" where
  "read_chars out r =
     (let chunk = takeWhile plain_char (fst r);
          r1 = advance (length chunk) r;
          out1 = out @ chunk
      in case fst r1 of
           [] \<Rightarrow> fail_at r1 UnterminatedString
         | c # _ \<Rightarrow>
             if c = CHR 0x22 then Ok (SStr out1, advance 1 r1)
             else rbind (read_escape (advance 1 r1)) (\<lambda>(e, r2). read_chars (out1 @ e) r2))"
  by pat_completeness auto
termination
  by (relation "measure (\<lambda>(out, r). length (fst r))")
    (auto dest!: read_escape_shorter drop_Cons_length simp: advance_def)

text \<open>The loop of \<^verbatim>\<open>read_hash\<close> for a byte vector.\<close>

definition byte_of_int :: "int \<Rightarrow> u8 option" where
  "byte_of_int i = (if 0 \<le> i \<and> i \<le> 255 then Some (word_of_int i) else None)"

lemma skip_ws_length: "length (fst (skip_ws s p)) \<le> length s" "length (fst (skip_line s p)) \<le> length s"
  by (induction s p and s p rule: skip_ws_skip_line.induct) auto

lemma skip_length: "length (fst (skip r)) \<le> length (fst r)"
  by (simp add: skip_def skip_ws_length)

lemma read_atom_shorter:
  assumes "read_atom r = Ok (a, r')"
  shows "length (fst r') < length (fst r)"
proof -
  have "fst r \<noteq> []" "takeWhile (\<lambda>c. \<not> is_delimiter c) (fst r) \<noteq> []"
    using assms by (auto simp: read_atom_def fail_at_def Let_def split: if_splits)
  then show ?thesis
    using assms by (auto simp: read_atom_def fail_at_def advance_length Let_def split: if_splits)
qed

function read_byte_items :: "bytes \<Rightarrow> reader \<Rightarrow> sexp read" where
  "read_byte_items bs r =
     (let r1 = skip r in
      case fst r1 of
        [] \<Rightarrow> fail_at r1 UnterminatedBytes
      | c # _ \<Rightarrow>
          if c = CHR '')'' then Ok (SBytes bs, advance 1 r1)
          else rbind (read_atom r1) (\<lambda>(a, r2).
            case a of
              SInt i \<Rightarrow>
                (case byte_of_int i of
                   Some b \<Rightarrow> read_byte_items (bs @ [b]) r2
                 | None \<Rightarrow> fail_at r2 ByteRange)
            | _ \<Rightarrow> fail_at r2 NonIntegerByte))"
  by pat_completeness auto
termination
proof (relation "measure (\<lambda>(bs, r). length (fst r))", goal_cases)
  case 1
  show ?case by simp
next
  case (2 bs r r1 c s ar a r2 i b)
  then show ?case using read_atom_shorter skip_length [of r] by fastforce
qed

declare read_chars.simps [simp del] read_byte_items.simps [simp del]

definition read_hash :: "reader \<Rightarrow> sexp read" where
  "read_hash r =
     (if strip_prefix ''#t'' (fst r) \<noteq> None then Ok (SBool True, advance 2 r)
      else if strip_prefix ''#f'' (fst r) \<noteq> None then Ok (SBool False, advance 2 r)
      else if strip_prefix ''#vu8('' (fst r) \<noteq> None then read_byte_items [] (advance 5 r)
      else fail_at r UnknownHash)"

section \<open>Datums\<close>

text \<open>
  The two mutually recursive readers, as one function on what is being read: a datum, or the
  rest of a list of which some items are read.
\<close>

datatype reading = Datum | Items "sexp list"

definition opens :: "char \<Rightarrow> bool" where "opens c \<longleftrightarrow> c = CHR ''('' \<or> c = CHR ''[''"
definition closes :: "char \<Rightarrow> bool" where "closes c \<longleftrightarrow> c = CHR '')'' \<or> c = CHR '']''"

definition read_datum :: "(reading \<times> reader \<Rightarrow> sexp read) \<Rightarrow> reader \<Rightarrow> sexp read" where
  "read_datum rec r0 =
     (let r = skip r0 in
      case fst r of
        [] \<Rightarrow> fail_at r UnexpectedEnd
      | c # _ \<Rightarrow>
          if opens c then rec (Items [], advance 1 r)
          else if closes c then fail_at r UnexpectedClose
          else if c = CHR 0x27 then
            rbind (rec (Datum, advance 1 r)) (\<lambda>(q, r1). Ok (SList [SSym ''quote'', q], r1))
          else if c = CHR 0x22 then read_chars [] (advance 1 r)
          else if c = CHR ''#'' then read_hash r
          else read_atom r)"

definition read_dotted :: "(reading \<times> reader \<Rightarrow> sexp read) \<Rightarrow> sexp list \<Rightarrow> reader \<Rightarrow> sexp read" where
  "read_dotted rec items r =
     rbind (rec (Datum, advance 1 r)) (\<lambda>(tl, r1).
     let r2 = skip r1 in
     case fst r2 of
       [] \<Rightarrow> fail_at r2 ExpectedClose
     | c # _ \<Rightarrow>
         if \<not> closes c then fail_at (advance 1 r2) ExpectedClose
         else if length items \<noteq> 1 then fail_at (advance 1 r2) DottedPair
         else Ok (SPair (hd items) tl, advance 1 r2))"

definition read_list :: "(reading \<times> reader \<Rightarrow> sexp read) \<Rightarrow> sexp list \<Rightarrow> reader \<Rightarrow> sexp read" where
  "read_list rec items r0 =
     (let r = skip r0 in
      case fst r of
        [] \<Rightarrow> fail_at r UnterminatedList
      | c # _ \<Rightarrow>
          if closes c then Ok (SList items, advance 1 r)
          else if c = CHR ''.'' \<and> lone_dot r then read_dotted rec items r
          else rbind (rec (Datum, r)) (\<lambda>(d, r1). rec (Items (items @ [d]), r1)))"

fun read_step :: "(reading \<times> reader \<Rightarrow> sexp read) \<Rightarrow> reading \<times> reader \<Rightarrow> sexp read" where
  "read_step rec (Datum, r) = read_datum rec r"
| "read_step rec (Items items, r) = read_list rec items r"

fun read_fuel :: "nat \<Rightarrow> reading \<times> reader \<Rightarrow> sexp read" where
  "read_fuel 0 x = NoFuel"
| "read_fuel (Suc n) x = read_step (read_fuel n) x"

definition read_one :: "string \<Rightarrow> (read_error, sexp) res" where
  "read_one src =
     rbind (read_fuel (2 * length src + 2) (Datum, (src, 0))) (\<lambda>(d, r).
     let r1 = skip r in
     if fst r1 \<noteq> [] then fail_at r1 TrailingContent else Ok d)"


section \<open>Fuel\<close>

lemma approx_case_prod [approx_intros]:
  "(\<And>a b. approx (f a b) (f' a b)) \<Longrightarrow> approx (case x of (a, b) \<Rightarrow> f a b) (case x of (a, b) \<Rightarrow> f' a b)"
  by (cases x) simp

lemma approx_Let: "(\<And>x. approx (f x) (f' x)) \<Longrightarrow> approx (Let v f) (Let v f')"
  by simp

lemma approx_case_list [approx_intros]:
  "approx m m' \<Longrightarrow> (\<And>c s. approx (f c s) (f' c s)) \<Longrightarrow>
   approx (case xs of [] \<Rightarrow> m | c # s \<Rightarrow> f c s) (case xs of [] \<Rightarrow> m' | c # s \<Rightarrow> f' c s)"
  by (cases xs) simp_all

lemma read_step_approx:
  assumes "\<And>x. approx (rec x) (rec' x)"
  shows "approx (read_step rec x) (read_step rec' x)"
proof -
  have "approx (read_datum rec r) (read_datum rec' r)" for r
    unfolding read_datum_def by (intro approx_Let approx_intros assms)
  moreover have "approx (read_dotted rec items r) (read_dotted rec' items r)" for items r
    unfolding read_dotted_def by (intro approx_Let approx_intros assms)
  then have "approx (read_list rec items r) (read_list rec' items r)" for items r
    unfolding read_list_def by (intro approx_Let approx_intros assms)
  ultimately show ?thesis by (cases x; cases "fst x") auto
qed

interpretation reader: fuelled "\<lambda>r. r = NoFuel" read_fuel
proof
  show "read_fuel 0 x = NoFuel" for x by simp
next
  fix n m x
  assume "\<And>y. read_fuel n y = NoFuel \<or> read_fuel n y = read_fuel m y"
  then have "approx (read_fuel n y) (read_fuel m y)" for y by (simp add: approx_def)
  from read_step_approx [OF this] show "read_fuel (Suc n) x = NoFuel \<or> read_fuel (Suc n) x = read_fuel (Suc m) x"
    by (simp add: approx_def)
qed

lemma fail_at_simps [simp]: "fail_at r m \<noteq> NoFuel" "fail_at r m \<noteq> Panic" "fail_at r m \<noteq> Ok a"
  by (simp_all add: fail_at_def)

lemma case_fail_simps [simp]:
  "(case xs of [] \<Rightarrow> fail_at r m | c # s \<Rightarrow> f c s) = Ok x \<longleftrightarrow> (\<exists>c s. xs = c # s \<and> f c s = Ok x)"
  "(case xs of [] \<Rightarrow> fail_at r m | c # s \<Rightarrow> f c s) = NoFuel \<longleftrightarrow> (\<exists>c s. xs = c # s \<and> f c s = NoFuel)"
  "(case v of None \<Rightarrow> fail_at r m | Some b \<Rightarrow> g b) = Ok x \<longleftrightarrow> (\<exists>b. v = Some b \<and> g b = Ok x)"
  "(case v of None \<Rightarrow> fail_at r m | Some b \<Rightarrow> g b) = NoFuel \<longleftrightarrow> (\<exists>b. v = Some b \<and> g b = NoFuel)"
  "(case a of SInt i \<Rightarrow> h i | _ \<Rightarrow> fail_at r m) = Ok x \<longleftrightarrow> (\<exists>i. a = SInt i \<and> h i = Ok x)"
  "(case a of SInt i \<Rightarrow> h i | _ \<Rightarrow> fail_at r m) = NoFuel \<longleftrightarrow> (\<exists>i. a = SInt i \<and> h i = NoFuel)"
  by (simp_all split: list.split option.split sexp.split)

lemma read_byte_items_shorter:
  "read_byte_items bs r = Ok (d, r') \<Longrightarrow> length (fst r') < length (fst r)"
proof (induction bs r rule: read_byte_items.induct)
  case (1 bs r)
  note le = skip_length [of r]
  show ?case
  proof (cases "fst (skip r)")
    case Nil
    with "1.prems" show ?thesis by (simp add: read_byte_items.simps [of bs])
  next
    case (Cons c s)
    show ?thesis
    proof (cases "c = CHR '')''")
      case True
      with "1.prems" Cons le show ?thesis by (auto simp: advance_def read_byte_items.simps [of bs])
    next
      case False
      with "1.prems" Cons obtain i r2 b where
        r2: "read_atom (skip r) = Ok (SInt i, r2)" "byte_of_int i = Some b"
        and "read_byte_items (bs @ [b]) r2 = Ok (d, r')"
        by (auto simp: read_byte_items.simps [of bs])
      with 1(1) [OF refl Cons False _ refl refl] have "length (fst r') < length (fst r2)" by blast
      with read_atom_shorter [OF r2(1)] le show ?thesis by simp
    qed
  qed
qed

lemma read_chars_shorter: "read_chars out r = Ok (d, r') \<Longrightarrow> length (fst r') < length (fst r)"
proof (induction out r rule: read_chars.induct)
  case (1 out r)
  let ?r1 = "advance (length (takeWhile plain_char (fst r))) r"
  show ?case
  proof (cases "fst ?r1")
    case Nil
    with "1.prems" show ?thesis by (simp add: read_chars.simps [of out])
  next
    case (Cons c s)
    then have le: "length s < length (fst r)" by (auto simp: advance_def dest: drop_Cons_length)
    show ?thesis
    proof (cases "c = CHR 0x22")
      case True
      with "1.prems" Cons le show ?thesis
        by (auto simp: read_chars.simps [of out] Let_def) (simp add: advance_def)
    next
      case False
      with "1.prems" Cons obtain e r2 where e: "read_escape (advance 1 ?r1) = Ok (e, r2)"
        and "read_chars ((out @ takeWhile plain_char (fst r)) @ e) r2 = Ok (d, r')"
        by (auto simp: read_chars.simps [of out] Let_def)
      with 1(1) [OF refl refl refl Cons False _ refl] have "length (fst r') < length (fst r2)" by blast
      moreover have "length (fst r2) < length (fst (advance 1 ?r1))"
        using e by (rule read_escape_shorter)
      ultimately show ?thesis using Cons le by (simp add: advance_length)
    qed
  qed
qed

lemma read_hash_shorter: "read_hash r = Ok (d, r') \<Longrightarrow> length (fst r') < length (fst r)"
  by (auto simp: read_hash_def advance_def split: if_splits dest!: read_byte_items_shorter)

lemma read_fuel_shorter: "read_fuel n (g, r) = Ok (d, r') \<Longrightarrow> length (fst r') < length (fst r)"
proof (induction n arbitrary: g r d r')
  case (Suc n)
  note le = skip_length [of r]
  note IH = Suc.IH
  show ?case
  proof (cases g)
    case Datum
    show ?thesis
    proof (cases "fst (skip r)")
      case (Cons c s)
      with le have "length s < length (fst r)" by simp
      with Suc.prems Datum Cons le show ?thesis
        by (auto simp: read_datum_def Let_def advance_def split: if_splits
            dest!: IH read_chars_shorter read_hash_shorter read_atom_shorter)
    qed (use Suc.prems Datum in \<open>simp add: read_datum_def\<close>)
  next
    case (Items items)
    show ?thesis
    proof (cases "fst (skip r)")
      case (Cons c s)
      with le have s: "length s < length (fst r)" by simp
      have dotted: "length (fst r') < length (fst r)"
        if "read_dotted (read_fuel n) items (skip r) = Ok (d, r')"
      proof -
        from that obtain tl r1 where r1: "read_fuel n (Datum, advance 1 (skip r)) = Ok (tl, r1)"
          and r': "r' = advance 1 (skip r1)"
          by (auto simp: read_dotted_def Let_def split: if_splits)
        show ?thesis using IH [OF r1] skip_length [of r1] s Cons by (simp add: r' advance_def)
      qed
      with Suc.prems Items Cons le s show ?thesis
        by (auto simp: read_list_def Let_def advance_def split: if_splits dest!: IH)
    qed (use Suc.prems Items in \<open>simp add: read_list_def\<close>)
  qed
qed simp

fun read_measure :: "reading \<times> reader \<Rightarrow> nat" where
  "read_measure (Datum, r) = 2 * length (fst r) + 1"
| "read_measure (Items items, r) = 2 * length (fst r) + 2"

lemma read_byte_items_total: "read_byte_items bs r \<noteq> NoFuel"
proof (induction bs r rule: read_byte_items.induct)
  case (1 bs r)
  have "read_atom q \<noteq> NoFuel" for q by (simp add: read_atom_def Let_def)
  then show ?case
    using 1 by (fastforce simp: read_byte_items.simps [of bs] Let_def rbind_NoFuel_iff split: if_splits)
qed

lemma read_chars_total: "read_chars out r \<noteq> NoFuel"
proof (induction out r rule: read_chars.induct)
  case (1 out r)
  have "read_escape q \<noteq> NoFuel" for q
    by (simp add: read_escape_def Let_def split: list.split option.split)
  then show ?case
    using 1 by (fastforce simp: read_chars.simps [of out] Let_def rbind_NoFuel_iff split: if_splits)
qed

lemma read_enough: "read_measure x \<le> n \<Longrightarrow> read_fuel n x \<noteq> NoFuel"
proof (induction n arbitrary: x)
  case 0
  then show ?case by (cases x; cases "fst x") auto
next
  case (Suc n)
  note IH = Suc.IH
  obtain g r where x: "x = (g, r)" by (cases x)
  note le = skip_length [of r]
  have atom: "read_atom q \<noteq> NoFuel" for q by (simp add: read_atom_def Let_def)
  have hash: "read_hash q \<noteq> NoFuel" for q by (simp add: read_hash_def read_byte_items_total)
  show ?case
  proof (cases "fst (skip r)")
    case Nil
    with x show ?thesis
      by (cases g) (simp_all add: read_datum_def read_list_def)
  next
    case (Cons c s)
    with le have s: "length s < length (fst r)" "fst (advance 1 (skip r)) = s" by (simp_all add: advance_def)
    show ?thesis
    proof (cases g)
      case Datum
      with Suc.prems x s have "read_fuel n (Datum, advance 1 (skip r)) \<noteq> NoFuel"
        "read_fuel n (Items [], advance 1 (skip r)) \<noteq> NoFuel"
        by (intro IH; simp)+
      with x Datum Cons atom hash read_chars_total show ?thesis
        by (auto simp: read_datum_def Let_def rbind_NoFuel_iff)
    next
      case (Items items)
      have d: "read_fuel n (Datum, advance 1 (skip r)) \<noteq> NoFuel" "read_fuel n (Datum, skip r) \<noteq> NoFuel"
        using Suc.prems x Items s le by (intro IH; simp)+
      have more: "read_fuel n (Items items', r1) \<noteq> NoFuel"
        if "read_fuel n (Datum, skip r) = Ok (e, r1)" for e r1 items'
        using Suc.prems x Items le read_fuel_shorter [OF that] by (intro IH) simp
      have "read_dotted (read_fuel n) items (skip r) \<noteq> NoFuel"
        using d by (auto simp: read_dotted_def Let_def rbind_NoFuel_iff split: list.split)
      with x Items Cons d more show ?thesis
        by (auto simp: read_list_def Let_def rbind_NoFuel_iff)
    qed
  qed
qed


section \<open>Printing\<close>

fun show_nat :: "nat \<Rightarrow> string" where
  "show_nat n = (if n < 10 then [char_of (48 + n)] else show_nat (n div 10) @ [char_of (48 + n mod 10)])"

declare show_nat.simps [simp del]

definition show_int :: "int \<Rightarrow> string" where
  "show_int i = (if i < 0 then CHR ''-'' # show_nat (nat (- i)) else show_nat (nat i))"

text \<open>
  \<^verbatim>\<open>Display for Sexp\<close>. A string is printed with Rust's \<^verbatim>\<open>{:?}\<close>, which depends on the
  Unicode tables of the standard library: the parameter \<open>debug\<close>.
\<close>

fun display :: "(string \<Rightarrow> string) \<Rightarrow> sexp \<Rightarrow> string"
  and display_items :: "(string \<Rightarrow> string) \<Rightarrow> sexp list \<Rightarrow> string" where
  "display debug (SSym s) = s"
| "display debug (SStr s) = debug s"
| "display debug (SInt i) = show_int i"
| "display debug (SBool b) = (if b then ''#t'' else ''#f'')"
| "display debug (SBytes b) = ''#vu8(..'' @ show_nat (length b) @ '' bytes..)''"
| "display debug (SList l) = ''('' @ display_items debug l @ '')''"
| "display debug (SPair a b) = ''('' @ display debug a @ '' . '' @ display debug b @ '')''"
| "display_items debug [] = ''''"
| "display_items debug (e # es) = display debug e @ (if es = [] then '''' else '' '' @ display_items debug es)"

section \<open>Reading back what was printed\<close>

lemma of_char_digit: "n < 10 \<Longrightarrow> (of_char (char_of (48 + n) :: char) :: nat) = 48 + n"
  by (simp add: take_bit_eq_mod)

lemma show_nat_digits: "list_all ascii_digit (show_nat n) \<and> show_nat n \<noteq> []"
proof (induction n rule: show_nat.induct)
  case (1 n)
  have "ascii_digit (char_of (48 + n mod 10))"
    unfolding ascii_digit_def by (subst (1 2) of_char_digit) simp_all
  moreover have "n < 10 \<Longrightarrow> ascii_digit (char_of (48 + n))"
    unfolding ascii_digit_def by (subst (1 2) of_char_digit) simp_all
  ultimately show ?case using 1 by (subst (1 2) show_nat.simps) simp
qed

lemma digits_value_snoc: "digits_value (ds @ [d]) = 10 * digits_value ds + (of_char d - 48)"
  by (simp add: digits_value_def)

lemma of_char_int: "(of_char c :: int) = int (of_char c)"
  by (cases c) (simp add: of_nat_of_bool)

lemma digits_value_show: "digits_value (show_nat n) = int n"
proof (induction n rule: show_nat.induct)
  case (1 n)
  have d: "(of_char (char_of (48 + k) :: char) :: int) - 48 = int k" if "k < 10" for k
    using of_char_digit [OF that] by (simp add: of_char_int)
  show ?case
  proof (cases "n < 10")
    case True
    then show ?thesis by (subst show_nat.simps) (simp add: digits_value_def d)
  next
    case False
    have "digits_value (show_nat n) = 10 * int (n div 10) + int (n mod 10)"
      using 1 False by (subst show_nat.simps) (simp add: digits_value_snoc d)
    also have "\<dots> = int (10 * (n div 10) + n mod 10)"
      by (simp only: of_nat_add of_nat_mult of_nat_numeral)
    finally show ?thesis by (simp only: mult_div_mod_eq)
  qed
qed

text \<open>What a printed datum looks like to the reader.\<close>

definition plain_symbol :: "string \<Rightarrow> bool" where
  "plain_symbol s \<longleftrightarrow> s \<noteq> [] \<and> list_all (\<lambda>c. \<not> is_delimiter c) s \<and> \<not> numeric s \<and>
     hd s \<noteq> CHR 0x27 \<and> hd s \<noteq> CHR ''#'' \<and> s \<noteq> ''.''"

fun readable :: "sexp \<Rightarrow> bool" where
  "readable (SSym s) = plain_symbol s"
| "readable (SInt i) = True"
| "readable (SBool b) = True"
| "readable (SList l) = list_all readable l"
| "readable (SPair a b) \<longleftrightarrow> readable a \<and> readable b"
| "readable _ = False"

definition token_start :: "string \<Rightarrow> bool" where
  "token_start s \<longleftrightarrow> s \<noteq> [] \<and> \<not> ascii_whitespace (hd s) \<and> hd s \<noteq> CHR '';'' \<and> \<not> closes (hd s) \<and>
     (hd s = CHR ''.'' \<longrightarrow> tl s \<noteq> [] \<and> \<not> is_delimiter (hd (tl s)))"

lemma not_delimiter:
  "\<not> is_delimiter c \<Longrightarrow> \<not> ascii_whitespace c \<and> c \<noteq> CHR '';'' \<and> \<not> closes c \<and> \<not> opens c \<and> c \<noteq> CHR 0x22"
  by (auto simp: is_delimiter_def closes_def opens_def)

lemma ten_digits: "48 \<le> n \<Longrightarrow> n \<le> (57 :: nat) \<Longrightarrow> n = 48 \<or> n = 49 \<or> n = 50 \<or> n = 51 \<or> n = 52 \<or>
    n = 53 \<or> n = 54 \<or> n = 55 \<or> n = 56 \<or> n = 57"
  by presburger

lemma ascii_digit_cases:
  assumes "ascii_digit c"
  shows "c \<in> set ''0123456789''"
proof -
  let ?n = "of_char c :: nat"
  have "?n = 48 \<or> ?n = 49 \<or> ?n = 50 \<or> ?n = 51 \<or> ?n = 52 \<or> ?n = 53 \<or> ?n = 54 \<or>
      ?n = 55 \<or> ?n = 56 \<or> ?n = 57"
    using assms ten_digits unfolding ascii_digit_def by blast
  moreover have "c = char_of ?n" by simp
  moreover have "char_of (48 :: nat) = CHR ''0''" "char_of (49 :: nat) = CHR ''1''"
    "char_of (50 :: nat) = CHR ''2''" "char_of (51 :: nat) = CHR ''3''" "char_of (52 :: nat) = CHR ''4''"
    "char_of (53 :: nat) = CHR ''5''" "char_of (54 :: nat) = CHR ''6''" "char_of (55 :: nat) = CHR ''7''"
    "char_of (56 :: nat) = CHR ''8''" "char_of (57 :: nat) = CHR ''9''"
    by code_simp+
  ultimately show ?thesis by (elim disjE) (simp_all del: char_of_char)
qed

lemma digit_not_delimiter: "ascii_digit c \<Longrightarrow> \<not> is_delimiter c \<and> c \<noteq> CHR ''-''"
  by (drule ascii_digit_cases) (auto simp: is_delimiter_def ascii_whitespace_def)

lemma show_int_token:
  "list_all (\<lambda>c. \<not> is_delimiter c) (show_int i)" "show_int i \<noteq> []" "numeric (show_int i)"
  "parse_int (show_int i) = i" "hd (show_int i) \<in> set ''-0123456789''"
proof -
  obtain c s where s: "show_nat (nat \<bar>i\<bar>) = c # s" using show_nat_digits by (cases "show_nat (nat \<bar>i\<bar>)") auto
  have digits: "list_all ascii_digit (show_nat n)" "show_nat n \<noteq> []" for n
    using show_nat_digits by blast+
  have c: "ascii_digit c" using digits(1) [of "nat \<bar>i\<bar>"] s by simp
  have minus: "\<not> is_delimiter CHR ''-''" by (simp add: is_delimiter_def ascii_whitespace_def)
  show "list_all (\<lambda>c. \<not> is_delimiter c) (show_int i)"
    using digits(1) digit_not_delimiter minus by (auto simp: show_int_def list_all_iff)
  show "show_int i \<noteq> []" using digits(2) by (simp add: show_int_def)
  have val: "digits_value (c # s) = \<bar>i\<bar>" using digits_value_show [of "nat \<bar>i\<bar>"] s by simp
  show "numeric (show_int i)" "parse_int (show_int i) = i" "hd (show_int i) \<in> set ''-0123456789''"
    using s c val digits(1) [of "nat \<bar>i\<bar>"] digit_not_delimiter [OF c] ascii_digit_cases [OF c]
    by (auto simp: show_int_def numeric_def parse_int_def split: if_splits)
qed

lemma display_token: "readable s \<Longrightarrow> token_start (display debug s @ rest) \<and> display debug s \<noteq> []"
proof (cases s)
  case (SSym t)
  assume "readable s"
  with SSym have t: "plain_symbol t" by simp
  then obtain c u where u: "t = c # u" by (cases t) (auto simp: plain_symbol_def)
  with t have c: "\<not> is_delimiter c" by (simp add: plain_symbol_def)
  have "c = CHR ''.'' \<Longrightarrow> \<exists>d v. u = d # v \<and> \<not> is_delimiter d"
    using t u by (cases u) (auto simp: plain_symbol_def)
  with c u SSym not_delimiter [OF c] show ?thesis by (auto simp: token_start_def)
next
  case (SInt i)
  have "hd (show_int i @ rest) \<in> set ''-0123456789''"
    using show_int_token(2,5) by simp
  with SInt show_int_token(2) show ?thesis
    by (auto simp: token_start_def ascii_whitespace_def closes_def)
qed (auto simp: token_start_def ascii_whitespace_def closes_def)

lemma skip_token: "token_start s \<Longrightarrow> skip (s, p) = (s, p)"
  by (cases s) (auto simp: token_start_def skip_def)

lemma skip_space: "token_start s \<Longrightarrow> skip (CHR '' '' # s, p) = (s, p + 1)"
  using skip_token [of s] by (simp add: skip_def ascii_whitespace_def)

definition stops :: "string \<Rightarrow> bool" where
  "stops rest \<longleftrightarrow> rest = [] \<or> is_delimiter (hd rest)"

lemma read_token:
  assumes "list_all (\<lambda>c. \<not> is_delimiter c) tok" "tok \<noteq> []" "stops rest"
  shows "read_atom (tok @ rest, p) =
    Ok (if numeric tok then SInt (parse_int tok) else SSym tok, (rest, p + length tok))"
proof -
  have "takeWhile (\<lambda>c. \<not> is_delimiter c) (tok @ rest) = tok"
    using assms by (cases rest) (auto simp: stops_def list_all_iff takeWhile_append2)
  with assms(2) show ?thesis by (simp add: read_atom_def advance_def)
qed

definition reads :: "reading \<times> reader \<Rightarrow> sexp \<times> reader \<Rightarrow> bool" where
  "reads x y \<longleftrightarrow> (\<exists>N. \<forall>n\<ge>N. read_fuel n x = Ok y)"

lemma readsI: "(\<And>n. N \<le> n \<Longrightarrow> read_fuel (Suc n) x = Ok y) \<Longrightarrow> reads x y"
  unfolding reads_def by (metis Suc_le_D Suc_le_mono)

lemma reads_datum_skip:
  assumes "skip r = skip r'" "reads (Datum, r) y"
  shows "reads (Datum, r') y"
proof -
  from assms(2) obtain N where N: "\<forall>n\<ge>N. read_fuel n (Datum, r) = Ok y" by (auto simp: reads_def)
  have "read_fuel (Suc n) (Datum, r') = read_fuel (Suc n) (Datum, r)" for n
    by (simp add: read_datum_def assms(1))
  with N have "read_fuel (Suc n) (Datum, r') = Ok y" if "N \<le> n" for n
    using that by (metis le_SucI)
  then show ?thesis by (rule readsI)
qed

lemma reads_item:
  assumes "token_start s" "reads (Datum, (s, p)) (d, r1)" "reads (Items (items @ [d]), r1) y"
    and "skip r = (s, p)"
  shows "reads (Items items, r) y"
proof -
  from assms(2,3) obtain N M where
    n: "\<forall>n\<ge>N. read_fuel n (Datum, (s, p)) = Ok (d, r1)" and m: "\<forall>n\<ge>M. read_fuel n (Items (items @ [d]), r1) = Ok y"
    by (auto simp: reads_def)
  obtain c t where s: "s = c # t" using assms(1) by (cases s) (auto simp: token_start_def)
  have dot: "c = CHR ''.'' \<Longrightarrow> \<not> lone_dot (s, p)"
    using assms(1) s by (cases t) (auto simp: token_start_def lone_dot_def)
  have "read_fuel (Suc n) (Items items, r) = Ok y" if "max N M \<le> n" for n
    using that n m s assms(1,4) dot by (auto simp: read_list_def token_start_def Let_def)
  then show ?thesis by (rule readsI)
qed

lemma reads_close: "skip r = (CHR '')'' # rest, p) \<Longrightarrow> reads (Items items, r) (SList items, (rest, p + 1))"
  by (rule readsI [of 0]) (simp add: read_list_def closes_def advance_def)

lemma reads_items:
  assumes "list_all readable xs"
    and "\<And>x rest p. x \<in> set xs \<Longrightarrow> stops rest \<Longrightarrow>
      reads (Datum, (display debug x @ rest, p)) (x, (rest, p + length (display debug x)))"
    and "skip r = (display_items debug xs @ CHR '')'' # rest, p)"
  shows "reads (Items items, r) (SList (items @ xs), (rest, p + length (display_items debug xs) + 1))"
  using assms
proof (induction xs arbitrary: items r p)
  case Nil
  then show ?case using reads_close by fastforce
next
  case (Cons x xs)
  let ?tail = "(if xs = [] then '''' else '' '' @ display_items debug xs) @ CHR '')'' # rest"
  have start: "token_start (display debug x @ ?tail)" using Cons.prems(1) display_token by auto
  have stop: "stops ?tail" by (simp add: stops_def is_delimiter_def ascii_whitespace_def)
  have first: "reads (Datum, (display debug x @ ?tail, p)) (x, (?tail, p + length (display debug x)))"
    by (rule Cons.prems(2)) (simp_all add: stop)
  have "reads (Items (items @ [x]), (?tail, p + length (display debug x)))
      (SList ((items @ [x]) @ xs), (rest, p + length (display_items debug (x # xs)) + 1))"
  proof (cases "xs = []")
    case True
    then have "skip (?tail, p + length (display debug x)) = (CHR '')'' # rest, p + length (display debug x))"
      by (simp add: skip_def ascii_whitespace_def)
    from reads_close [OF this, of "items @ [x]"] True show ?thesis by simp
  next
    case False
    then obtain y ys where xs: "xs = y # ys" by (cases xs) auto
    have "token_start (display_items debug xs @ CHR '')'' # rest)"
      using Cons.prems(1) xs display_token [of y debug] by simp
    from skip_space [OF this] False have
      "skip (?tail, p + length (display debug x)) =
        (display_items debug xs @ CHR '')'' # rest, p + length (display debug x) + 1)" by simp
    from Cons.IH [OF _ _ this, of "items @ [x]"] Cons.prems(1,2) False show ?thesis
      by (simp add: algebra_simps)
  qed
  from reads_item [OF start first this] Cons.prems(3) show ?case by simp
qed

lemma stops_delim: "stops (CHR '')'' # rest)" "stops (CHR '' '' # rest)"
  by (simp_all add: stops_def is_delimiter_def ascii_whitespace_def)

lemma reads_pair:
  assumes a: "reads (Datum, (sa @ '' . '' @ sb @ CHR '')'' # rest, p)) (a, ('' . '' @ sb @ CHR '')'' # rest, q))"
    and b: "reads (Datum, (sb @ CHR '')'' # rest, q + 3)) (b, (CHR '')'' # rest, u))"
    and starts: "token_start (sa @ '' . '' @ sb @ CHR '')'' # rest)" "token_start (sb @ CHR '')'' # rest)"
  shows "reads (Items [], (sa @ '' . '' @ sb @ CHR '')'' # rest, p)) (SPair a b, (rest, u + 1))"
proof -
  let ?tail = "sb @ CHR '')'' # rest"
  have sp: "skip (CHR '' '' # ?tail, q + 2) = (?tail, q + 3)"
    using skip_space [OF starts(2), of "q + 2"] by simp
  have same: "skip (CHR '' '' # ?tail, q + 2) = skip (?tail, q + 3)"
    using sp skip_token [OF starts(2)] by simp
  have "reads (Datum, (CHR '' '' # ?tail, q + 2)) (b, (CHR '')'' # rest, u))"
    by (rule reads_datum_skip [OF same [symmetric] b])
  then obtain N where N: "\<forall>n\<ge>N. read_fuel n (Datum, (CHR '' '' # ?tail, q + 2)) = Ok (b, (CHR '')'' # rest, u))"
    by (auto simp: reads_def)
  have dot: "skip (CHR '' '' # CHR ''.'' # CHR '' '' # ?tail, q) = (CHR ''.'' # CHR '' '' # ?tail, q + 1)"
    by (simp add: skip_def ascii_whitespace_def)
  have close: "skip (CHR '')'' # rest, u) = (CHR '')'' # rest, u)"
    by (simp add: skip_def ascii_whitespace_def)
  have lone: "lone_dot (''. '' @ ?tail, q + 1)"
    by (simp add: lone_dot_def is_delimiter_def ascii_whitespace_def)
  have "reads (Items [a], ('' . '' @ ?tail, q)) (SPair a b, (rest, u + 1))"
  proof (rule readsI)
    fix n assume "N \<le> n"
    then have "read_fuel n (Datum, advance 1 (''. '' @ ?tail, q + 1)) = Ok (b, (CHR '')'' # rest, u))"
      using N by (simp add: advance_def)
    then show "read_fuel (Suc n) (Items [a], ('' . '' @ ?tail, q)) = Ok (SPair a b, (rest, u + 1))"
      using lone by (simp add: read_list_def dot read_dotted_def close closes_def)
        (simp add: advance_def)
  qed
  with a show ?thesis
    by (intro reads_item [OF starts(1) a _ skip_token [OF starts(1)]]) simp
qed

lemma reads_display:
  "readable s \<Longrightarrow> stops rest \<Longrightarrow>
   reads (Datum, (display debug s @ rest, p)) (s, (rest, p + length (display debug s)))"
proof (induction s arbitrary: rest p)
  case (SSym t)
  then have t: "plain_symbol t" and start: "token_start (t @ rest)"
    using display_token [of "SSym t" debug rest] by simp_all
  then obtain c u where u: "t = c # u" by (cases t) (auto simp: plain_symbol_def)
  have "read_atom (t @ rest, p) = Ok (SSym t, (rest, p + length t))"
    using read_token [of t rest p] t SSym.prems(2) by (simp add: plain_symbol_def)
  then show ?case
    using t u not_delimiter [of c] skip_token [OF start]
    by (intro readsI [of 0]) (simp add: read_datum_def plain_symbol_def)
next
  case (SInt i)
  obtain c u where u: "show_int i = c # u" using show_int_token(2) by (cases "show_int i") auto
  have start: "token_start (show_int i @ rest)" using display_token [of "SInt i" debug rest] by simp
  have "c \<in> set ''-0123456789''" using show_int_token(5) [of i] u by simp
  moreover have "\<not> is_delimiter c" using show_int_token(1) [of i] u by simp
  moreover have "read_atom (show_int i @ rest, p) = Ok (SInt i, (rest, p + length (show_int i)))"
    using read_token [OF show_int_token(1,2) SInt.prems(2), of i p] show_int_token(3,4) by simp
  ultimately show ?case
    using u not_delimiter [of c] skip_token [OF start]
    by (intro readsI [of 0]) (auto simp: read_datum_def)
next
  case (SBool b)
  then show ?case
    by (intro readsI [of 0])
      (simp add: read_datum_def skip_def ascii_whitespace_def opens_def closes_def read_hash_def advance_def)
next
  case (SList l)
  have "skip (display_items debug l @ CHR '')'' # rest, p + 1) = (display_items debug l @ CHR '')'' # rest, p + 1)"
  proof (cases l)
    case Nil
    then show ?thesis by (simp add: skip_def ascii_whitespace_def)
  next
    case (Cons x xs)
    then show ?thesis using SList.prems(1) display_token [of x debug] by (simp add: skip_token)
  qed
  from reads_items [OF _ _ this, of "[]"] SList
  have "reads (Items [], (display_items debug l @ CHR '')'' # rest, p + 1))
      (SList l, (rest, p + 1 + length (display_items debug l) + 1))"
    by (simp add: list_all_iff)
  then obtain N where "\<forall>n\<ge>N. read_fuel n (Items [], (display_items debug l @ CHR '')'' # rest, p + 1)) =
      Ok (SList l, (rest, p + 1 + length (display_items debug l) + 1))"
    by (auto simp: reads_def)
  then show ?case
    by (intro readsI [of N])
      (simp add: read_datum_def skip_def ascii_whitespace_def opens_def advance_def)
next
  case (SPair a b)
  let ?sa = "display debug a" and ?sb = "display debug b"
  let ?tail = "?sb @ CHR '')'' # rest"
  have starts: "token_start (?sa @ '' . '' @ ?tail)" "token_start ?tail"
    using SPair.prems(1) display_token [of a debug] display_token [of b debug] by simp_all
  have "reads (Datum, (?sa @ '' . '' @ ?tail, p + 1)) (a, ('' . '' @ ?tail, p + 1 + length ?sa))"
    using SPair.prems(1) by (intro SPair.IH(1)) (simp_all add: stops_delim)
  moreover have "reads (Datum, (?tail, p + 1 + length ?sa + 3)) (b, (CHR '')'' # rest, p + 1 + length ?sa + 3 + length ?sb))"
    using SPair.prems(1) by (intro SPair.IH(2)) (simp_all add: stops_delim)
  ultimately have "reads (Items [], (?sa @ '' . '' @ ?tail, p + 1))
      (SPair a b, (rest, p + 1 + length ?sa + 3 + length ?sb + 1))"
    using starts by (rule reads_pair)
  then obtain N where "\<forall>n\<ge>N. read_fuel n (Items [], (?sa @ '' . '' @ ?tail, p + 1)) =
      Ok (SPair a b, (rest, p + 1 + length ?sa + 3 + length ?sb + 1))"
    by (auto simp: reads_def)
  then show ?case
    by (intro readsI [of N])
      (simp add: read_datum_def skip_def ascii_whitespace_def opens_def advance_def algebra_simps)
qed simp_all

lemma atom_no_panic [simp]: "read_atom r \<noteq> Panic"
  by (simp add: read_atom_def Let_def)

lemma case_fail_panic [simp]:
  "(case xs of [] \<Rightarrow> fail_at r m | c # s \<Rightarrow> f c s) = Panic \<longleftrightarrow> (\<exists>c s. xs = c # s \<and> f c s = Panic)"
  "(case v of None \<Rightarrow> fail_at r m | Some b \<Rightarrow> g b) = Panic \<longleftrightarrow> (\<exists>b. v = Some b \<and> g b = Panic)"
  "(case a of SInt i \<Rightarrow> h i | _ \<Rightarrow> fail_at r m) = Panic \<longleftrightarrow> (\<exists>i. a = SInt i \<and> h i = Panic)"
  by (simp_all split: list.split option.split sexp.split)

lemma bytes_no_panic: "read_byte_items bs r \<noteq> Panic"
proof (induction bs r rule: read_byte_items.induct)
  case (1 bs r)
  then show ?case
    by (fastforce simp: read_byte_items.simps [of bs] Let_def rbind_Panic_iff split: if_splits)
qed

lemma chars_no_panic: "read_chars out r \<noteq> Panic"
proof (induction out r rule: read_chars.induct)
  case (1 out r)
  have "read_escape q \<noteq> Panic" for q
    by (simp add: read_escape_def Let_def split: list.split option.split)
  then show ?case
    using 1 by (fastforce simp: read_chars.simps [of out] Let_def rbind_Panic_iff split: if_splits)
qed

lemma read_no_panic: "read_fuel n x \<noteq> Panic"
proof (induction n arbitrary: x)
  case (Suc n)
  obtain g r where "x = (g, r)" by (cases x)
  with Suc show ?case
    by (cases g) (auto simp: read_datum_def read_list_def read_dotted_def read_hash_def Let_def
        rbind_Panic_iff bytes_no_panic chars_no_panic)
qed simp

section \<open>Properties\<close>

lemma read_one_answers: "read_one src \<noteq> NoFuel" "read_one src \<noteq> Panic"
proof -
  have "read_fuel (2 * length src + 2) (Datum, (src, 0)) \<noteq> NoFuel" by (rule read_enough) simp
  then show "read_one src \<noteq> NoFuel" by (auto simp: read_one_def rbind_NoFuel_iff Let_def)
  show "read_one src \<noteq> Panic"
    using read_no_panic by (auto simp: read_one_def rbind_Panic_iff Let_def simp del: read_fuel.simps)
qed




end
