(* ===== verification/IrModel.thy ===== *)
theory IrModel
  imports Prelude
begin

text \<open>
  The analyzed IR of a Compact contract, \<^verbatim>\<open>crates/compact/analyzed-ir/src/model.rs\<close>: the
  types, the expressions, the instructions with their operands, and the program elements. A
  \<^verbatim>\<open>u64\<close> of the code is a 64-bit word, a \<^verbatim>\<open>BigUint\<close> a natural number, a \<^verbatim>\<open>BigInt\<close> an
  integer, and a text its UTF-8 bytes. The types that the code nests in an expression (operands,
  instructions, arguments of tuples, maps and folds, path elements) take the type of expressions
  as a parameter, so that only \<open>expr\<close> is recursive through them.
\<close>

section \<open>Identifiers\<close>

type_synonym ident = string

definition all_digits :: "string \<Rightarrow> bool" where
  "all_digits s \<longleftrightarrow> list_all (\<lambda>c. 48 \<le> (of_char c :: nat) \<and> (of_char c :: nat) \<le> 57) s"

text \<open>\<^verbatim>\<open>Ident::name\<close>: without the leading \<^verbatim>\<open>%\<close> and a numeric suffix after the last dot.\<close>

definition ident_name :: "ident \<Rightarrow> string" where
  "ident_name i =
     (let s = (case i of c # t \<Rightarrow> if c = CHR ''%'' then t else i | [] \<Rightarrow> i);
          suffix = rev (takeWhile (\<lambda>c. c \<noteq> CHR ''.'') (rev s))
      in if length suffix < length s \<and> all_digits suffix
         then take (length s - length suffix - 1) s else s)"

section \<open>Types\<close>

datatype curve = Jubjub | Secp256k1 | Secp256r1 | Curve25519

datatype field_type = FNative | FBase curve | FScalar curve

datatype ty =
    TyBoolean
  | TyField field_type
  | TyUnsigned nat
  | TyPoint curve
  | TyBytes u64
  | TyOpaque string
  | TyVector u64 ty
  | TyTuple "ty list"
  | TyStruct string "(string \<times> ty) list"
  | TyEnum string "string list"
  | TyAlias bool string ty
  | TyContract string "contract_circuit list"
  | TyAdt string "adt_arg list"
  | TyVar string
  | TyUnknown
and adt_arg = AdtNat u64 | AdtType ty
and contract_circuit = ContractCircuit string bool "ty list" ty

definition unit_ty :: ty where
  "unit_ty = TyTuple []"

definition contract_address_ty :: ty where
  "contract_address_ty = TyStruct ''ContractAddress'' [(''bytes'', TyBytes 32)]"

fun resolved :: "ty \<Rightarrow> ty" where
  "resolved (TyAlias nominal name t) = resolved t"
| "resolved t = t"

definition is_unit :: "ty \<Rightarrow> bool" where
  "is_unit t = (case resolved t of TyTuple ts \<Rightarrow> ts = [] | _ \<Rightarrow> False)"

text \<open>\<^verbatim>\<open>BigUint::bits\<close>: the length of the binary representation, zero for zero.\<close>

fun nat_bits :: "nat \<Rightarrow> nat" where
  "nat_bits n = (if n = 0 then 0 else nat_bits (n div 2) + 1)"

declare nat_bits.simps [simp del]

definition div_ceil :: "nat \<Rightarrow> nat \<Rightarrow> nat" where
  "div_ceil a b = (a + b - 1) div b"

definition uint_byte_width :: "nat \<Rightarrow> nat" where
  "uint_byte_width maxval = (if nat_bits maxval = 0 then 1 else div_ceil (nat_bits maxval) 8)"

section \<open>Instructions and expressions\<close>

datatype literal = LInt int | LBool bool | LBytes bytes

record argument =
  arg_name :: ident
  arg_ty :: ty

datatype op_class = Plain string | CoinCheck string u64 u64

datatype op_name =
    OpAdd | OpAddi | OpAnd | OpBranch | OpCkpt | OpConcat | OpDup | OpEq | OpIdx | OpIns | OpJmp
  | OpLog | OpLt | OpMember | OpNeg | OpNew | OpNoop | OpOr | OpPop | OpPopeq | OpPush | OpRem
  | OpRoot | OpSize | OpSub | OpSubi | OpSwap | OpType
  | OpUnknown string

definition op_table :: "(op_name \<times> string) list" where
  "op_table =
    [(OpAdd, ''add''), (OpAddi, ''addi''), (OpAnd, ''and''), (OpBranch, ''branch''), (OpCkpt, ''ckpt''),
     (OpConcat, ''concat''), (OpDup, ''dup''), (OpEq, ''eq''), (OpIdx, ''idx''), (OpIns, ''ins''),
     (OpJmp, ''jmp''), (OpLog, ''log''), (OpLt, ''lt''), (OpMember, ''member''), (OpNeg, ''neg''),
     (OpNew, ''new''), (OpNoop, ''noop''), (OpOr, ''or''), (OpPop, ''pop''), (OpPopeq, ''popeq''),
     (OpPush, ''push''), (OpRem, ''rem''), (OpRoot, ''root''), (OpSize, ''size''), (OpSub, ''sub''),
     (OpSubi, ''subi''), (OpSwap, ''swap''), (OpType, ''type'')]"

fun op_as_str :: "op_name \<Rightarrow> string" where
  "op_as_str (OpUnknown name) = name"
| "op_as_str op = the (map_of op_table op)"

definition op_from_str :: "string \<Rightarrow> op_name" where
  "op_from_str name =
     (case find (\<lambda>(op, s). s = name) op_table of Some (op, s) \<Rightarrow> op | None \<Rightarrow> OpUnknown name)"

datatype (plugins only: code size) 'o state_value =
    SvNull
  | SvCell 'o
  | SvAdt 'o ty
  | SvArray "'o list"
  | SvMap "('o \<times> 'o) list"
  | SvMerkleTree u64 "('o \<times> 'o) list"

datatype 'o instruction = Instruction (ins_op: op_name) (ins_args: "(string \<times> 'o) list")
datatype 'e tuple_arg = Single 'e | Spread u64 'e
datatype 'e map_arg = MapArg (ma_expr: 'e) (ma_ty: ty) (ma_element_ty: ty)
datatype 'e ir_fun = FunRef ident | FunCircuit "argument list" ty 'e
datatype 'e path_element = PathIndex u64 | PathComputed ty 'e

datatype (plugins only: code size) 'e operand =
    OInt int
  | OBool bool
  | OStr string
  | OAlign nat u64
  | OStack
  | OVoid
  | OValueToInt "'e operand"
  | ONull ty
  | OMaxSizeof ty
  | OAdd "'e operand" "'e operand"
  | OLeafHash "'e operand"
  | OCoinCommit "'e operand" "'e operand"
  | OAlignedConcat "'e operand list"
  | OStateValue "'e operand state_value"
  | OExpr 'e
  | OList "'e operand list"

datatype (plugins only: code size) expr =
    EQuote literal
  | EVarRef ident
  | EDefault ty
  | EIf expr expr expr
  | EEltRef expr string u64
  | EEnumRef ty string
  | ETuple "expr tuple_arg list"
  | EVectorLit "expr tuple_arg list"
  | ETupleRef expr u64
  | ETupleSlice ty expr u64 u64
  | EVectorRef ty expr expr
  | EVectorSlice ty expr expr u64
  | EBytesRef ty expr expr
  | EBytesSlice ty expr expr u64
  | EAdd ty expr expr
  | ESub ty expr expr
  | EMul ty expr expr
  | ELt u64 expr expr
  | ELe u64 expr expr
  | EGt u64 expr expr
  | EGe u64 expr expr
  | EEq ty expr expr
  | ENeq ty expr expr
  | EMap u64 "expr ir_fun" "expr map_arg list"
  | EFold u64 "expr ir_fun" expr ty "expr map_arg list"
  | ECall ident "expr list"
  | ENew ty "expr list"
  | ESeq "expr list"
  | ELetStar "(argument \<times> expr) list" expr
  | EAssert expr string
  | EFieldToBytes u64 field_type expr
  | ECastFromBytes ty u64 expr
  | EVectorToBytes u64 expr
  | EBytesToVector u64 expr
  | ECastFromEnum ty ty expr
  | ECastToEnum ty ty expr
  | ECastToField field_type ty expr
  | ECastFromField nat field_type expr
  | ESafeCast ty ty expr
  | EDowncastUnsigned nat nat expr
  | EContractCall string expr ty "expr list"
  | EEmit u64 u64 u64 expr "expr operand instruction list"
  | EPublicLedger ident op_class "expr path_element list" string ty "expr operand instruction list" "expr list"
  | EReturn expr

definition instruction_arg :: "'o instruction \<Rightarrow> string \<Rightarrow> 'o option" where
  "instruction_arg i name = map_option snd (find (\<lambda>(n, v). n = name) (ins_args i))"

section \<open>Programs\<close>

record circuit =
  cir_name :: ident
  cir_exported :: bool
  cir_pure :: bool
  cir_proof :: bool
  cir_arguments :: "argument list"
  cir_result_type :: ty
  cir_body :: expr

record native =
  nat_name :: ident
  nat_entry :: string
  nat_class :: string
  nat_type_arguments :: "ty list"
  nat_arguments :: "argument list"
  nat_result_type :: ty

record witness_decl =
  wit_name :: ident
  wit_arguments :: "argument list"
  wit_result_type :: ty

record ledger_binding =
  lb_name :: ident
  lb_path :: "u64 list"
  lb_exported :: bool
  lb_ty :: ty

record constructor_decl =
  con_arguments :: "argument list"
  con_body :: expr

record ledger_declaration =
  ld_fields :: "ledger_binding list"
  ld_constructor :: constructor_decl

datatype program_element =
    PCircuit circuit
  | PNative native
  | PWitness witness_decl
  | PKernelDeclaration ledger_binding
  | PPublicLedger ledger_declaration
  | PExportTypedef string "string list" ty

record analyzed_ir =
  ir_compiler_version :: string
  ir_language_version :: string
  ir_runtime_version :: string
  ir_exports :: "(string \<times> ident) list"
  ir_contract_types :: "ty list"
  ir_elements :: "program_element list"

definition ir_circuits :: "analyzed_ir \<Rightarrow> circuit list" where
  "ir_circuits ir = List.map_filter (\<lambda>e. case e of PCircuit c \<Rightarrow> Some c | _ \<Rightarrow> None) (ir_elements ir)"

definition ir_circuit :: "analyzed_ir \<Rightarrow> string \<Rightarrow> circuit option" where
  "ir_circuit ir exported =
     (case find (\<lambda>(n, target). n = exported) (ir_exports ir) of
        None \<Rightarrow> None
      | Some (n, target) \<Rightarrow> find (\<lambda>c. cir_name c = target) (ir_circuits ir))"

definition ir_ledger :: "analyzed_ir \<Rightarrow> ledger_declaration option" where
  "ir_ledger ir = find_map (\<lambda>e. case e of PPublicLedger l \<Rightarrow> Some l | _ \<Rightarrow> None) (ir_elements ir)"

section \<open>Lemmas\<close>

lemma resolved_idem [simp]: "resolved (resolved t) = resolved t"
  by (induction t rule: resolved.induct) auto

lemma resolved_not_alias [simp]: "resolved t \<noteq> TyAlias nominal name u"
  by (induction t rule: resolved.induct) auto

lemma nat_bits_zero [simp]: "nat_bits 0 = 0"
  by (simp add: nat_bits.simps)

lemma nat_bits_bound: "n < 2 ^ nat_bits n"
proof (induction n rule: nat_bits.induct)
  case (1 n)
  show ?case
  proof (cases "n = 0")
    case False
    with 1 have "n div 2 < 2 ^ nat_bits (n div 2)" by simp
    then have "n < 2 * 2 ^ nat_bits (n div 2)" by linarith
    with False show ?thesis by (subst nat_bits.simps) simp
  qed simp
qed

lemma nat_bits_least: "n < 2 ^ k \<Longrightarrow> nat_bits n \<le> k"
proof (induction n arbitrary: k rule: nat_bits.induct)
  case (1 n)
  show ?case
  proof (cases "n = 0")
    case False
    with 1 obtain j where k: "k = Suc j" by (cases k) auto
    with 1 have "n div 2 < 2 ^ j" by simp
    with 1 False have "nat_bits (n div 2) \<le> j" by blast
    with False k show ?thesis by (subst nat_bits.simps) simp
  qed simp
qed

lemma uint_byte_width_pos: "1 \<le> uint_byte_width m"
proof (cases "nat_bits m = 0")
  case False
  then have "8 \<le> nat_bits m + 7" by simp
  then have "0 < (nat_bits m + 7) div 8" by (simp only: div_greater_zero_iff) simp
  with False show ?thesis by (simp add: uint_byte_width_def div_ceil_def)
qed (simp add: uint_byte_width_def)

lemma uint_byte_width_holds: "m < 256 ^ uint_byte_width m"
proof -
  have "m < 2 ^ nat_bits m" by (rule nat_bits_bound)
  also have "\<dots> \<le> 2 ^ (8 * uint_byte_width m)"
    by (rule power_increasing) (auto simp: uint_byte_width_def div_ceil_def)
  also have "\<dots> = (256 :: nat) ^ uint_byte_width m" by (simp add: power_mult)
  finally show ?thesis .
qed

lemma uint_byte_width_fewest:
  assumes "1 \<le> k" "m < 256 ^ k" shows "uint_byte_width m \<le> k"
proof -
  have "m < 2 ^ (8 * k)" using assms(2) by (simp add: power_mult)
  then have "nat_bits m \<le> 8 * k" by (rule nat_bits_least)
  then show ?thesis using assms(1) by (auto simp: uint_byte_width_def div_ceil_def)
qed

text \<open>
  C27: the byte width that the compiler gives an unsigned type is the least positive number of
  bytes that hold its largest value, for every bound, zero included.
\<close>

theorem uint_byte_width_least: "uint_byte_width m = (LEAST k. 1 \<le> k \<and> m < 256 ^ k)"
  by (rule Least_equality [symmetric])
    (use uint_byte_width_pos uint_byte_width_holds uint_byte_width_fewest in blast)+

end
