(* ===== verification/IrParse.thy ===== *)
theory IrParse
  imports IrModel Sexp
begin

text \<open>
  From datums to the model, \<^verbatim>\<open>crates/compact/analyzed-ir/src/parse.rs\<close>.

  An element access \<^verbatim>\<open>&l[i]\<close> past the end of a list panics in the code, and so does a tail
  \<^verbatim>\<open>l[i..]\<close> whose start is past the end: \<^const>\<open>index_or_panic\<close> and
  \<^const>\<open>tail_or_panic\<close>. The readers of types, operands and expressions recurse into the
  elements of a datum, which \<open>&l[i]\<close> hides from structural recursion: they are node functions
  with the recursive readers as arguments, iterated on a fuel argument. The depth of the datum
  is enough fuel (\<open>parse_ty_total\<close>, \<open>parse_expr_total\<close>).
\<close>

section \<open>Errors and elementary readers\<close>

text \<open>The message of an error, reduced to what it says and its context.\<close>

datatype parse_error =
    Unrecognized string
  | ExpectedSymbol string
  | ExpectedString string
  | ExpectedBoolean string
  | ExpectedNatural string
  | ExpectedInteger string
  | NaturalRange string
  | ExpectedList string
  | ExpectedKey string string
  | Headless string
  | Missing string
  | ReadError read_error

type_synonym 'a parsed = "(parse_error, 'a) res"

definition unrecognized :: "string \<Rightarrow> 'a parsed" where
  "unrecognized ctx = Err (Unrecognized ctx)"

definition p_sym :: "sexp \<Rightarrow> string \<Rightarrow> string parsed" where
  "p_sym s ctx = ok_or (ExpectedSymbol ctx) (as_sym s)"

definition p_ident :: "sexp \<Rightarrow> string \<Rightarrow> ident parsed" where
  "p_ident s ctx = p_sym s ctx"

definition p_string :: "sexp \<Rightarrow> string \<Rightarrow> string parsed" where
  "p_string s ctx = (case s of SStr v \<Rightarrow> Ok v | _ \<Rightarrow> Err (ExpectedString ctx))"

definition p_boolean :: "sexp \<Rightarrow> string \<Rightarrow> bool parsed" where
  "p_boolean s ctx = (case s of SBool b \<Rightarrow> Ok b | _ \<Rightarrow> Err (ExpectedBoolean ctx))"

definition p_big_nat :: "sexp \<Rightarrow> string \<Rightarrow> nat parsed" where
  "p_big_nat s ctx =
     (case s of
        SInt i \<Rightarrow> if 0 \<le> i then Ok (nat i) else Err (ExpectedNatural ctx)
      | _ \<Rightarrow> Err (ExpectedInteger ctx))"

definition p_nat :: "sexp \<Rightarrow> string \<Rightarrow> u64 parsed" where
  "p_nat s ctx =
     rbind (p_big_nat s ctx) (\<lambda>n. if n < 2 ^ 64 then Ok (of_nat n) else Err (NaturalRange ctx))"

definition p_list :: "sexp \<Rightarrow> string \<Rightarrow> sexp list parsed" where
  "p_list s ctx = ok_or (ExpectedList ctx) (as_list s)"

definition p_fixed :: "nat \<Rightarrow> sexp \<Rightarrow> string \<Rightarrow> sexp list parsed" where
  "p_fixed n s ctx = rbind (p_list s ctx) (\<lambda>l. if length l = n then Ok l else unrecognized ctx)"

definition p_keyed :: "sexp \<Rightarrow> string \<Rightarrow> string \<Rightarrow> sexp parsed" where
  "p_keyed s key ctx =
     rbind (p_list s ctx) (\<lambda>l.
     case l of
       [h, v] \<Rightarrow> if as_sym h = Some key then Ok v else Err (ExpectedKey ctx key)
     | _ \<Rightarrow> Err (ExpectedKey ctx key))"

definition p_tagged :: "sexp \<Rightarrow> string \<Rightarrow> string \<Rightarrow> sexp list parsed" where
  "p_tagged s head ctx =
     rbind (p_list s ctx) (\<lambda>l.
     case l of
       h # rest \<Rightarrow> if as_sym h = Some head then Ok rest else unrecognized ctx
     | [] \<Rightarrow> unrecognized ctx)"

text \<open>The first element as a symbol: \<^verbatim>\<open>l.first().and_then(Sexp::as_sym)\<close>.\<close>

definition first_sym :: "sexp list \<Rightarrow> string option" where
  "first_sym l = (case l of h # _ \<Rightarrow> as_sym h | [] \<Rightarrow> None)"

section \<open>Element access\<close>

text \<open>\<^verbatim>\<open>rd(&l[i])?\<close> and \<^verbatim>\<open>l[i..].iter().map(rd).collect()?\<close>.\<close>

definition p_at :: "sexp list \<Rightarrow> nat \<Rightarrow> (sexp \<Rightarrow> 'a parsed) \<Rightarrow> 'a parsed" where
  "p_at l i rd = rbind (index_or_panic l i) rd"

definition p_from :: "sexp list \<Rightarrow> nat \<Rightarrow> (sexp \<Rightarrow> 'a parsed) \<Rightarrow> 'a list parsed" where
  "p_from l i rd = rbind (tail_or_panic l i) (traverse rd)"

section \<open>Types\<close>

definition p_curve :: "sexp \<Rightarrow> curve parsed" where
  "p_curve s =
     (if head_sym s = Some ''curve-jubjub'' then Ok Jubjub
      else if head_sym s = Some ''curve-secp256k1'' then Ok Secp256k1
      else if head_sym s = Some ''curve-secp256r1'' then Ok Secp256r1
      else if head_sym s = Some ''curve-curve25519'' then Ok Curve25519
      else unrecognized ''curve'')"

definition p_field_type :: "sexp \<Rightarrow> field_type parsed" where
  "p_field_type s =
     rbind (p_list s ''field-type'') (\<lambda>l.
     if first_sym l = Some ''field-native'' then Ok FNative
     else if first_sym l = Some ''field-base'' then
       rmap FBase (p_at l 1 p_curve)
     else if first_sym l = Some ''field-scalar'' then
       rmap FScalar (p_at l 1 p_curve)
     else unrecognized ''field-type'')"

definition p_adt_arg :: "(sexp \<Rightarrow> ty parsed) \<Rightarrow> sexp \<Rightarrow> adt_arg parsed" where
  "p_adt_arg rty s =
     (case s of SInt i \<Rightarrow> rmap AdtNat (p_nat s ''adt-arg'') | _ \<Rightarrow> rmap AdtType (rty s))"

definition p_contract_circuit :: "(sexp \<Rightarrow> ty parsed) \<Rightarrow> sexp \<Rightarrow> contract_circuit parsed" where
  "p_contract_circuit rty s =
     rbind (p_fixed 4 s ''contract circuit'') (\<lambda>l.
     rbind (p_sym (l ! 0) ''contract circuit name'') (\<lambda>name.
     rbind (p_boolean (l ! 1) ''contract circuit pure'') (\<lambda>pure.
     rbind (p_list (l ! 2) ''contract circuit args'') (\<lambda>args.
     rbind (traverse rty args) (\<lambda>argument_types.
     rbind (rty (l ! 3)) (\<lambda>result_type.
     Ok (ContractCircuit name pure argument_types result_type)))))))"

definition p_struct_field :: "(sexp \<Rightarrow> ty parsed) \<Rightarrow> sexp \<Rightarrow> (string \<times> ty) parsed" where
  "p_struct_field rty f =
     rbind (p_fixed 2 f ''tstruct field'') (\<lambda>l.
     rbind (p_sym (l ! 0) ''tstruct field name'') (\<lambda>name.
     rbind (rty (l ! 1)) (\<lambda>t. Ok (name, t))))"

definition p_ty_struct :: "(sexp \<Rightarrow> ty parsed) \<Rightarrow> sexp list \<Rightarrow> ty parsed" where
  "p_ty_struct rty l =
     rbind (p_at l 1 (\<lambda>n. p_sym n ''tstruct name'')) (\<lambda>name.
     rbind (p_from l 2 (p_struct_field rty)) (\<lambda>fields. Ok (TyStruct name fields)))"

definition p_ty_enum :: "sexp list \<Rightarrow> ty parsed" where
  "p_ty_enum l =
     rbind (p_at l 1 (\<lambda>n. p_sym n ''tenum name'')) (\<lambda>name.
     rbind (p_from l 2 (\<lambda>v. p_sym v ''tenum variant'')) (\<lambda>variants. Ok (TyEnum name variants)))"

definition p_ty_alias :: "(sexp \<Rightarrow> ty parsed) \<Rightarrow> sexp list \<Rightarrow> ty parsed" where
  "p_ty_alias rty l =
     rbind (p_at l 1 (\<lambda>b. p_boolean b ''talias'')) (\<lambda>nominal.
     rbind (p_at l 2 (\<lambda>n. p_sym n ''talias name'')) (\<lambda>name.
     rbind (p_at l 3 rty) (\<lambda>inner. Ok (TyAlias nominal name inner))))"

definition p_ty_contract :: "(sexp \<Rightarrow> ty parsed) \<Rightarrow> sexp list \<Rightarrow> ty parsed" where
  "p_ty_contract rty l =
     rbind (p_at l 1 (\<lambda>n. p_sym n ''tcontract name'')) (\<lambda>name.
     rbind (p_from l 2 (p_contract_circuit rty)) (\<lambda>circuits. Ok (TyContract name circuits)))"

definition p_ty_vector :: "(sexp \<Rightarrow> ty parsed) \<Rightarrow> sexp list \<Rightarrow> ty parsed" where
  "p_ty_vector rty l =
     rbind (p_at l 1 (\<lambda>n. p_nat n ''tvector'')) (\<lambda>len.
     rbind (p_at l 2 rty) (\<lambda>elem. Ok (TyVector len elem)))"

text \<open>The \<^verbatim>\<open>match head\<close> of \<^verbatim>\<open>ty\<close>. A head that is none of the types is a ledger ADT.\<close>

definition p_ty_form :: "(sexp \<Rightarrow> ty parsed) \<Rightarrow> string \<Rightarrow> sexp list \<Rightarrow> ty parsed" where
  "p_ty_form rty h l =
     (if h = ''tboolean'' then Ok TyBoolean
      else if h = ''tfield'' then rmap TyField (p_at l 1 p_field_type)
      else if h = ''tunsigned'' then
        rmap TyUnsigned (p_at l 1 (\<lambda>n. p_big_nat n ''tunsigned''))
      else if h = ''tpoint'' then rmap TyPoint (p_at l 1 p_curve)
      else if h = ''tbytes'' then rmap TyBytes (p_at l 1 (\<lambda>n. p_nat n ''tbytes''))
      else if h = ''topaque'' then rmap TyOpaque (p_at l 1 (\<lambda>n. p_string n ''topaque''))
      else if h = ''tvector'' then p_ty_vector rty l
      else if h = ''ttuple'' then rmap TyTuple (p_from l 1 rty)
      else if h = ''tstruct'' then p_ty_struct rty l
      else if h = ''tenum'' then p_ty_enum l
      else if h = ''talias'' then p_ty_alias rty l
      else if h = ''tcontract'' then p_ty_contract rty l
      else if h = ''tunknown'' then Ok TyUnknown
      else rmap (TyAdt h) (p_from l 1 (p_adt_arg rty)))"

definition p_ty_node :: "(sexp \<Rightarrow> ty parsed) \<Rightarrow> sexp \<Rightarrow> ty parsed" where
  "p_ty_node rty s =
     (case as_sym s of
        Some v \<Rightarrow> Ok (TyVar v)
      | None \<Rightarrow>
          rbind (p_list s ''type'') (\<lambda>l.
          rbind (ok_or (Headless ''type'') (first_sym l)) (\<lambda>h. p_ty_form rty h l)))"

fun parse_ty :: "nat \<Rightarrow> sexp \<Rightarrow> ty parsed" where
  "parse_ty 0 s = NoFuel"
| "parse_ty (Suc n) s = p_ty_node (parse_ty n) s"

text \<open>How deep a datum nests, which bounds the recursion.\<close>

fun sexp_depth :: "sexp \<Rightarrow> nat" where
  "sexp_depth (SList l) = Suc (foldr (\<lambda>s d. max (sexp_depth s) d) l 0)"
| "sexp_depth (SPair a b) = Suc (max (sexp_depth a) (sexp_depth b))"
| "sexp_depth _ = 0"

text \<open>The reader of types with enough fuel for the datum.\<close>

definition p_ty :: "sexp \<Rightarrow> ty parsed" where
  "p_ty s = parse_ty (sexp_depth s + 1) s"

section \<open>Operands and instructions\<close>


definition p_operand_pair ::
  "(sexp \<Rightarrow> expr operand parsed) \<Rightarrow> string \<Rightarrow> sexp \<Rightarrow> (expr operand \<times> expr operand) parsed" where
  "p_operand_pair rop ctx s =
     rbind (p_fixed 2 s ctx) (\<lambda>l.
     rbind (rop (l ! 0)) (\<lambda>k.
     rbind (rop (l ! 1)) (\<lambda>v. Ok (k, v))))"

definition p_state_value ::
  "(sexp \<Rightarrow> expr operand parsed) \<Rightarrow> sexp list \<Rightarrow> expr operand state_value parsed" where
  "p_state_value rop l =
     (if first_sym l = Some ''null'' then Ok SvNull
      else if first_sym l = Some ''cell'' then rmap SvCell (p_at l 1 rop)
      else if first_sym l = Some ''ADT'' then
        rbind (p_at l 1 rop) (\<lambda>v.
        rbind (p_at l 2 p_ty) (\<lambda>t. Ok (SvAdt v t)))
      else if first_sym l = Some ''array'' then rmap SvArray (p_from l 1 rop)
      else if first_sym l = Some ''map'' then
        rmap SvMap (p_from l 1 (p_operand_pair rop ''state-value map entry''))
      else if first_sym l = Some ''merkle-tree'' then
        rbind (p_at l 1 (\<lambda>d. p_nat d ''merkle depth'')) (\<lambda>depth.
        rbind (p_from l 2 (p_operand_pair rop ''state-value tree entry'')) (\<lambda>entries.
        Ok (SvMerkleTree depth entries)))
      else Err (Unrecognized ''state-value''))"

text \<open>The forms of \<^verbatim>\<open>operand\<close> that are lists, by the symbol at their head.\<close>

definition p_operand_form ::
  "(sexp \<Rightarrow> expr operand parsed) \<Rightarrow> (sexp \<Rightarrow> expr parsed) \<Rightarrow> sexp \<Rightarrow> string \<Rightarrow> sexp list \<Rightarrow>
   expr operand parsed" where
  "p_operand_form rop rex s h l =
     (if h = ''align'' then
        rbind (p_at l 1 (\<lambda>v. p_big_nat v ''align value'')) (\<lambda>value.
        rbind (p_at l 2 (\<lambda>b. p_nat b ''align bytes'')) (\<lambda>bytes. Ok (OAlign value bytes)))
      else if h = ''stack'' then Ok OStack
      else if h = ''void'' then Ok OVoid
      else if h = ''value->int'' then rmap OValueToInt (p_at l 1 rop)
      else if h = ''null'' then rmap ONull (p_at l 1 p_ty)
      else if h = ''max-sizeof'' then rmap OMaxSizeof (p_at l 1 p_ty)
      else if h = ''+'' \<and> length l = 3 then
        rbind (p_at l 1 rop) (\<lambda>a. rbind (p_at l 2 rop) (\<lambda>b. Ok (OAdd a b)))
      else if h = ''leaf-hash'' then rmap OLeafHash (p_at l 1 rop)
      else if h = ''coin-commit'' then
        rbind (p_at l 1 rop) (\<lambda>a. rbind (p_at l 2 rop) (\<lambda>b. Ok (OCoinCommit a b)))
      else if h = ''aligned-concat'' then rmap OAlignedConcat (p_from l 1 rop)
      else if h = ''state-value'' then
        rmap OStateValue (rbind (tail_or_panic l 1) (p_state_value rop))
      else rmap OExpr (rex s))"

definition p_operand_node ::
  "(sexp \<Rightarrow> expr operand parsed) \<Rightarrow> (sexp \<Rightarrow> expr parsed) \<Rightarrow> sexp \<Rightarrow> expr operand parsed" where
  "p_operand_node rop rex s =
     (case s of
        SInt i \<Rightarrow> Ok (OInt i)
      | SBool b \<Rightarrow> Ok (OBool b)
      | SStr v \<Rightarrow> Ok (OStr v)
      | _ \<Rightarrow>
          rbind (p_list s ''operand'') (\<lambda>l.
          case first_sym l of
            Some h \<Rightarrow> p_operand_form rop rex s h l
          | None \<Rightarrow> rmap OList (traverse rop l)))"

definition p_instruction_arg ::
  "(sexp \<Rightarrow> expr operand parsed) \<Rightarrow> sexp \<Rightarrow> (string \<times> expr operand) parsed" where
  "p_instruction_arg rop a =
     rbind (p_fixed 2 a ''instruction arg'') (\<lambda>l.
     rbind (p_sym (l ! 0) ''instruction arg name'') (\<lambda>name.
     rbind (rop (l ! 1)) (\<lambda>value. Ok (name, value))))"

definition p_instruction ::
  "(sexp \<Rightarrow> expr operand parsed) \<Rightarrow> sexp \<Rightarrow> expr operand instruction parsed" where
  "p_instruction rop s =
     rbind (p_list s ''instruction'') (\<lambda>l.
     rbind (p_at l 0 (\<lambda>o'. p_sym o' ''instruction op'')) (\<lambda>name.
     rbind (p_from l 1 (p_instruction_arg rop)) (\<lambda>args.
     Ok (Instruction (op_from_str name) args))))"

definition p_instructions ::
  "(sexp \<Rightarrow> expr operand parsed) \<Rightarrow> sexp \<Rightarrow> expr operand instruction list parsed" where
  "p_instructions rop s =
     rbind (p_tagged s ''instructions'' ''instructions'') (traverse (p_instruction rop))"

section \<open>The parts of an expression\<close>

definition p_argument :: "sexp \<Rightarrow> argument parsed" where
  "p_argument s =
     rbind (p_fixed 2 s ''argument'') (\<lambda>l.
     rbind (p_ident (l ! 0) ''argument name'') (\<lambda>name.
     rbind (p_ty (l ! 1)) (\<lambda>t. Ok \<lparr>arg_name = name, arg_ty = t\<rparr>)))"

definition p_arguments :: "sexp \<Rightarrow> argument list parsed" where
  "p_arguments s = rbind (p_list s ''arguments'') (traverse p_argument)"

definition p_tuple_arg :: "(sexp \<Rightarrow> expr parsed) \<Rightarrow> sexp \<Rightarrow> expr tuple_arg parsed" where
  "p_tuple_arg rex s =
     rbind (p_list s ''tuple-arg'') (\<lambda>l.
     if first_sym l = Some ''single'' then rmap Single (p_at l 1 rex)
     else if first_sym l = Some ''spread'' then
       rbind (p_at l 1 (\<lambda>n. p_nat n ''spread'')) (\<lambda>len.
       rbind (p_at l 2 rex) (\<lambda>e. Ok (Spread len e)))
     else unrecognized ''tuple-arg'')"

definition p_map_arg :: "(sexp \<Rightarrow> expr parsed) \<Rightarrow> sexp \<Rightarrow> expr map_arg parsed" where
  "p_map_arg rex s =
     rbind (p_fixed 3 s ''map-arg'') (\<lambda>l.
     rbind (rex (l ! 0)) (\<lambda>e.
     rbind (p_ty (l ! 1)) (\<lambda>t.
     rbind (p_ty (l ! 2)) (\<lambda>element_t. Ok (MapArg e t element_t)))))"

definition p_fun :: "(sexp \<Rightarrow> expr parsed) \<Rightarrow> sexp \<Rightarrow> expr ir_fun parsed" where
  "p_fun rex s =
     rbind (p_list s ''fun'') (\<lambda>l.
     if first_sym l = Some ''fref'' then rmap FunRef (p_at l 1 (\<lambda>n. p_ident n ''fref''))
     else if first_sym l = Some ''circuit'' then
       rbind (p_at l 1 p_arguments) (\<lambda>arguments.
       rbind (p_at l 2 p_ty) (\<lambda>result_type.
       rbind (p_at l 3 rex) (\<lambda>body. Ok (FunCircuit arguments result_type body))))
     else unrecognized ''fun'')"

definition p_path_element :: "(sexp \<Rightarrow> expr parsed) \<Rightarrow> sexp \<Rightarrow> expr path_element parsed" where
  "p_path_element rex s =
     (case s of
        SInt i \<Rightarrow> rmap PathIndex (p_nat s ''path index'')
      | _ \<Rightarrow>
          rbind (p_fixed 2 s ''path element'') (\<lambda>l.
          rbind (p_ty (l ! 0)) (\<lambda>t.
          rbind (rex (l ! 1)) (\<lambda>e. Ok (PathComputed t e)))))"

definition p_literal :: "sexp \<Rightarrow> literal parsed" where
  "p_literal s =
     (case s of
        SInt i \<Rightarrow> Ok (LInt i)
      | SBool b \<Rightarrow> Ok (LBool b)
      | SBytes b \<Rightarrow> Ok (LBytes b)
      | _ \<Rightarrow> unrecognized ''literal'')"

definition p_op_class :: "sexp \<Rightarrow> op_class parsed" where
  "p_op_class s =
     (case as_sym s of
        Some name \<Rightarrow> Ok (Plain name)
      | None \<Rightarrow>
          rbind (p_fixed 3 s ''operation class'') (\<lambda>l.
          rbind (p_sym (l ! 0) ''operation class'') (\<lambda>name.
          rbind (p_nat (l ! 1) ''coin argument index'') (\<lambda>coin.
          rbind (p_nat (l ! 2) ''recipient argument index'') (\<lambda>recipient.
          Ok (CoinCheck name coin recipient))))))"

definition ty_expr_expr ::
  "(sexp \<Rightarrow> expr parsed) \<Rightarrow> sexp list \<Rightarrow> (ty \<Rightarrow> expr \<Rightarrow> expr \<Rightarrow> expr) \<Rightarrow> expr parsed" where
  "ty_expr_expr rex l mk =
     rbind (p_at l 1 p_ty) (\<lambda>t.
     rbind (p_at l 2 rex) (\<lambda>a.
     rbind (p_at l 3 rex) (\<lambda>b. Ok (mk t a b))))"

definition nat_expr_expr ::
  "(sexp \<Rightarrow> expr parsed) \<Rightarrow> sexp list \<Rightarrow> string \<Rightarrow> (u64 \<Rightarrow> expr \<Rightarrow> expr \<Rightarrow> expr) \<Rightarrow> expr parsed" where
  "nat_expr_expr rex l h mk =
     rbind (p_at l 1 (\<lambda>n. p_nat n h)) (\<lambda>n.
     rbind (p_at l 2 rex) (\<lambda>a.
     rbind (p_at l 3 rex) (\<lambda>b. Ok (mk n a b))))"

definition ty_ty_expr ::
  "(sexp \<Rightarrow> expr parsed) \<Rightarrow> sexp list \<Rightarrow> (ty \<Rightarrow> ty \<Rightarrow> expr \<Rightarrow> expr) \<Rightarrow> expr parsed" where
  "ty_ty_expr rex l mk =
     rbind (p_at l 1 p_ty) (\<lambda>t.
     rbind (p_at l 2 p_ty) (\<lambda>from.
     rbind (p_at l 3 rex) (\<lambda>e. Ok (mk t from e))))"


section \<open>Expressions\<close>

text \<open>
  The \<^verbatim>\<open>match head\<close> of \<^verbatim>\<open>expr\<close>, in groups: a group is \<^const>\<open>None\<close> for a head that is
  not one of its heads.
\<close>

definition p_expr_access ::
  "(sexp \<Rightarrow> expr parsed) \<Rightarrow> string \<Rightarrow> sexp list \<Rightarrow> expr parsed option" where
  "p_expr_access rex h l =
     (if h = ''quote'' then Some (rmap EQuote (p_at l 1 p_literal))
      else if h = ''var-ref'' then Some (rmap EVarRef (p_at l 1 (\<lambda>v. p_ident v ''var-ref'')))
      else if h = ''default'' then Some (rmap EDefault (p_at l 1 p_ty))
      else if h = ''if'' then Some (
        rbind (p_at l 1 rex) (\<lambda>c.
        rbind (p_at l 2 rex) (\<lambda>t.
        rbind (p_at l 3 rex) (\<lambda>e. Ok (EIf c t e)))))
      else if h = ''elt-ref'' then Some (
        rbind (p_at l 1 rex) (\<lambda>e.
        rbind (p_at l 2 (\<lambda>n. p_sym n ''elt-ref'')) (\<lambda>elt.
        rbind (p_at l 3 (\<lambda>i. p_nat i ''elt-ref index'')) (\<lambda>index. Ok (EEltRef e elt index)))))
      else if h = ''enum-ref'' then Some (
        rbind (p_at l 1 p_ty) (\<lambda>t.
        rbind (p_at l 2 (\<lambda>n. p_sym n ''enum-ref'')) (\<lambda>elt. Ok (EEnumRef t elt))))
      else None)"

definition p_expr_sequence ::
  "(sexp \<Rightarrow> expr parsed) \<Rightarrow> string \<Rightarrow> sexp list \<Rightarrow> expr parsed option" where
  "p_expr_sequence rex h l =
     (if h = ''tuple'' then Some (rmap ETuple (p_from l 1 (p_tuple_arg rex)))
      else if h = ''vector'' then Some (rmap EVectorLit (p_from l 1 (p_tuple_arg rex)))
      else if h = ''tuple-ref'' then Some (
        rbind (p_at l 1 rex) (\<lambda>e.
        rbind (p_at l 2 (\<lambda>n. p_nat n ''tuple-ref'')) (\<lambda>index. Ok (ETupleRef e index))))
      else if h = ''tuple-slice'' then Some (
        rbind (p_at l 1 p_ty) (\<lambda>t.
        rbind (p_at l 2 rex) (\<lambda>e.
        rbind (p_at l 3 (\<lambda>n. p_nat n ''tuple-slice index'')) (\<lambda>index.
        rbind (p_at l 4 (\<lambda>n. p_nat n ''tuple-slice len'')) (\<lambda>len. Ok (ETupleSlice t e index len))))))
      else if h = ''vector-ref'' then Some (ty_expr_expr rex l EVectorRef)
      else if h = ''vector-slice'' then Some (
        rbind (p_at l 1 p_ty) (\<lambda>t.
        rbind (p_at l 2 rex) (\<lambda>e.
        rbind (p_at l 3 rex) (\<lambda>index.
        rbind (p_at l 4 (\<lambda>n. p_nat n ''vector-slice len'')) (\<lambda>len. Ok (EVectorSlice t e index len))))))
      else if h = ''bytes-ref'' then Some (ty_expr_expr rex l EBytesRef)
      else if h = ''bytes-slice'' then Some (
        rbind (p_at l 1 p_ty) (\<lambda>t.
        rbind (p_at l 2 rex) (\<lambda>e.
        rbind (p_at l 3 rex) (\<lambda>index.
        rbind (p_at l 4 (\<lambda>n. p_nat n ''bytes-slice len'')) (\<lambda>len. Ok (EBytesSlice t e index len))))))
      else None)"

definition p_expr_arithmetic ::
  "(sexp \<Rightarrow> expr parsed) \<Rightarrow> string \<Rightarrow> sexp list \<Rightarrow> expr parsed option" where
  "p_expr_arithmetic rex h l =
     (if h = ''+'' then Some (ty_expr_expr rex l EAdd)
      else if h = ''-'' then Some (ty_expr_expr rex l ESub)
      else if h = ''*'' then Some (ty_expr_expr rex l EMul)
      else if h = ''<'' then Some (nat_expr_expr rex l h ELt)
      else if h = ''<='' then Some (nat_expr_expr rex l h ELe)
      else if h = ''>'' then Some (nat_expr_expr rex l h EGt)
      else if h = ''>='' then Some (nat_expr_expr rex l h EGe)
      else if h = ''=='' then Some (ty_expr_expr rex l EEq)
      else if h = ''!='' then Some (ty_expr_expr rex l ENeq)
      else None)"

definition p_let_binding :: "(sexp \<Rightarrow> expr parsed) \<Rightarrow> sexp \<Rightarrow> (argument \<times> expr) parsed" where
  "p_let_binding rex b =
     rbind (p_fixed 2 b ''let* binding'') (\<lambda>l.
     rbind (p_argument (l ! 0)) (\<lambda>binding.
     rbind (rex (l ! 1)) (\<lambda>value. Ok (binding, value))))"

definition p_expr_control ::
  "(sexp \<Rightarrow> expr parsed) \<Rightarrow> string \<Rightarrow> sexp list \<Rightarrow> expr parsed option" where
  "p_expr_control rex h l =
     (if h = ''map'' then Some (
        rbind (p_at l 1 (\<lambda>n. p_nat n ''map len'')) (\<lambda>len.
        rbind (p_at l 2 (p_fun rex)) (\<lambda>f.
        rbind (p_from l 3 (p_map_arg rex)) (\<lambda>args. Ok (EMap len f args)))))
      else if h = ''fold'' then Some (
        rbind (p_at l 3 (\<lambda>i. p_fixed 2 i ''fold init'')) (\<lambda>i.
        rbind (p_at l 1 (\<lambda>n. p_nat n ''fold len'')) (\<lambda>len.
        rbind (p_at l 2 (p_fun rex)) (\<lambda>f.
        rbind (rex (i ! 0)) (\<lambda>init.
        rbind (p_ty (i ! 1)) (\<lambda>init_ty.
        rbind (p_from l 4 (p_map_arg rex)) (\<lambda>args. Ok (EFold len f init init_ty args))))))))
      else if h = ''call'' then Some (
        rbind (p_at l 1 (\<lambda>n. p_ident n ''call'')) (\<lambda>name.
        rbind (p_from l 2 rex) (\<lambda>args. Ok (ECall name args))))
      else if h = ''new'' then Some (
        rbind (p_at l 1 p_ty) (\<lambda>t.
        rbind (p_from l 2 rex) (\<lambda>elements. Ok (ENew t elements))))
      else if h = ''seq'' then Some (rmap ESeq (p_from l 1 rex))
      else if h = ''let*'' then Some (
        rbind (p_at l 1 (\<lambda>b. p_list b ''let* bindings'')) (\<lambda>bs.
        rbind (traverse (p_let_binding rex) bs) (\<lambda>bindings.
        rbind (p_at l 2 rex) (\<lambda>body. Ok (ELetStar bindings body)))))
      else if h = ''assert'' then Some (
        rbind (p_at l 1 rex) (\<lambda>e.
        rbind (p_at l 2 (\<lambda>m. p_string m ''assert'')) (\<lambda>message. Ok (EAssert e message))))
      else None)"

definition p_expr_cast ::
  "(sexp \<Rightarrow> expr parsed) \<Rightarrow> string \<Rightarrow> sexp list \<Rightarrow> expr parsed option" where
  "p_expr_cast rex h l =
     (if h = ''field->bytes'' then Some (
        rbind (p_at l 1 (\<lambda>n. p_nat n ''field->bytes'')) (\<lambda>len.
        rbind (p_at l 2 p_field_type) (\<lambda>ft.
        rbind (p_at l 3 rex) (\<lambda>e. Ok (EFieldToBytes len ft e)))))
      else if h = ''cast-from-bytes'' then Some (
        rbind (p_at l 1 p_ty) (\<lambda>t.
        rbind (p_at l 2 (\<lambda>n. p_nat n ''cast-from-bytes'')) (\<lambda>len.
        rbind (p_at l 3 rex) (\<lambda>e. Ok (ECastFromBytes t len e)))))
      else if h = ''vector->bytes'' then Some (
        rbind (p_at l 1 (\<lambda>n. p_nat n ''vector->bytes'')) (\<lambda>len.
        rbind (p_at l 2 rex) (\<lambda>e. Ok (EVectorToBytes len e))))
      else if h = ''bytes->vector'' then Some (
        rbind (p_at l 1 (\<lambda>n. p_nat n ''bytes->vector'')) (\<lambda>len.
        rbind (p_at l 2 rex) (\<lambda>e. Ok (EBytesToVector len e))))
      else if h = ''cast-from-enum'' then Some (ty_ty_expr rex l ECastFromEnum)
      else if h = ''cast-to-enum'' then Some (ty_ty_expr rex l ECastToEnum)
      else if h = ''cast-to-field'' then Some (
        rbind (p_at l 1 p_field_type) (\<lambda>ft.
        rbind (p_at l 2 p_ty) (\<lambda>from.
        rbind (p_at l 3 rex) (\<lambda>e. Ok (ECastToField ft from e)))))
      else if h = ''cast-from-field'' then Some (
        rbind (p_at l 1 (\<lambda>n. p_big_nat n ''cast-from-field'')) (\<lambda>maxval.
        rbind (p_at l 2 p_field_type) (\<lambda>ft.
        rbind (p_at l 3 rex) (\<lambda>e. Ok (ECastFromField maxval ft e)))))
      else if h = ''safe-cast'' then Some (ty_ty_expr rex l ESafeCast)
      else if h = ''downcast-unsigned'' then Some (
        rbind (p_at l 1 (\<lambda>n. p_big_nat n ''downcast-unsigned'')) (\<lambda>from_maxval.
        rbind (p_at l 2 (\<lambda>n. p_big_nat n ''downcast-unsigned'')) (\<lambda>to_maxval.
        rbind (p_at l 3 rex) (\<lambda>e. Ok (EDowncastUnsigned from_maxval to_maxval e)))))
      else None)"

definition p_expr_effect ::
  "(sexp \<Rightarrow> expr operand parsed) \<Rightarrow> (sexp \<Rightarrow> expr parsed) \<Rightarrow> string \<Rightarrow> sexp list \<Rightarrow>
   expr parsed option" where
  "p_expr_effect rop rex h l =
     (if h = ''contract-call'' then Some (
        rbind (p_at l 2 (\<lambda>r. p_fixed 2 r ''contract-call receiver'')) (\<lambda>r.
        rbind (p_at l 1 (\<lambda>n. p_sym n ''contract-call circuit'')) (\<lambda>circuit.
        rbind (rex (r ! 0)) (\<lambda>receiver.
        rbind (p_ty (r ! 1)) (\<lambda>contract_type.
        rbind (p_from l 3 rex) (\<lambda>args. Ok (EContractCall circuit receiver contract_type args)))))))
      else if h = ''emit'' then Some (
        rbind (p_at l 1 (\<lambda>n. p_nat n ''emit version'')) (\<lambda>event_version.
        rbind (p_at l 2 (\<lambda>n. p_nat n ''emit tag'')) (\<lambda>event_tag.
        rbind (p_at l 3 (\<lambda>n. p_nat n ''emit len'')) (\<lambda>len.
        rbind (p_at l 4 rex) (\<lambda>payload.
        rbind (p_at l 5 (p_instructions rop)) (\<lambda>instructions.
        Ok (EEmit event_version event_tag len payload instructions)))))))
      else if h = ''public-ledger'' then Some (
        rbind (p_at l 1 (\<lambda>n. p_ident n ''public-ledger field'')) (\<lambda>field.
        rbind (p_at l 2 p_op_class) (\<lambda>op_class.
        rbind (p_at l 3 (\<lambda>p. p_list p ''public-ledger path'')) (\<lambda>ps.
        rbind (traverse (p_path_element rex) ps) (\<lambda>path.
        rbind (p_at l 4 (\<lambda>n. p_sym n ''public-ledger op'')) (\<lambda>op.
        rbind (p_at l 5 p_ty) (\<lambda>result_type.
        rbind (p_at l 6 (p_instructions rop)) (\<lambda>instructions.
        rbind (p_from l 7 rex) (\<lambda>args.
        Ok (EPublicLedger field op_class path op result_type instructions args))))))))))
      else if h = ''return'' then Some (rmap EReturn (p_at l 1 rex))
      else None)"

definition p_expr_form ::
  "(sexp \<Rightarrow> expr operand parsed) \<Rightarrow> (sexp \<Rightarrow> expr parsed) \<Rightarrow> string \<Rightarrow> sexp list \<Rightarrow> expr parsed" where
  "p_expr_form rop rex h l =
     (case p_expr_access rex h l of Some r \<Rightarrow> r | None \<Rightarrow>
     (case p_expr_sequence rex h l of Some r \<Rightarrow> r | None \<Rightarrow>
     (case p_expr_arithmetic rex h l of Some r \<Rightarrow> r | None \<Rightarrow>
     (case p_expr_control rex h l of Some r \<Rightarrow> r | None \<Rightarrow>
     (case p_expr_cast rex h l of Some r \<Rightarrow> r | None \<Rightarrow>
     (case p_expr_effect rop rex h l of Some r \<Rightarrow> r | None \<Rightarrow>
      unrecognized ''expression''))))))"

definition p_expr_node ::
  "(sexp \<Rightarrow> expr operand parsed) \<Rightarrow> (sexp \<Rightarrow> expr parsed) \<Rightarrow> sexp \<Rightarrow> expr parsed" where
  "p_expr_node rop rex s =
     rbind (p_list s ''expression'') (\<lambda>l.
     rbind (ok_or (Headless ''expression'') (first_sym l)) (\<lambda>h. p_expr_form rop rex h l))"

fun parse_operand :: "nat \<Rightarrow> sexp \<Rightarrow> expr operand parsed"
  and parse_expr :: "nat \<Rightarrow> sexp \<Rightarrow> expr parsed" where
  "parse_operand 0 s = NoFuel"
| "parse_operand (Suc n) s = p_operand_node (parse_operand n) (parse_expr n) s"
| "parse_expr 0 s = NoFuel"
| "parse_expr (Suc n) s = p_expr_node (parse_operand n) (parse_expr n) s"

text \<open>An operand that is an expression passes the same datum on, so a level costs two units.\<close>

definition p_expr :: "sexp \<Rightarrow> expr parsed" where
  "p_expr s = parse_expr (2 * sexp_depth s + 1) s"

section \<open>Program elements and the artifact\<close>

definition p_ledger_binding :: "sexp \<Rightarrow> ledger_binding parsed" where
  "p_ledger_binding s =
     rbind (p_fixed 4 s ''ledger binding'') (\<lambda>l.
     rbind (p_ident (l ! 0) ''ledger binding name'') (\<lambda>name.
     rbind (p_list (l ! 1) ''ledger binding path'') (\<lambda>is.
     rbind (traverse (\<lambda>i. p_nat i ''ledger binding index'') is) (\<lambda>path.
     rbind (p_keyed (l ! 2) ''exported'' ''ledger binding'') (\<lambda>x.
     rbind (p_boolean x ''ledger binding exported'') (\<lambda>exported.
     rbind (p_ty (l ! 3)) (\<lambda>t.
     Ok \<lparr>lb_name = name, lb_path = path, lb_exported = exported, lb_ty = t\<rparr>)))))))"

text \<open>
  \<^verbatim>\<open>flatten_pl_array\<close> pushes onto \<^verbatim>\<open>out\<close>, which its caller drops on an error: the model
  returns the bindings instead.
\<close>

definition flatten_node ::
  "(sexp \<Rightarrow> ledger_binding list parsed) \<Rightarrow> sexp \<Rightarrow> ledger_binding list parsed" where
  "flatten_node rec s =
     rbind (p_tagged s ''public-ledger-array'' ''public-ledger-array'') (\<lambda>es.
     rmap concat (traverse (\<lambda>e.
       if head_sym e = Some ''public-ledger-array'' then rec e
       else rmap (\<lambda>b. [b]) (p_ledger_binding e)) es))"

fun flatten_fuel :: "nat \<Rightarrow> sexp \<Rightarrow> ledger_binding list parsed" where
  "flatten_fuel 0 s = NoFuel"
| "flatten_fuel (Suc n) s = flatten_node (flatten_fuel n) s"

definition flatten_pl_array :: "sexp \<Rightarrow> ledger_binding list parsed" where
  "flatten_pl_array s = flatten_fuel (sexp_depth s + 1) s"

definition p_circuit :: "sexp list \<Rightarrow> circuit parsed" where
  "p_circuit l =
     rbind (p_at l 1 (\<lambda>n. p_ident n ''circuit name'')) (\<lambda>name.
     rbind (p_at l 2 (\<lambda>k. p_keyed k ''exported'' ''circuit'')) (\<lambda>x.
     rbind (p_boolean x ''circuit exported'') (\<lambda>exported.
     rbind (p_at l 3 (\<lambda>k. p_keyed k ''pure'' ''circuit'')) (\<lambda>x.
     rbind (p_boolean x ''circuit pure'') (\<lambda>pure.
     rbind (p_at l 4 (\<lambda>k. p_keyed k ''proof'' ''circuit'')) (\<lambda>x.
     rbind (p_boolean x ''circuit proof'') (\<lambda>proof'.
     rbind (p_at l 5 p_arguments) (\<lambda>arguments.
     rbind (p_at l 6 p_ty) (\<lambda>result_type.
     rbind (p_at l 7 p_expr) (\<lambda>body.
     Ok \<lparr>cir_name = name, cir_exported = exported, cir_pure = pure, cir_proof = proof',
         cir_arguments = arguments, cir_result_type = result_type, cir_body = body\<rparr>))))))))))"

definition p_native :: "sexp list \<Rightarrow> native parsed" where
  "p_native l =
     rbind (p_at l 2 (\<lambda>e. p_fixed 3 e ''native entry'')) (\<lambda>en.
     if as_sym (en ! 0) \<noteq> Some ''entry'' then unrecognized ''native entry''
     else
       rbind (p_at l 3 (\<lambda>t. p_tagged t ''type-arguments'' ''native type arguments'')) (\<lambda>type_args.
       rbind (p_at l 1 (\<lambda>n. p_ident n ''native name'')) (\<lambda>name.
       rbind (p_string (en ! 1) ''native entry fn'') (\<lambda>entry.
       rbind (p_sym (en ! 2) ''native entry class'') (\<lambda>cls.
       rbind (traverse p_ty type_args) (\<lambda>type_arguments.
       rbind (p_at l 4 p_arguments) (\<lambda>arguments.
       rbind (p_at l 5 p_ty) (\<lambda>result_type.
       Ok \<lparr>nat_name = name, nat_entry = entry, nat_class = cls, nat_type_arguments = type_arguments,
           nat_arguments = arguments, nat_result_type = result_type\<rparr>))))))))"

definition p_witness :: "sexp list \<Rightarrow> witness_decl parsed" where
  "p_witness l =
     rbind (p_at l 1 (\<lambda>n. p_ident n ''witness name'')) (\<lambda>name.
     rbind (p_at l 2 p_arguments) (\<lambda>arguments.
     rbind (p_at l 3 p_ty) (\<lambda>result_type.
     Ok \<lparr>wit_name = name, wit_arguments = arguments, wit_result_type = result_type\<rparr>)))"

definition p_ledger_declaration :: "sexp list \<Rightarrow> ledger_declaration parsed" where
  "p_ledger_declaration l =
     rbind (p_at l 1 flatten_pl_array) (\<lambda>fields.
     rbind (p_at l 2 (\<lambda>c. p_fixed 3 c ''constructor'')) (\<lambda>c.
     if as_sym (c ! 0) \<noteq> Some ''constructor'' then unrecognized ''constructor''
     else
       rbind (p_arguments (c ! 1)) (\<lambda>arguments.
       rbind (p_expr (c ! 2)) (\<lambda>body.
       Ok \<lparr>ld_fields = fields,
           ld_constructor = \<lparr>con_arguments = arguments, con_body = body\<rparr>\<rparr>))))"

definition p_program_element :: "sexp \<Rightarrow> program_element parsed" where
  "p_program_element s =
     rbind (p_list s ''program element'') (\<lambda>l.
     if first_sym l = Some ''circuit'' then rmap PCircuit (p_circuit l)
     else if first_sym l = Some ''native'' then rmap PNative (p_native l)
     else if first_sym l = Some ''witness'' then rmap PWitness (p_witness l)
     else if first_sym l = Some ''kernel-declaration'' then
       rmap PKernelDeclaration (p_at l 1 p_ledger_binding)
     else if first_sym l = Some ''public-ledger-declaration'' then
       rmap PPublicLedger (p_ledger_declaration l)
     else if first_sym l = Some ''export-typedef'' then
       rbind (p_at l 1 (\<lambda>n. p_sym n ''export-typedef'')) (\<lambda>name.
       rbind (p_at l 2 (\<lambda>vs. p_list vs ''export-typedef vars'')) (\<lambda>vs.
       rbind (traverse (\<lambda>v. p_sym v ''export-typedef var'') vs) (\<lambda>type_vars.
       rbind (p_at l 3 p_ty) (\<lambda>t. Ok (PExportTypedef name type_vars t)))))
     else unrecognized ''program element'')"

definition p_version :: "sexp \<Rightarrow> string \<Rightarrow> string parsed" where
  "p_version s key = rbind (p_keyed s key key) (\<lambda>v. p_string v key)"

definition compiler_version :: "sexp \<Rightarrow> string parsed" where
  "compiler_version s =
     rbind (p_tagged s ''analyzed-ir'' ''analyzed-ir'') (\<lambda>es.
     rbind (ok_or (Missing ''compiler-version'')
       (find (\<lambda>e. head_sym e = Some ''compiler-version'') es)) (\<lambda>e.
     p_version e ''compiler-version''))"

text \<open>The variables of \<^verbatim>\<open>parse\<close> that its loop fills.\<close>

record artifact_acc =
  acc_language :: "string option"
  acc_runtime :: "string option"
  acc_exports :: "(string \<times> ident) list"
  acc_contract_types :: "ty list"
  acc_elements :: "program_element list"

definition p_export :: "sexp \<Rightarrow> (string \<times> ident) parsed" where
  "p_export x =
     (case x of
        SPair a b \<Rightarrow>
          rbind (p_sym a ''export name'') (\<lambda>n. rbind (p_ident b ''export target'') (\<lambda>t. Ok (n, t)))
      | _ \<Rightarrow> unrecognized ''export entry'')"

definition p_artifact_element :: "sexp \<Rightarrow> artifact_acc \<Rightarrow> artifact_acc parsed" where
  "p_artifact_element e acc =
     (if head_sym e = Some ''compiler-version'' then Ok acc
      else if head_sym e = Some ''language-version'' then
        rbind (p_version e ''language-version'') (\<lambda>v. Ok (acc\<lparr>acc_language := Some v\<rparr>))
      else if head_sym e = Some ''runtime-version'' then
        rbind (p_version e ''runtime-version'') (\<lambda>v. Ok (acc\<lparr>acc_runtime := Some v\<rparr>))
      else if head_sym e = Some ''exports'' then
        rbind (p_list e ''exports'') (\<lambda>l.
        rbind (p_from l 1 p_export) (\<lambda>xs. Ok (acc\<lparr>acc_exports := acc_exports acc @ xs\<rparr>)))
      else if head_sym e = Some ''contract-types'' then
        rbind (p_list e ''contract-types'') (\<lambda>l.
        rbind (p_from l 1 p_ty) (\<lambda>ts.
        Ok (acc\<lparr>acc_contract_types := acc_contract_types acc @ ts\<rparr>)))
      else
        rbind (p_program_element e) (\<lambda>p. Ok (acc\<lparr>acc_elements := acc_elements acc @ [p]\<rparr>)))"

fun p_artifact_elements :: "sexp list \<Rightarrow> artifact_acc \<Rightarrow> artifact_acc parsed" where
  "p_artifact_elements [] acc = Ok acc"
| "p_artifact_elements (e # es) acc =
     rbind (p_artifact_element e acc) (\<lambda>acc'. p_artifact_elements es acc')"

definition parse_sexp :: "sexp \<Rightarrow> analyzed_ir parsed" where
  "parse_sexp s =
     rbind (compiler_version s) (\<lambda>version.
     rbind (p_tagged s ''analyzed-ir'' ''analyzed-ir'') (\<lambda>es.
     rbind (p_artifact_elements es
       \<lparr>acc_language = None, acc_runtime = None, acc_exports = [], acc_contract_types = [],
        acc_elements = []\<rparr>) (\<lambda>acc.
     rbind (ok_or (Missing ''language-version'') (acc_language acc)) (\<lambda>language.
     rbind (ok_or (Missing ''runtime-version'') (acc_runtime acc)) (\<lambda>runtime.
     Ok \<lparr>ir_compiler_version = version, ir_language_version = language,
         ir_runtime_version = runtime, ir_exports = acc_exports acc,
         ir_contract_types = acc_contract_types acc, ir_elements = acc_elements acc\<rparr>)))))"

text \<open>\<^verbatim>\<open>parse_str\<close> of \<^verbatim>\<open>lib.rs\<close>: the entry point of the crate.\<close>

definition parse_str :: "string \<Rightarrow> analyzed_ir parsed" where
  "parse_str src = rbind (rmap_err ReadError (read_one src)) parse_sexp"


section \<open>Enough fuel\<close>

lemma p_list_Ok_iff [simp]: "p_list s ctx = Ok l \<longleftrightarrow> s = SList l"
  by (cases s) (auto simp: p_list_def)

lemma p_fixed_Ok_iff [simp]: "p_fixed n s ctx = Ok l \<longleftrightarrow> s = SList l \<and> length l = n"
  by (auto simp: p_fixed_def unrecognized_def split: if_splits)

lemma p_tagged_Ok_iff [simp]:
  "p_tagged s h ctx = Ok l \<longleftrightarrow> (\<exists>x. s = SList (x # l) \<and> as_sym x = Some h)"
proof (cases s)
  case (SList xs)
  then show ?thesis by (cases xs) (auto simp: p_tagged_def p_list_def unrecognized_def)
qed (simp_all add: p_tagged_def p_list_def)

lemma p_keyed_Ok_iff [simp]:
  "p_keyed s key ctx = Ok v \<longleftrightarrow> (\<exists>x. s = SList [x, v] \<and> as_sym x = Some key)"
proof (cases s)
  case (SList xs)
  then show ?thesis
    by (cases xs; cases "tl xs"; cases "tl (tl xs)") (auto simp: p_keyed_def p_list_def)
qed (simp_all add: p_keyed_def p_list_def)

lemma elementary_total [simp]:
  "p_list s ctx \<noteq> NoFuel" "p_sym s ctx \<noteq> NoFuel" "p_ident s ctx \<noteq> NoFuel"
  "p_string s ctx \<noteq> NoFuel" "p_boolean s ctx \<noteq> NoFuel" "p_big_nat s ctx \<noteq> NoFuel"
  "p_nat s ctx \<noteq> NoFuel" "unrecognized ctx \<noteq> NoFuel" "p_fixed n s ctx \<noteq> NoFuel"
  "p_keyed s key ctx \<noteq> NoFuel" "p_tagged s h ctx \<noteq> NoFuel"
  by (auto simp: p_list_def p_sym_def p_ident_def p_string_def p_boolean_def p_big_nat_def p_nat_def
      unrecognized_def p_fixed_def p_keyed_def p_tagged_def rbind_NoFuel_iff split: sexp.splits list.splits)

lemma p_curve_total [simp]: "p_curve s \<noteq> NoFuel"
  by (simp add: p_curve_def)

lemma p_field_type_total [simp]: "p_field_type s \<noteq> NoFuel"
  by (simp add: p_field_type_def p_at_def rbind_NoFuel_iff)

lemma elements_depth: "x \<in> set l \<Longrightarrow> sexp_depth x \<le> foldr (\<lambda>s d. max (sexp_depth s) d) l 0"
  by (induction l) auto

lemma element_depth: "x \<in> set l \<Longrightarrow> sexp_depth x < sexp_depth (SList l)"
  using elements_depth by (fastforce simp: less_Suc_eq_le)

text \<open>A reader that answers on every datum of a depth below a bound.\<close>

definition answers :: "nat \<Rightarrow> (sexp \<Rightarrow> 'a parsed) \<Rightarrow> bool" where
  "answers d rd \<longleftrightarrow> (\<forall>s. sexp_depth s < d \<longrightarrow> rd s \<noteq> NoFuel)"

named_theorems answering \<open>readers that answer when the readers they call do\<close>

lemma answers_elementary [answering]:
  "answers d (\<lambda>s. p_sym s ctx)" "answers d (\<lambda>s. p_ident s ctx)" "answers d (\<lambda>s. p_string s ctx)"
  "answers d (\<lambda>s. p_boolean s ctx)" "answers d (\<lambda>s. p_big_nat s ctx)" "answers d (\<lambda>s. p_nat s ctx)"
  "answers d (\<lambda>s. p_list s ctx)" "answers d (\<lambda>s. p_fixed n s ctx)" "answers d (\<lambda>s. p_keyed s key ctx)"
  "answers d (\<lambda>s. p_tagged s h ctx)" "answers d p_curve" "answers d p_field_type"
  by (simp_all add: answers_def)

lemma answersD: "answers d rd \<Longrightarrow> sexp_depth (SList l) \<le> d \<Longrightarrow> x \<in> set l \<Longrightarrow> rd x \<noteq> NoFuel"
  using element_depth [of x l] by (auto simp: answers_def)

text \<open>A computation that answers, and the rules to show it of a body step by step.\<close>

definition answered :: "'a parsed \<Rightarrow> bool" where
  "answered r \<longleftrightarrow> r \<noteq> NoFuel"

named_theorems answer_intros \<open>when a computation answers\<close>

lemma answered_simps [simp]:
  "answered (Ok a)" "answered (Err e)" "answered Panic" "\<not> answered NoFuel"
  "answered (rmap f m) \<longleftrightarrow> answered m" "answered (ok_or e x)" "answered (index_or_panic xs i)"
  "answered (tail_or_panic xs i)"
  by (simp_all add: answered_def)

lemma answered_elementary [simp]:
  "answered (p_list s ctx)" "answered (p_sym s ctx)" "answered (p_ident s ctx)"
  "answered (p_string s ctx)" "answered (p_boolean s ctx)" "answered (p_big_nat s ctx)"
  "answered (p_nat s ctx)" "answered (unrecognized ctx)" "answered (p_fixed n s ctx)"
  "answered (p_keyed s key ctx)" "answered (p_tagged s h ctx)" "answered (p_curve s)"
  "answered (p_field_type s)"
  by (simp_all add: answered_def)

lemma answered_rbind [answer_intros]:
  "answered m \<Longrightarrow> (\<And>a. m = Ok a \<Longrightarrow> answered (f a)) \<Longrightarrow> answered (rbind m f)"
  by (auto simp: answered_def rbind_NoFuel_iff)

lemma answered_if [answer_intros]:
  "(b \<Longrightarrow> answered m) \<Longrightarrow> (\<not> b \<Longrightarrow> answered n) \<Longrightarrow> answered (if b then m else n)"
  by simp

declare sexp_depth.simps(1) [simp del]

lemma answered_mem:
  "answers d rd \<Longrightarrow> sexp_depth (SList l) \<le> d \<Longrightarrow> x \<in> set l \<Longrightarrow> answered (rd x)"
  using answersD [of d rd l x] by (simp add: answered_def)

lemma answered_traverse: "answers d rd \<Longrightarrow> sexp_depth (SList l) \<le> d \<Longrightarrow> answered (traverse rd l)"
  unfolding answered_def by (rule traverse_not_NoFuel) (rule answersD)

lemma answered_at: "answers d rd \<Longrightarrow> sexp_depth (SList l) \<le> d \<Longrightarrow> answered (p_at l i rd)"
  by (auto simp: p_at_def intro!: answered_rbind answered_mem [of d rd l])

lemma answered_from: "answers d rd \<Longrightarrow> sexp_depth (SList l) \<le> d \<Longrightarrow> answered (p_from l i rd)"
  unfolding p_from_def answered_def
  by (auto simp: rbind_NoFuel_iff dest: in_set_dropD answersD intro!: traverse_not_NoFuel)

lemma answered_nth:
  "answers d rd \<Longrightarrow> sexp_depth (SList l) \<le> d \<Longrightarrow> i < length l \<Longrightarrow> answered (rd (l ! i))"
  by (rule answered_mem [OF _ _ nth_mem])

lemma nested_depth:
  "l ! i = SList xs \<Longrightarrow> i < length l \<Longrightarrow> sexp_depth (SList l) \<le> d \<Longrightarrow> sexp_depth (SList xs) \<le> d"
  using element_depth [OF nth_mem, of i l] by simp

lemma answers_iff: "answers d rd \<longleftrightarrow> (\<forall>s. sexp_depth s < d \<longrightarrow> answered (rd s))"
  by (simp add: answers_def answered_def)

lemmas answered_elements = answered_at answered_from answered_traverse answered_nth

lemma answers_adt_arg [answering]: "answers d rty \<Longrightarrow> answers d (p_adt_arg rty)"
  by (auto simp: answers_iff p_adt_arg_def split: sexp.split)

lemma answers_contract_circuit [answering]:
  assumes "answers d rty" shows "answers d (p_contract_circuit rty)"
  using assms unfolding answers_iff
  by (auto simp: p_contract_circuit_def intro!: answer_intros answered_elements [OF assms]
      intro: nested_depth less_imp_le)

lemma answers_struct_field [answering]:
  assumes "answers d rty" shows "answers d (p_struct_field rty)"
  using assms unfolding answers_iff
  by (auto simp: p_struct_field_def intro!: answer_intros answered_elements [OF assms])

lemma answered_ty_form:
  assumes rty: "answers d rty" and l: "sexp_depth (SList l) \<le> d"
  shows "answered (p_ty_form rty h l)"
  unfolding p_ty_form_def p_ty_vector_def p_ty_struct_def p_ty_enum_def p_ty_alias_def p_ty_contract_def
  by (intro answer_intros answered_at [OF _ l] answered_from [OF _ l] answering rty answered_simps(5) [THEN iffD2]
      answered_simps(1))

lemma answered_ty_node:
  assumes "answers (sexp_depth s) rty"
  shows "answered (p_ty_node rty s)"
  unfolding p_ty_node_def
  by (auto split: option.split intro!: answered_rbind answered_ty_form [OF assms])

lemma parse_ty_answers: "answers n (parse_ty n)"
proof (induction n)
  case 0
  show ?case by (simp add: answers_def)
next
  case (Suc n)
  then have "answers (sexp_depth s) (parse_ty n)" if "sexp_depth s < Suc n" for s
    using that by (auto simp: answers_def)
  then show ?case by (auto simp: answers_iff intro: answered_ty_node)
qed

lemma p_ty_total: "p_ty s \<noteq> NoFuel"
  using parse_ty_answers [of "sexp_depth s + 1"] by (simp add: p_ty_def answers_def del: parse_ty.simps)

text \<open>More fuel under a reader keeps what it answered.\<close>

lemma approx_at [approx_intros]:
  "(\<And>x. approx (rd x) (rd' x)) \<Longrightarrow> approx (p_at l i rd) (p_at l i rd')"
  unfolding p_at_def by (intro approx_intros)

lemma approx_from [approx_intros]:
  "(\<And>x. approx (rd x) (rd' x)) \<Longrightarrow> approx (p_from l i rd) (p_from l i rd')"
  unfolding p_from_def by (intro approx_intros)

lemma approx_case_sexp [approx_intros]:
  assumes "\<And>v. approx (f1 v) (g1 v)" "\<And>v. approx (f2 v) (g2 v)" "\<And>v. approx (f3 v) (g3 v)"
    "\<And>v. approx (f4 v) (g4 v)" "\<And>v. approx (f5 v) (g5 v)" "\<And>v. approx (f6 v) (g6 v)"
    "\<And>v w. approx (f7 v w) (g7 v w)"
  shows "approx (case s of SSym v \<Rightarrow> f1 v | SStr v \<Rightarrow> f2 v | SInt v \<Rightarrow> f3 v | SBool v \<Rightarrow> f4 v
      | SBytes v \<Rightarrow> f5 v | SList v \<Rightarrow> f6 v | SPair v w \<Rightarrow> f7 v w)
    (case s of SSym v \<Rightarrow> g1 v | SStr v \<Rightarrow> g2 v | SInt v \<Rightarrow> g3 v | SBool v \<Rightarrow> g4 v
      | SBytes v \<Rightarrow> g5 v | SList v \<Rightarrow> g6 v | SPair v w \<Rightarrow> g7 v w)"
  using assms by (cases s) simp_all

lemma approx_case_option [approx_intros]:
  "approx m m' \<Longrightarrow> (\<And>v. approx (f v) (f' v)) \<Longrightarrow>
   approx (case x of None \<Rightarrow> m | Some v \<Rightarrow> f v) (case x of None \<Rightarrow> m' | Some v \<Rightarrow> f' v)"
  by (cases x) simp_all

lemma approx_ty_node:
  assumes "\<And>x. approx (rty x) (rty' x)"
  shows "approx (p_ty_node rty s) (p_ty_node rty' s)"
  unfolding p_ty_node_def p_ty_form_def p_ty_vector_def p_ty_struct_def p_ty_enum_def p_ty_alias_def
    p_ty_contract_def p_struct_field_def p_contract_circuit_def p_adt_arg_def
  by (intro approx_intros assms)

interpretation types: fuelled "\<lambda>r. r = NoFuel" parse_ty
proof
  show "parse_ty 0 x = NoFuel" for x by simp
next
  fix n m x
  assume "\<And>y. parse_ty n y = NoFuel \<or> parse_ty n y = parse_ty m y"
  then show "parse_ty (Suc n) x = NoFuel \<or> parse_ty (Suc n) x = parse_ty (Suc m) x"
    using approx_ty_node [of "parse_ty n" "parse_ty m" x] by (simp add: approx_def)
qed

lemma parse_ty_approx: "approx (parse_ty n s) (p_ty s)"
  using types.agree [of n s "sexp_depth s + 1"] p_ty_total [of s]
  by (auto simp: approx_def p_ty_def simp del: parse_ty.simps)

text \<open>The fuel is invisible: \<open>p_ty\<close> satisfies the recursion equation of the code.\<close>

lemma p_ty_equation: "p_ty s = p_ty_node p_ty s"
proof -
  have "approx (p_ty s) (p_ty_node p_ty s)"
    using approx_ty_node [of "parse_ty (sexp_depth s)" p_ty s] parse_ty_approx by (simp add: p_ty_def)
  with p_ty_total show ?thesis by (auto simp: approx_def)
qed

subsection \<open>Operands and expressions\<close>

lemma answers_ty [answering]: "answers d p_ty"
  by (simp add: answers_def p_ty_total)

lemma answered_p_ty [simp]: "answered (p_ty s)"
  by (simp add: answered_def p_ty_total)

lemma answers_argument [answering]: "answers d p_argument"
  by (auto simp: answers_iff p_argument_def intro!: answer_intros)

lemma answers_arguments [answering]: "answers d p_arguments"
  unfolding answers_iff p_arguments_def
  by (auto intro!: answer_intros answered_traverse [OF answers_argument order_refl])

lemma answers_literal [answering]: "answers d p_literal" "answers d p_op_class"
  by (auto simp: answers_iff p_literal_def p_op_class_def split: sexp.split option.split intro!: answer_intros)

lemma answers_operand_pair [answering]:
  assumes "answers d rop" shows "answers d (p_operand_pair rop ctx)"
  by (auto simp: answers_iff p_operand_pair_def intro!: answer_intros answered_nth [OF assms])

lemma answers_instruction_arg [answering]:
  assumes "answers d rop" shows "answers d (p_instruction_arg rop)"
  by (auto simp: answers_iff p_instruction_arg_def intro!: answer_intros answered_nth [OF assms])

lemma answers_instruction [answering]:
  assumes "answers d rop" shows "answers d (p_instruction rop)"
  by (auto simp: answers_iff p_instruction_def
      intro!: answer_intros answered_at answered_from answering assms intro: less_imp_le)

lemma answers_tuple_arg [answering]:
  assumes "answers d rex" shows "answers d (p_tuple_arg rex)"
  by (auto simp: answers_iff p_tuple_arg_def
      intro!: answer_intros answered_at [of d] answered_from [of d] answering assms intro: less_imp_le)

lemma answers_map_arg [answering]:
  assumes "answers d rex" shows "answers d (p_map_arg rex)"
  by (auto simp: answers_iff p_map_arg_def intro!: answer_intros answered_nth [OF assms])

lemma answers_let_binding [answering]:
  assumes "answers d rex" shows "answers d (p_let_binding rex)"
  using answers_argument
  by (auto simp: answers_iff p_let_binding_def intro!: answer_intros answered_nth [OF assms])

lemma answers_fun [answering]:
  assumes "answers d rex" shows "answers d (p_fun rex)"
  by (auto simp: answers_iff p_fun_def
      intro!: answer_intros answered_at [of d] answering assms intro: less_imp_le)

lemma answers_path_element [answering]:
  assumes "answers d rex" shows "answers d (p_path_element rex)"
  by (auto simp: answers_iff p_path_element_def split: sexp.split
      intro!: answer_intros answered_nth [OF assms])

lemma tail_depth: "sexp_depth (SList (x # l)) < d \<Longrightarrow> sexp_depth (SList l) \<le> d"
  by (auto simp: sexp_depth.simps(1))

lemma answers_instructions [answering]:
  assumes "answers d rop" shows "answers d (p_instructions rop)"
  by (auto simp: answers_iff p_instructions_def
      intro!: answer_intros answered_traverse [of d] answering assms intro: tail_depth)

lemmas answer_steps = answer_intros answering answered_simps(5) [THEN iffD2] answered_simps(1,2)

lemma answered_state_value:
  assumes rop: "answers d rop" and l: "sexp_depth (SList l) \<le> d"
  shows "answered (p_state_value rop l)"
  unfolding p_state_value_def
  by (intro answer_steps answered_at [OF _ l] answered_from [OF _ l] rop)

lemma drop_depth: "sexp_depth (SList (drop i l)) \<le> sexp_depth (SList l)"
proof (induction l arbitrary: i)
  case (Cons x l)
  then show ?case by (cases i) (auto simp: sexp_depth.simps(1) le_max_iff_disj)
qed simp

lemma answered_operand_form:
  assumes rop: "answers d rop" and l: "sexp_depth (SList l) \<le> d" and rex: "answered (rex s)"
  shows "answered (p_operand_form rop rex s h l)"
proof -
  have "sexp_depth (SList (drop 1 l)) \<le> d"
    using drop_depth l by (rule order_trans)
  then have sv: "tail_or_panic l 1 = Ok x \<Longrightarrow> answered (p_state_value rop x)" for x
    using answered_state_value [OF rop] by (simp add: tail_or_panic_def split: if_splits)
  show ?thesis
    unfolding p_operand_form_def
    by (intro answer_steps answered_at [OF _ l] answered_from [OF _ l] rop rex answered_simps(8) sv)
qed

lemma answered_operand_node:
  assumes rop: "answers (sexp_depth s) rop" and rex: "answered (rex s)"
  shows "answered (p_operand_node rop rex s)"
  unfolding p_operand_node_def using rop rex
  by (auto split: sexp.split option.split
      intro!: answered_rbind answered_operand_form [where d = "sexp_depth s"] answered_traverse [where d = "sexp_depth s"])

lemma p_at_Ok_iff: "p_at l i rd = Ok x \<longleftrightarrow> i < length l \<and> rd (l ! i) = Ok x"
  by (auto simp: p_at_def)

lemma answered_groups:
  assumes rop: "answers d rop" and rex: "answers d rex" and l: "sexp_depth (SList l) \<le> d"
  shows "p_expr_access rex h l = Some r \<Longrightarrow> answered r"
    and "p_expr_sequence rex h l = Some r \<Longrightarrow> answered r"
    and "p_expr_arithmetic rex h l = Some r \<Longrightarrow> answered r"
    and "p_expr_control rex h l = Some r \<Longrightarrow> answered r"
    and "p_expr_cast rex h l = Some r \<Longrightarrow> answered r"
    and "p_expr_effect rop rex h l = Some r \<Longrightarrow> answered r"
proof -
  note at = answered_at [OF _ l] and fr = answered_from [OF _ l]
  have shapes: "answered (ty_expr_expr rex l mk)" "answered (nat_expr_expr rex l k mk')" "answered (ty_ty_expr rex l mk'')"
    for mk mk' mk'' k
    unfolding ty_expr_expr_def nat_expr_expr_def ty_ty_expr_def
    by (intro answer_steps at fr rex)+
  note steps = at fr rop rex shapes
  show "p_expr_access rex h l = Some r \<Longrightarrow> answered r"
    unfolding p_expr_access_def by (auto split: if_splits intro!: answer_steps steps)
  show "p_expr_sequence rex h l = Some r \<Longrightarrow> answered r"
    unfolding p_expr_sequence_def by (auto split: if_splits intro!: answer_steps steps)
  show "p_expr_arithmetic rex h l = Some r \<Longrightarrow> answered r"
    unfolding p_expr_arithmetic_def by (auto split: if_splits intro!: answer_steps steps)
  show "p_expr_cast rex h l = Some r \<Longrightarrow> answered r"
    unfolding p_expr_cast_def by (auto split: if_splits intro!: answer_steps steps)
  show "p_expr_control rex h l = Some r \<Longrightarrow> answered r"
    unfolding p_expr_control_def 
    by (auto simp: p_at_Ok_iff split: if_splits intro!: answer_steps steps answered_nth [OF rex] answered_traverse [of d]
        intro: nested_depth [OF _ _ l] nested_depth [OF sym _ l])
  show "p_expr_effect rop rex h l = Some r \<Longrightarrow> answered r"
    unfolding p_expr_effect_def
    by (auto simp: p_at_Ok_iff split: if_splits intro!: answer_steps steps answered_nth [OF rex] answered_traverse [of d]
        intro: nested_depth [OF _ _ l] nested_depth [OF sym _ l])
qed

lemma answered_choice:
  "(\<And>r. x = Some r \<Longrightarrow> answered r) \<Longrightarrow> answered m \<Longrightarrow> answered (case x of None \<Rightarrow> m | Some r \<Rightarrow> r)"
  by (cases x) simp_all

lemma answered_expr_node:
  assumes "answers (sexp_depth s) rop" "answers (sexp_depth s) rex"
  shows "answered (p_expr_node rop rex s)"
proof (cases s)
  case (SList l)
  have "sexp_depth (SList l) \<le> sexp_depth s" by (simp add: SList)
  note groups = answered_groups [OF assms this]
  have "answered (p_expr_form rop rex h l)" for h
    unfolding p_expr_form_def by (intro answered_choice answered_elementary) (erule groups)+
  with SList show ?thesis by (auto simp: p_expr_node_def intro!: answered_rbind)
qed (auto simp: p_expr_node_def intro!: answered_rbind)

lemma parse_answers:
  "(2 * sexp_depth s + 2 \<le> n \<longrightarrow> answered (parse_operand n s)) \<and>
   (2 * sexp_depth s + 1 \<le> n \<longrightarrow> answered (parse_expr n s))"
proof (induction n arbitrary: s)
  case (Suc n)
  then have rop: "answers (sexp_depth s) (parse_operand n)" and rex: "answers (sexp_depth s) (parse_expr n)"
    if "2 * sexp_depth s \<le> n" for s
    using that by (auto simp: answers_iff)
  show ?case
    using Suc rop [of s] rex [of s]
    by (auto intro!: answered_operand_node answered_expr_node)
qed simp

lemma p_expr_total: "p_expr s \<noteq> NoFuel"
  using parse_answers [of s "2 * sexp_depth s + 1"] by (simp add: p_expr_def answered_def del: parse_expr.simps)

text \<open>\<^verbatim>\<open>operand\<close> with enough fuel.\<close>

definition p_operand :: "sexp \<Rightarrow> expr operand parsed" where
  "p_operand s = parse_operand (2 * sexp_depth s + 2) s"

lemma p_operand_total: "p_operand s \<noteq> NoFuel"
  using parse_answers [of s "2 * sexp_depth s + 2"]
  by (simp add: p_operand_def answered_def del: parse_operand.simps)

lemma approx_operand_node:
  assumes "\<And>x. approx (rop x) (rop' x)" "\<And>x. approx (rex x) (rex' x)"
  shows "approx (p_operand_node rop rex s) (p_operand_node rop' rex' s)"
  unfolding p_operand_node_def p_operand_form_def p_state_value_def p_operand_pair_def
  by (intro approx_intros assms)

lemma approx_Some: "approx r r' \<Longrightarrow> rel_option approx (Some r) (Some r')"
  by simp

lemma rel_option_if:
  "rel_option R a a' \<Longrightarrow> rel_option R b b' \<Longrightarrow> rel_option R (if c then a else b) (if c then a' else b')"
  by simp

lemma approx_groups:
  assumes rop: "\<And>x. approx (rop x) (rop' x)" and rex: "\<And>x. approx (rex x) (rex' x)"
  shows "rel_option approx (p_expr_access rex h l) (p_expr_access rex' h l)"
    and "rel_option approx (p_expr_sequence rex h l) (p_expr_sequence rex' h l)"
    and "rel_option approx (p_expr_arithmetic rex h l) (p_expr_arithmetic rex' h l)"
    and "rel_option approx (p_expr_control rex h l) (p_expr_control rex' h l)"
    and "rel_option approx (p_expr_cast rex h l) (p_expr_cast rex' h l)"
    and "rel_option approx (p_expr_effect rop rex h l) (p_expr_effect rop' rex' h l)"
  unfolding p_expr_access_def p_expr_sequence_def p_expr_arithmetic_def p_expr_control_def p_expr_cast_def
    p_expr_effect_def ty_expr_expr_def nat_expr_expr_def ty_ty_expr_def p_tuple_arg_def p_map_arg_def
    p_fun_def p_let_binding_def p_path_element_def p_instructions_def p_instruction_def p_instruction_arg_def
  by (intro rel_option_if approx_Some approx_intros rop rex option.rel_intros(1))+

lemma approx_choice:
  "rel_option approx x y \<Longrightarrow> approx m m' \<Longrightarrow>
   approx (case x of None \<Rightarrow> m | Some r \<Rightarrow> r) (case y of None \<Rightarrow> m' | Some r \<Rightarrow> r)"
  by (cases x; cases y) simp_all

lemma approx_expr_node:
  assumes "\<And>x. approx (rop x) (rop' x)" "\<And>x. approx (rex x) (rex' x)"
  shows "approx (p_expr_node rop rex s) (p_expr_node rop' rex' s)"
  unfolding p_expr_node_def p_expr_form_def
  by (intro approx_rbind approx_refl approx_choice approx_groups [OF assms])

lemma parse_approx:
  "n \<le> m \<Longrightarrow> approx (parse_operand n s) (parse_operand m s) \<and> approx (parse_expr n s) (parse_expr m s)"
proof (induction n arbitrary: m s)
  case 0
  show ?case by (simp add: approx_def)
next
  case (Suc n)
  then obtain k where "m = Suc k" "n \<le> k" by (cases m) auto
  with Suc.IH show ?case by (simp add: approx_operand_node approx_expr_node)
qed

lemma parse_approx_full: "approx (parse_operand n s) (p_operand s)" "approx (parse_expr n s) (p_expr s)"
proof -
  let ?m = "n + 2 * sexp_depth s + 2"
  have "approx (parse_operand n s) (parse_operand ?m s)" "approx (p_operand s) (parse_operand ?m s)"
    "approx (parse_expr n s) (parse_expr ?m s)" "approx (p_expr s) (parse_expr ?m s)"
    unfolding p_operand_def p_expr_def by (simp_all only: parse_approx add_leE le_add1 add.assoc le_add2) 
  then show "approx (parse_operand n s) (p_operand s)" "approx (parse_expr n s) (p_expr s)"
    using p_operand_total [of s] p_expr_total [of s] by (auto simp: approx_def)
qed

lemma p_operand_equation: "p_operand s = p_operand_node p_operand p_expr s"
proof -
  let ?n = "2 * sexp_depth s + 1"
  have n: "2 * sexp_depth s + 2 = Suc ?n" by simp
  have "p_operand s = p_operand_node (parse_operand ?n) (parse_expr ?n) s"
    unfolding p_operand_def n by (rule parse_operand.simps(2))
  with approx_operand_node [OF parse_approx_full]
  have "approx (p_operand s) (p_operand_node p_operand p_expr s)" by simp
  with p_operand_total show ?thesis by (auto simp: approx_def)
qed

lemma p_expr_equation: "p_expr s = p_expr_node p_operand p_expr s"
proof -
  have "approx (p_expr s) (p_expr_node p_operand p_expr s)"
    using approx_expr_node [of "parse_operand (2 * sexp_depth s)" p_operand
        "parse_expr (2 * sexp_depth s)" p_expr s] parse_approx_full
    by (simp add: p_expr_def)
  with p_expr_total show ?thesis by (auto simp: approx_def)
qed

lemma flatten_answers: "answers n (flatten_fuel n)"
proof (induction n)
  case 0
  show ?case by (simp add: answers_def)
next
  case (Suc n)
  have "answered (flatten_node (flatten_fuel n) s)" if s: "sexp_depth s < Suc n" for s
  proof -
    have binding: "answered (p_ledger_binding e)" for e
      unfolding p_ledger_binding_def
      by (auto intro!: answered_rbind answered_traverse [where d = "sexp_depth (SList _)"] answering)
    have "answered (traverse (\<lambda>e. if head_sym e = Some ''public-ledger-array'' then flatten_fuel n e
        else rmap (\<lambda>b. [b]) (p_ledger_binding e)) es)" if "s = SList (x # es)" for x es
      using Suc.IH s that drop_depth [of 1 "x # es"] binding
      by (intro answered_traverse [where d = n]) (auto simp: answers_iff less_Suc_eq_le)
    then show ?thesis
      unfolding flatten_node_def by (auto intro!: answered_rbind)
  qed
  then show ?case by (auto simp: answers_iff)
qed

lemma flatten_total: "answered (flatten_pl_array s)"
  using flatten_answers [of "sexp_depth s + 1"] by (simp add: flatten_pl_array_def answers_iff del: flatten_fuel.simps)

lemma answered_everywhere:
  assumes "\<And>d. answers d rd"
  shows "answered (p_at l i rd)" "answered (p_from l i rd)" "answered (traverse rd l)" "answered (rd s)"
  by (rule answered_at [OF assms order_refl] answered_from [OF assms order_refl]
      answered_traverse [OF assms order_refl])+ (use assms [of "Suc (sexp_depth s)"] in \<open>simp add: answers_iff\<close>)

lemma answers_everywhere:
  "answers d p_expr" "answers d flatten_pl_array" "answers d p_ledger_binding" "answers d p_export"
proof -
  show "answers d p_expr" by (simp add: answers_def p_expr_total)
  show "answers d flatten_pl_array" by (simp add: answers_iff flatten_total)
  show "answers d p_ledger_binding"
    unfolding answers_iff p_ledger_binding_def
    by (auto intro!: answered_rbind answered_everywhere(3) answering)
  show "answers d p_export"
    by (auto simp: answers_iff p_export_def split: sexp.split intro!: answered_rbind)
qed

lemma answered_program_element: "answered (p_program_element s)"
  unfolding p_program_element_def p_circuit_def p_native_def p_witness_def p_ledger_declaration_def
  by (intro answer_intros answered_everywhere(1-3) answering answers_everywhere answered_elementary
      answered_simps(5) [THEN iffD2] answered_simps(1,2)
      answered_everywhere(4) [of p_arguments] answered_everywhere(4) [of p_expr])

lemma answered_artifact: "answered (p_artifact_elements es acc)"
proof (induction es arbitrary: acc)
  case (Cons e es)
  have "answered (p_artifact_element e acc)"
    unfolding p_artifact_element_def p_version_def
    by (intro answer_intros answered_elementary answered_everywhere(2) answering answers_everywhere
        answered_program_element answered_simps(1))
  with Cons.IH show ?case by (auto intro!: answered_rbind)
qed simp

lemma parse_sexp_answers: "answered (parse_sexp s)"
  unfolding parse_sexp_def compiler_version_def p_version_def
  by (intro answer_intros answered_elementary answered_artifact answered_simps)

text \<open>
  C21: reading an artifact ends: on every text the reader and the parser return a program, an
  error or a panic, the fuel of the model is never what stops them, and the parser of
  expressions with its fuel satisfies the recursion equation of the code.
\<close>

theorem parse_str_total:
  "parse_str src \<noteq> NoFuel \<and> p_expr s = p_expr_node p_operand p_expr s \<and>
   p_operand s = p_operand_node p_operand p_expr s \<and> p_ty s = p_ty_node p_ty s"
  using parse_sexp_answers read_one_answers(1) [of src] p_expr_equation p_operand_equation p_ty_equation
  by (auto simp: parse_str_def answered_def rbind_NoFuel_iff)

end
