(* ===== verification/IrPrint.thy ===== *)
theory IrPrint
  imports IrParse
begin

text \<open>
  The grammar that \<^verbatim>\<open>crates/compact/analyzed-ir/src/parse.rs\<close> accepts, written as a
  printer from the model to datums, and the proof that the parser inverts it on every type,
  operand and expression form. The printer is a specification: the code has none. A program
  of the model is printable when no ledger ADT has the name of a type form and no unknown
  instruction the name of a known one, because the parser reads those names as the form.
\<close>

section \<open>Printing\<close>

definition form :: "string \<Rightarrow> sexp list \<Rightarrow> sexp" where
  "form h xs = SList (SSym h # xs)"

definition u64_sexp :: "u64 \<Rightarrow> sexp" where "u64_sexp n = SInt (int (unat n))"
definition nat_sexp :: "nat \<Rightarrow> sexp" where "nat_sexp n = SInt (int n)"

fun curve_sexp :: "curve \<Rightarrow> sexp" where
  "curve_sexp Jubjub = form ''curve-jubjub'' []"
| "curve_sexp Secp256k1 = form ''curve-secp256k1'' []"
| "curve_sexp Secp256r1 = form ''curve-secp256r1'' []"
| "curve_sexp Curve25519 = form ''curve-curve25519'' []"

fun field_type_sexp :: "field_type \<Rightarrow> sexp" where
  "field_type_sexp FNative = form ''field-native'' []"
| "field_type_sexp (FBase c) = form ''field-base'' [curve_sexp c]"
| "field_type_sexp (FScalar c) = form ''field-scalar'' [curve_sexp c]"

fun ty_sexp :: "ty \<Rightarrow> sexp" and adt_arg_sexp :: "adt_arg \<Rightarrow> sexp"
  and circuit_sexp :: "contract_circuit \<Rightarrow> sexp" where
  "ty_sexp TyBoolean = form ''tboolean'' []"
| "ty_sexp (TyField f) = form ''tfield'' [field_type_sexp f]"
| "ty_sexp (TyUnsigned n) = form ''tunsigned'' [nat_sexp n]"
| "ty_sexp (TyPoint c) = form ''tpoint'' [curve_sexp c]"
| "ty_sexp (TyBytes n) = form ''tbytes'' [u64_sexp n]"
| "ty_sexp (TyOpaque v) = form ''topaque'' [SStr v]"
| "ty_sexp (TyVector n t) = form ''tvector'' [u64_sexp n, ty_sexp t]"
| "ty_sexp (TyTuple ts) = form ''ttuple'' (map ty_sexp ts)"
| "ty_sexp (TyStruct name fs) =
     form ''tstruct'' (SSym name # map (\<lambda>(n, t). SList [SSym n, ty_sexp t]) fs)"
| "ty_sexp (TyEnum name vs) = form ''tenum'' (SSym name # map SSym vs)"
| "ty_sexp (TyAlias b name t) = form ''talias'' [SBool b, SSym name, ty_sexp t]"
| "ty_sexp (TyContract name cs) = form ''tcontract'' (SSym name # map circuit_sexp cs)"
| "ty_sexp (TyAdt name as) = form name (map adt_arg_sexp as)"
| "ty_sexp (TyVar v) = SSym v"
| "ty_sexp TyUnknown = form ''tunknown'' []"
| "adt_arg_sexp (AdtNat n) = u64_sexp n"
| "adt_arg_sexp (AdtType t) = ty_sexp t"
| "circuit_sexp (ContractCircuit name b ts t) =
     SList [SSym name, SBool b, SList (map ty_sexp ts), ty_sexp t]"

definition type_heads :: "string list" where
  "type_heads = [''tboolean'', ''tfield'', ''tunsigned'', ''tpoint'', ''tbytes'', ''topaque'', ''tvector'',
     ''ttuple'', ''tstruct'', ''tenum'', ''talias'', ''tcontract'', ''tunknown'']"

fun ty_ok :: "ty \<Rightarrow> bool" and adt_arg_ok :: "adt_arg \<Rightarrow> bool"
  and circuit_ok :: "contract_circuit \<Rightarrow> bool" where
  "ty_ok (TyVector n t) = ty_ok t"
| "ty_ok (TyTuple ts) = list_all ty_ok ts"
| "ty_ok (TyStruct name fs) = list_all (\<lambda>(n, t). ty_ok t) fs"
| "ty_ok (TyAlias b name t) = ty_ok t"
| "ty_ok (TyContract name cs) = list_all circuit_ok cs"
| "ty_ok (TyAdt name as) \<longleftrightarrow> name \<notin> set type_heads \<and> list_all adt_arg_ok as"
| "ty_ok t = True"
| "adt_arg_ok (AdtNat n) = True"
| "adt_arg_ok (AdtType t) = ty_ok t"
| "circuit_ok (ContractCircuit name b ts t) \<longleftrightarrow> list_all ty_ok ts \<and> ty_ok t"

section \<open>Types\<close>

named_theorems printed \<open>how the parser reads what the printer writes\<close>

lemma traverse_printed:
  "(\<And>x. x \<in> set xs \<Longrightarrow> f (g x) = Ok x) \<Longrightarrow> traverse f (map g xs) = Ok xs"
  by (induction xs) auto

lemma p_elementary_printed [printed]:
  "p_sym (SSym v) ctx = Ok v" "p_ident (SSym v) ctx = Ok v" "p_string (SStr v) ctx = Ok v"
  "p_boolean (SBool b) ctx = Ok b" "p_big_nat (nat_sexp n) ctx = Ok n" "p_list (SList l) ctx = Ok l"
  by (simp_all add: p_sym_def p_ident_def p_string_def p_boolean_def p_big_nat_def nat_sexp_def)

lemma p_nat_printed [printed]: "p_nat (u64_sexp w) ctx = Ok w"
  using unsigned_less [of w, where ?'a = nat] by (simp add: p_nat_def p_big_nat_def u64_sexp_def)

lemma p_at_cons [printed]:
  "p_at (x # l) 0 rd = rd x" "p_at (x # l) (Suc i) rd = p_at l i rd"
  "p_at (x # l) (numeral k) rd = p_at l (pred_numeral k) rd"
  by (simp_all add: p_at_def index_or_panic_def numeral_eq_Suc)

lemma p_from_cons [printed]:
  "p_from l 0 rd = traverse rd l" "p_from (x # l) (Suc i) rd = p_from l i rd"
  "p_from (x # l) (numeral k) rd = p_from l (pred_numeral k) rd"
  by (simp_all add: p_from_def tail_or_panic_def numeral_eq_Suc)

lemma p_fixed_printed [printed]: "p_fixed n (SList l) ctx = (if length l = n then Ok l else unrecognized ctx)"
  by (simp add: p_fixed_def p_list_def)

lemma p_curve_printed [printed]: "p_curve (curve_sexp c) = Ok c"
  by (cases c) (simp_all add: p_curve_def form_def)

lemma p_field_type_printed [printed]: "p_field_type (field_type_sexp f) = Ok f"
  by (cases f) (simp_all add: p_field_type_def form_def first_sym_def printed)

lemma ty_sexp_not_int: "ty_sexp t \<noteq> SInt i"
  by (cases t) (simp_all add: form_def)

lemma p_ty_printed_all:
  "ty_ok t \<Longrightarrow> p_ty (ty_sexp t) = Ok t"
  "adt_arg_ok a \<Longrightarrow> p_adt_arg p_ty (adt_arg_sexp a) = Ok a"
  "circuit_ok c \<Longrightarrow> p_contract_circuit p_ty (circuit_sexp c) = Ok c"
proof (induction t and a and c rule: ty_sexp_adt_arg_sexp_circuit_sexp.induct)
  case (9 name fs)
  have "traverse (p_struct_field p_ty) (map (\<lambda>(n, t). SList [SSym n, ty_sexp t]) fs) = Ok fs"
    using 9 by (intro traverse_printed) (fastforce simp: p_struct_field_def printed list_all_iff)
  then show ?case
    by (subst p_ty_equation) (simp add: p_ty_node_def p_ty_form_def p_ty_struct_def form_def first_sym_def printed)
next
  case (13 name as)
  then show ?case
    by (subst p_ty_equation) (simp add: p_ty_node_def p_ty_form_def form_def first_sym_def printed
        type_heads_def traverse_printed list_all_iff)
next
  case (17 t)
  then show ?case by (cases "ty_sexp t") (auto simp: p_adt_arg_def ty_sexp_not_int)
next
  case (16 n)
  show ?case using p_nat_printed [of n "''adt-arg''"] by (simp add: p_adt_arg_def u64_sexp_def)
next
  case (18 name b ts t)
  then show ?case by (simp add: p_contract_circuit_def printed traverse_printed list_all_iff)
qed (subst p_ty_equation; simp add: p_ty_node_def p_ty_form_def p_ty_vector_def p_ty_enum_def
    p_ty_alias_def p_ty_contract_def form_def first_sym_def printed traverse_printed list_all_iff; fail)+

lemmas p_ty_printed [printed] = p_ty_printed_all(1)

section \<open>Operands and expressions\<close>

definition pair_sexp :: "sexp \<times> sexp \<Rightarrow> sexp" where
  "pair_sexp p = SList [fst p, snd p]"

fun state_value_sexps :: "sexp state_value \<Rightarrow> sexp list" where
  "state_value_sexps SvNull = [SSym ''null'']"
| "state_value_sexps (SvCell v) = [SSym ''cell'', v]"
| "state_value_sexps (SvAdt v t) = [SSym ''ADT'', v, ty_sexp t]"
| "state_value_sexps (SvArray vs) = SSym ''array'' # vs"
| "state_value_sexps (SvMap kvs) = SSym ''map'' # map pair_sexp kvs"
| "state_value_sexps (SvMerkleTree d kvs) = SSym ''merkle-tree'' # u64_sexp d # map pair_sexp kvs"

primrec operand_sexp :: "sexp operand \<Rightarrow> sexp" where
  "operand_sexp (OInt i) = SInt i"
| "operand_sexp (OBool b) = SBool b"
| "operand_sexp (OStr v) = SStr v"
| "operand_sexp (OAlign v n) = form ''align'' [nat_sexp v, u64_sexp n]"
| "operand_sexp OStack = form ''stack'' []"
| "operand_sexp OVoid = form ''void'' []"
| "operand_sexp (OValueToInt v) = form ''value->int'' [operand_sexp v]"
| "operand_sexp (ONull t) = form ''null'' [ty_sexp t]"
| "operand_sexp (OMaxSizeof t) = form ''max-sizeof'' [ty_sexp t]"
| "operand_sexp (OAdd a b) = form ''+'' [operand_sexp a, operand_sexp b]"
| "operand_sexp (OLeafHash v) = form ''leaf-hash'' [operand_sexp v]"
| "operand_sexp (OCoinCommit a b) = form ''coin-commit'' [operand_sexp a, operand_sexp b]"
| "operand_sexp (OAlignedConcat vs) = form ''aligned-concat'' (map operand_sexp vs)"
| "operand_sexp (OStateValue sv) = form ''state-value'' (state_value_sexps (map_state_value operand_sexp sv))"
| "operand_sexp (OExpr e) = e"
| "operand_sexp (OList vs) = SList (map operand_sexp vs)"

fun instruction_sexp :: "sexp instruction \<Rightarrow> sexp" where
  "instruction_sexp (Instruction op args) =
     SList (SSym (op_as_str op) # map (\<lambda>(n, v). SList [SSym n, v]) args)"

definition instructions_sexp :: "sexp instruction list \<Rightarrow> sexp" where
  "instructions_sexp is = form ''instructions'' (map instruction_sexp is)"

definition argument_sexp :: "argument \<Rightarrow> sexp" where
  "argument_sexp a = SList [SSym (arg_name a), ty_sexp (arg_ty a)]"

fun tuple_arg_sexp :: "sexp tuple_arg \<Rightarrow> sexp" where
  "tuple_arg_sexp (Single e) = form ''single'' [e]"
| "tuple_arg_sexp (Spread n e) = form ''spread'' [u64_sexp n, e]"

fun map_arg_sexp :: "sexp map_arg \<Rightarrow> sexp" where
  "map_arg_sexp (MapArg e t element_t) = SList [e, ty_sexp t, ty_sexp element_t]"

fun fun_sexp :: "sexp ir_fun \<Rightarrow> sexp" where
  "fun_sexp (FunRef name) = form ''fref'' [SSym name]"
| "fun_sexp (FunCircuit args t body) = form ''circuit'' [SList (map argument_sexp args), ty_sexp t, body]"

fun path_element_sexp :: "sexp path_element \<Rightarrow> sexp" where
  "path_element_sexp (PathIndex n) = u64_sexp n"
| "path_element_sexp (PathComputed t e) = SList [ty_sexp t, e]"

fun literal_sexp :: "literal \<Rightarrow> sexp" where
  "literal_sexp (LInt i) = SInt i"
| "literal_sexp (LBool b) = SBool b"
| "literal_sexp (LBytes b) = SBytes b"

fun op_class_sexp :: "op_class \<Rightarrow> sexp" where
  "op_class_sexp (Plain name) = SSym name"
| "op_class_sexp (CoinCheck name coin recipient) = SList [SSym name, u64_sexp coin, u64_sexp recipient]"

primrec expr_sexp :: "expr \<Rightarrow> sexp" where
  "expr_sexp (EQuote v) = form ''quote'' [literal_sexp v]"
| "expr_sexp (EVarRef v) = form ''var-ref'' [SSym v]"
| "expr_sexp (EDefault t) = form ''default'' [ty_sexp t]"
| "expr_sexp (EIf c t e) = form ''if'' [expr_sexp c, expr_sexp t, expr_sexp e]"
| "expr_sexp (EEltRef e n i) = form ''elt-ref'' [expr_sexp e, SSym n, u64_sexp i]"
| "expr_sexp (EEnumRef t n) = form ''enum-ref'' [ty_sexp t, SSym n]"
| "expr_sexp (ETuple as) = form ''tuple'' (map tuple_arg_sexp (map (map_tuple_arg expr_sexp) as))"
| "expr_sexp (EVectorLit as) = form ''vector'' (map tuple_arg_sexp (map (map_tuple_arg expr_sexp) as))"
| "expr_sexp (ETupleRef e i) = form ''tuple-ref'' [expr_sexp e, u64_sexp i]"
| "expr_sexp (ETupleSlice t e i n) = form ''tuple-slice'' [ty_sexp t, expr_sexp e, u64_sexp i, u64_sexp n]"
| "expr_sexp (EVectorRef t e i) = form ''vector-ref'' [ty_sexp t, expr_sexp e, expr_sexp i]"
| "expr_sexp (EVectorSlice t e i n) = form ''vector-slice'' [ty_sexp t, expr_sexp e, expr_sexp i, u64_sexp n]"
| "expr_sexp (EBytesRef t e i) = form ''bytes-ref'' [ty_sexp t, expr_sexp e, expr_sexp i]"
| "expr_sexp (EBytesSlice t e i n) = form ''bytes-slice'' [ty_sexp t, expr_sexp e, expr_sexp i, u64_sexp n]"
| "expr_sexp (EAdd t a b) = form ''+'' [ty_sexp t, expr_sexp a, expr_sexp b]"
| "expr_sexp (ESub t a b) = form ''-'' [ty_sexp t, expr_sexp a, expr_sexp b]"
| "expr_sexp (EMul t a b) = form ''*'' [ty_sexp t, expr_sexp a, expr_sexp b]"
| "expr_sexp (ELt n a b) = form ''<'' [u64_sexp n, expr_sexp a, expr_sexp b]"
| "expr_sexp (ELe n a b) = form ''<='' [u64_sexp n, expr_sexp a, expr_sexp b]"
| "expr_sexp (EGt n a b) = form ''>'' [u64_sexp n, expr_sexp a, expr_sexp b]"
| "expr_sexp (EGe n a b) = form ''>='' [u64_sexp n, expr_sexp a, expr_sexp b]"
| "expr_sexp (EEq t a b) = form ''=='' [ty_sexp t, expr_sexp a, expr_sexp b]"
| "expr_sexp (ENeq t a b) = form ''!='' [ty_sexp t, expr_sexp a, expr_sexp b]"
| "expr_sexp (EMap n f as) =
     form ''map'' (u64_sexp n # fun_sexp (map_ir_fun expr_sexp f) #
       map map_arg_sexp (map (map_map_arg expr_sexp) as))"
| "expr_sexp (EFold n f i t as) =
     form ''fold'' (u64_sexp n # fun_sexp (map_ir_fun expr_sexp f) # SList [expr_sexp i, ty_sexp t] #
       map map_arg_sexp (map (map_map_arg expr_sexp) as))"
| "expr_sexp (ECall n as) = form ''call'' (SSym n # map expr_sexp as)"
| "expr_sexp (ENew t es) = form ''new'' (ty_sexp t # map expr_sexp es)"
| "expr_sexp (ESeq es) = form ''seq'' (map expr_sexp es)"
| "expr_sexp (ELetStar bs e) =
     form ''let*'' [SList (map (\<lambda>(a, v). SList [argument_sexp a, v]) (map (map_prod id expr_sexp) bs)), expr_sexp e]"
| "expr_sexp (EAssert e m) = form ''assert'' [expr_sexp e, SStr m]"
| "expr_sexp (EFieldToBytes n f e) = form ''field->bytes'' [u64_sexp n, field_type_sexp f, expr_sexp e]"
| "expr_sexp (ECastFromBytes t n e) = form ''cast-from-bytes'' [ty_sexp t, u64_sexp n, expr_sexp e]"
| "expr_sexp (EVectorToBytes n e) = form ''vector->bytes'' [u64_sexp n, expr_sexp e]"
| "expr_sexp (EBytesToVector n e) = form ''bytes->vector'' [u64_sexp n, expr_sexp e]"
| "expr_sexp (ECastFromEnum t f e) = form ''cast-from-enum'' [ty_sexp t, ty_sexp f, expr_sexp e]"
| "expr_sexp (ECastToEnum t f e) = form ''cast-to-enum'' [ty_sexp t, ty_sexp f, expr_sexp e]"
| "expr_sexp (ECastToField f t e) = form ''cast-to-field'' [field_type_sexp f, ty_sexp t, expr_sexp e]"
| "expr_sexp (ECastFromField n f e) = form ''cast-from-field'' [nat_sexp n, field_type_sexp f, expr_sexp e]"
| "expr_sexp (ESafeCast t f e) = form ''safe-cast'' [ty_sexp t, ty_sexp f, expr_sexp e]"
| "expr_sexp (EDowncastUnsigned a b e) = form ''downcast-unsigned'' [nat_sexp a, nat_sexp b, expr_sexp e]"
| "expr_sexp (EContractCall c r t as) =
     form ''contract-call'' (SSym c # SList [expr_sexp r, ty_sexp t] # map expr_sexp as)"
| "expr_sexp (EEmit v g n e is) =
     form ''emit'' [u64_sexp v, u64_sexp g, u64_sexp n, expr_sexp e,
       instructions_sexp (map (map_instruction operand_sexp) (map (map_instruction (map_operand expr_sexp)) is))]"
| "expr_sexp (EPublicLedger f c p op t is as) =
     form ''public-ledger'' (SSym f # op_class_sexp c #
       SList (map path_element_sexp (map (map_path_element expr_sexp) p)) # SSym op # ty_sexp t #
       instructions_sexp (map (map_instruction operand_sexp) (map (map_instruction (map_operand expr_sexp)) is)) #
       map expr_sexp as)"
| "expr_sexp (EReturn e) = form ''return'' [expr_sexp e]"

subsection \<open>Printable expressions\<close>

text \<open>The predicates take the verdict on a nested expression in its place.\<close>

fun state_value_ok :: "bool state_value \<Rightarrow> bool" where
  "state_value_ok (SvCell v) = v"
| "state_value_ok (SvAdt v t) \<longleftrightarrow> v \<and> ty_ok t"
| "state_value_ok (SvArray vs) = list_all id vs"
| "state_value_ok (SvMap kvs) = list_all (\<lambda>(k, v). k \<and> v) kvs"
| "state_value_ok (SvMerkleTree d kvs) = list_all (\<lambda>(k, v). k \<and> v) kvs"
| "state_value_ok SvNull = True"

primrec operand_ok :: "bool operand \<Rightarrow> bool" where
  "operand_ok (OInt i) = True"
| "operand_ok (OBool b) = True"
| "operand_ok (OStr v) = True"
| "operand_ok (OAlign v n) = True"
| "operand_ok OStack = True"
| "operand_ok OVoid = True"
| "operand_ok (OValueToInt v) = operand_ok v"
| "operand_ok (ONull t) = ty_ok t"
| "operand_ok (OMaxSizeof t) = ty_ok t"
| "operand_ok (OAdd a b) \<longleftrightarrow> operand_ok a \<and> operand_ok b"
| "operand_ok (OLeafHash v) = operand_ok v"
| "operand_ok (OCoinCommit a b) \<longleftrightarrow> operand_ok a \<and> operand_ok b"
| "operand_ok (OAlignedConcat vs) = list_all id (map operand_ok vs)"
| "operand_ok (OStateValue sv) = state_value_ok (map_state_value operand_ok sv)"
| "operand_ok (OExpr e) = e"
| "operand_ok (OList vs) = list_all id (map operand_ok vs)"

fun instruction_ok :: "bool instruction \<Rightarrow> bool" where
  "instruction_ok (Instruction op args) \<longleftrightarrow>
     op_from_str (op_as_str op) = op \<and> list_all snd args"

definition instructions_ok :: "bool operand instruction list \<Rightarrow> bool" where
  "instructions_ok is = list_all (\<lambda>i. instruction_ok (map_instruction operand_ok i)) is"

definition argument_ok :: "argument \<Rightarrow> bool" where
  "argument_ok a = ty_ok (arg_ty a)"

fun tuple_arg_ok :: "bool tuple_arg \<Rightarrow> bool" where
  "tuple_arg_ok (Single e) = e"
| "tuple_arg_ok (Spread n e) = e"

fun map_arg_ok :: "bool map_arg \<Rightarrow> bool" where
  "map_arg_ok (MapArg e t u) \<longleftrightarrow> e \<and> ty_ok t \<and> ty_ok u"

fun fun_ok :: "bool ir_fun \<Rightarrow> bool" where
  "fun_ok (FunRef name) = True"
| "fun_ok (FunCircuit args t body) \<longleftrightarrow> list_all argument_ok args \<and> ty_ok t \<and> body"

fun path_element_ok :: "bool path_element \<Rightarrow> bool" where
  "path_element_ok (PathIndex n) = True"
| "path_element_ok (PathComputed t e) \<longleftrightarrow> ty_ok t \<and> e"

primrec expr_ok :: "expr \<Rightarrow> bool" where
  "expr_ok (EQuote v) = True"
| "expr_ok (EVarRef v) = True"
| "expr_ok (EDefault t) = ty_ok t"
| "expr_ok (EIf c t e) \<longleftrightarrow> expr_ok c \<and> expr_ok t \<and> expr_ok e"
| "expr_ok (EEltRef e n i) = expr_ok e"
| "expr_ok (EEnumRef t n) = ty_ok t"
| "expr_ok (ETuple as) = list_all tuple_arg_ok (map (map_tuple_arg expr_ok) as)"
| "expr_ok (EVectorLit as) = list_all tuple_arg_ok (map (map_tuple_arg expr_ok) as)"
| "expr_ok (ETupleRef e i) = expr_ok e"
| "expr_ok (ETupleSlice t e i n) \<longleftrightarrow> ty_ok t \<and> expr_ok e"
| "expr_ok (EVectorRef t e i) \<longleftrightarrow> ty_ok t \<and> expr_ok e \<and> expr_ok i"
| "expr_ok (EVectorSlice t e i n) \<longleftrightarrow> ty_ok t \<and> expr_ok e \<and> expr_ok i"
| "expr_ok (EBytesRef t e i) \<longleftrightarrow> ty_ok t \<and> expr_ok e \<and> expr_ok i"
| "expr_ok (EBytesSlice t e i n) \<longleftrightarrow> ty_ok t \<and> expr_ok e \<and> expr_ok i"
| "expr_ok (EAdd t a b) \<longleftrightarrow> ty_ok t \<and> expr_ok a \<and> expr_ok b"
| "expr_ok (ESub t a b) \<longleftrightarrow> ty_ok t \<and> expr_ok a \<and> expr_ok b"
| "expr_ok (EMul t a b) \<longleftrightarrow> ty_ok t \<and> expr_ok a \<and> expr_ok b"
| "expr_ok (ELt n a b) \<longleftrightarrow> expr_ok a \<and> expr_ok b"
| "expr_ok (ELe n a b) \<longleftrightarrow> expr_ok a \<and> expr_ok b"
| "expr_ok (EGt n a b) \<longleftrightarrow> expr_ok a \<and> expr_ok b"
| "expr_ok (EGe n a b) \<longleftrightarrow> expr_ok a \<and> expr_ok b"
| "expr_ok (EEq t a b) \<longleftrightarrow> ty_ok t \<and> expr_ok a \<and> expr_ok b"
| "expr_ok (ENeq t a b) \<longleftrightarrow> ty_ok t \<and> expr_ok a \<and> expr_ok b"
| "expr_ok (EMap n f as) \<longleftrightarrow> fun_ok (map_ir_fun expr_ok f) \<and> list_all map_arg_ok (map (map_map_arg expr_ok) as)"
| "expr_ok (EFold n f i t as) \<longleftrightarrow>
     fun_ok (map_ir_fun expr_ok f) \<and> expr_ok i \<and> ty_ok t \<and> list_all map_arg_ok (map (map_map_arg expr_ok) as)"
| "expr_ok (ECall n as) = list_all id (map expr_ok as)"
| "expr_ok (ENew t es) \<longleftrightarrow> ty_ok t \<and> list_all id (map expr_ok es)"
| "expr_ok (ESeq es) = list_all id (map expr_ok es)"
| "expr_ok (ELetStar bs e) \<longleftrightarrow> list_all (\<lambda>(a, v). argument_ok a \<and> v) (map (map_prod id expr_ok) bs) \<and> expr_ok e"
| "expr_ok (EAssert e m) = expr_ok e"
| "expr_ok (EFieldToBytes n f e) = expr_ok e"
| "expr_ok (ECastFromBytes t n e) \<longleftrightarrow> ty_ok t \<and> expr_ok e"
| "expr_ok (EVectorToBytes n e) = expr_ok e"
| "expr_ok (EBytesToVector n e) = expr_ok e"
| "expr_ok (ECastFromEnum t f e) \<longleftrightarrow> ty_ok t \<and> ty_ok f \<and> expr_ok e"
| "expr_ok (ECastToEnum t f e) \<longleftrightarrow> ty_ok t \<and> ty_ok f \<and> expr_ok e"
| "expr_ok (ECastToField f t e) \<longleftrightarrow> ty_ok t \<and> expr_ok e"
| "expr_ok (ECastFromField n f e) = expr_ok e"
| "expr_ok (ESafeCast t f e) \<longleftrightarrow> ty_ok t \<and> ty_ok f \<and> expr_ok e"
| "expr_ok (EDowncastUnsigned a b e) = expr_ok e"
| "expr_ok (EContractCall c r t as) \<longleftrightarrow> expr_ok r \<and> ty_ok t \<and> list_all id (map expr_ok as)"
| "expr_ok (EEmit v g n e is) \<longleftrightarrow>
     expr_ok e \<and> instructions_ok (map (map_instruction (map_operand expr_ok)) is)"
| "expr_ok (EPublicLedger f c p op t is as) \<longleftrightarrow>
     list_all path_element_ok (map (map_path_element expr_ok) p) \<and> ty_ok t \<and>
     instructions_ok (map (map_instruction (map_operand expr_ok)) is) \<and> list_all id (map expr_ok as)"
| "expr_ok (EReturn e) = expr_ok e"

section \<open>Reading back\<close>

text \<open>The heads that the parser of operands takes before it tries an expression.\<close>

definition operand_heads :: "string list" where
  "operand_heads = [''align'', ''stack'', ''void'', ''value->int'', ''null'', ''max-sizeof'', ''leaf-hash'',
     ''coin-commit'', ''aligned-concat'', ''state-value'']"

lemma expr_sexp_form:
  "\<exists>h xs. expr_sexp e = form h xs \<and> h \<notin> set operand_heads \<and> (h = ''+'' \<longrightarrow> length xs = 3)"
  by (cases e) (auto simp: operand_heads_def form_def)

lemma operand_sexp_not_sym: "operand_sexp (map_operand expr_sexp v) \<noteq> SSym s"
proof -
  have "expr_sexp e \<noteq> SSym s" for e using expr_sexp_form [of e] by (auto simp: form_def)
  then show ?thesis by (cases v) (simp_all add: form_def)
qed

lemma p_operand_expr:
  assumes "p_expr (expr_sexp e) = Ok e" shows "p_operand (expr_sexp e) = Ok (OExpr e)"
proof -
  obtain h xs where e: "expr_sexp e = form h xs" and h: "h \<notin> set operand_heads" "h = ''+'' \<longrightarrow> length xs = 3"
    using expr_sexp_form by blast
  then show ?thesis using assms
    by (subst p_operand_equation) (auto simp: p_operand_node_def p_operand_form_def form_def first_sym_def printed
        operand_heads_def)
qed

lemma pairs_printed:
  assumes "\<And>k v. (k, v) \<in> set kvs \<Longrightarrow> p_operand (f k) = Ok k \<and> p_operand (f v) = Ok v"
  shows "traverse (p_operand_pair p_operand ctx) (map pair_sexp (map (map_prod f f) kvs)) = Ok kvs"
  unfolding map_map
  using assms by (intro traverse_printed) (auto simp: p_operand_pair_def pair_sexp_def printed)

lemma p_state_value_printed:
  assumes "\<And>v. v \<in> set_state_value sv \<Longrightarrow> ok v \<Longrightarrow> p_operand (f v) = Ok v"
    "state_value_ok (map_state_value ok sv)"
  shows "p_state_value p_operand (state_value_sexps (map_state_value f sv)) = Ok sv"
  using assms
proof (cases sv)
  case (SvArray vs)
  then show ?thesis using assms
    by (auto simp: p_state_value_def first_sym_def printed list_all_iff intro!: traverse_printed)
next
  case (SvMap kvs)
  have "\<And>k v. (k, v) \<in> set kvs \<Longrightarrow> p_operand (f k) = Ok k \<and> p_operand (f v) = Ok v"
    using assms SvMap by (fastforce simp: list_all_iff)
  from pairs_printed [OF this] show ?thesis
    by (simp add: p_state_value_def first_sym_def printed SvMap del: map_map)
next
  case (SvMerkleTree d kvs)
  have "\<And>k v. (k, v) \<in> set kvs \<Longrightarrow> p_operand (f k) = Ok k \<and> p_operand (f v) = Ok v"
    using assms SvMerkleTree by (fastforce simp: list_all_iff)
  from pairs_printed [OF this] show ?thesis
    by (simp add: p_state_value_def first_sym_def printed SvMerkleTree del: map_map)
qed (simp_all add: p_state_value_def first_sym_def printed)

lemma operand_list_no_head: "first_sym (map (\<lambda>v. operand_sexp (map_operand expr_sexp v)) vs) = None"
proof (cases vs)
  case (Cons v vs')
  then show ?thesis
    using operand_sexp_not_sym [of v]
    by (cases "operand_sexp (map_operand expr_sexp v)") (auto simp: first_sym_def)
qed (simp add: first_sym_def)

lemma p_operand_printed:
  assumes "\<And>e. e \<in> set_operand v \<Longrightarrow> expr_ok e \<Longrightarrow> p_expr (expr_sexp e) = Ok e"
    "operand_ok (map_operand expr_ok v)"
  shows "p_operand (operand_sexp (map_operand expr_sexp v)) = Ok v"
  using assms
proof (induction v)
  case (OExpr e)
  then show ?case by (simp add: p_operand_expr)
next
  case (OAlignedConcat vs)
  have "traverse p_operand (map (\<lambda>v. operand_sexp (map_operand expr_sexp v)) vs) = Ok vs"
    using OAlignedConcat by (intro traverse_printed) (auto simp: list_all_iff)
  then show ?case
    by (subst p_operand_equation) (simp add: p_operand_node_def p_operand_form_def form_def first_sym_def printed comp_def)
next
  case (OList vs)
  have "traverse p_operand (map (\<lambda>v. operand_sexp (map_operand expr_sexp v)) vs) = Ok vs"
    using OList by (intro traverse_printed) (auto simp: list_all_iff)
  then show ?case
    by (subst p_operand_equation) (simp add: p_operand_node_def operand_list_no_head printed comp_def)
next
  case (OStateValue sv)
  have "p_state_value p_operand (state_value_sexps (map_state_value (\<lambda>v. operand_sexp (map_operand expr_sexp v)) sv)) = Ok sv"
    using OStateValue by (intro p_state_value_printed [where ok = "\<lambda>v. operand_ok (map_operand expr_ok v)"])
      (auto simp: state_value.map_comp comp_def)
  then show ?case
    by (subst p_operand_equation)
      (simp add: p_operand_node_def p_operand_form_def form_def first_sym_def printed state_value.map_comp comp_def
        tail_or_panic_def)
qed (subst p_operand_equation; simp add: p_operand_node_def p_operand_form_def form_def first_sym_def printed; fail)+

lemma p_instruction_printed:
  assumes "\<And>v. v \<in> set_instruction i \<Longrightarrow> ok v \<Longrightarrow> p_operand (f v) = Ok v"
    "instruction_ok (map_instruction ok i)"
  shows "p_instruction p_operand (instruction_sexp (map_instruction f i)) = Ok i"
proof (cases i)
  case (Instruction op args)
  have "p_instruction_arg p_operand ((\<lambda>(n, v). SList [SSym n, v]) (map_prod id f a)) = Ok a"
    if a: "a \<in> set args" for a
  proof -
    have "ok (snd a)" using assms(2) a by (auto simp: Instruction list_all_iff)
    moreover have "snd a \<in> set_instruction i" using a by (auto simp: Instruction intro!: bexI [of _ a] snds.intros)
    ultimately show ?thesis using assms(1) by (cases a) (simp add: p_instruction_arg_def printed)
  qed
  then have "traverse (p_instruction_arg p_operand)
      (map (\<lambda>a. (\<lambda>(n, v). SList [SSym n, v]) (map_prod id f a)) args) = Ok args"
    by (rule traverse_printed)
  with assms(2) show ?thesis by (simp add: Instruction p_instruction_def printed comp_def)
qed

lemma p_instructions_printed:
  assumes "\<And>i v e. i \<in> set is \<Longrightarrow> v \<in> set_instruction i \<Longrightarrow> e \<in> set_operand v \<Longrightarrow> expr_ok e \<Longrightarrow>
      p_expr (expr_sexp e) = Ok e"
    "instructions_ok (map (map_instruction (map_operand expr_ok)) is)"
  shows "p_instructions p_operand
    (instructions_sexp (map (map_instruction operand_sexp) (map (map_instruction (map_operand expr_sexp)) is))) = Ok is"
proof -
  let ?f = "\<lambda>v. operand_sexp (map_operand expr_sexp v)" and ?ok = "\<lambda>v. operand_ok (map_operand expr_ok v)"
  have "p_instruction p_operand (instruction_sexp (map_instruction ?f i)) = Ok i" if i: "i \<in> set is" for i
  proof (rule p_instruction_printed [where ok = ?ok])
    show "p_operand (?f v) = Ok v" if "v \<in> set_instruction i" "?ok v" for v
      using assms(1) [OF i that(1)] that(2) by (rule p_operand_printed)
    show "instruction_ok (map_instruction ?ok i)"
      using i assms(2) by (simp add: instructions_ok_def list_all_iff instruction.map_comp comp_def)
  qed
  then have "traverse (p_instruction p_operand) (map (\<lambda>i. instruction_sexp (map_instruction ?f i)) is) = Ok is"
    by (rule traverse_printed)
  then show ?thesis
    by (simp add: p_instructions_def instructions_sexp_def form_def p_tagged_def printed comp_def instruction.map_comp)
qed

lemma p_argument_printed [printed]: "argument_ok a \<Longrightarrow> p_argument (argument_sexp a) = Ok a"
  by (simp add: p_argument_def argument_sexp_def argument_ok_def printed)

lemma p_arguments_printed [printed]:
  "list_all argument_ok as \<Longrightarrow> p_arguments (SList (map argument_sexp as)) = Ok as"
  by (simp add: p_arguments_def printed traverse_printed list_all_iff)

lemma p_tuple_args_printed:
  assumes "\<And>a e. a \<in> set as \<Longrightarrow> e \<in> set_tuple_arg a \<Longrightarrow> expr_ok e \<Longrightarrow> p_expr (expr_sexp e) = Ok e"
    "list_all tuple_arg_ok (map (map_tuple_arg expr_ok) as)"
  shows "traverse (p_tuple_arg p_expr) (map tuple_arg_sexp (map (map_tuple_arg expr_sexp) as)) = Ok as"
proof -
  have "p_tuple_arg p_expr (tuple_arg_sexp (map_tuple_arg expr_sexp a)) = Ok a" if a: "a \<in> set as" for a
  proof -
    have "tuple_arg_ok (map_tuple_arg expr_ok a)" using a assms(2) by (simp add: list_all_iff)
    with assms(1) [OF a] show ?thesis
      by (cases a) (simp_all add: p_tuple_arg_def form_def first_sym_def printed)
  qed
  then show ?thesis by (simp add: comp_def traverse_printed)
qed

lemma p_map_args_printed:
  assumes "\<And>a e. a \<in> set as \<Longrightarrow> e \<in> set_map_arg a \<Longrightarrow> expr_ok e \<Longrightarrow> p_expr (expr_sexp e) = Ok e"
    "list_all map_arg_ok (map (map_map_arg expr_ok) as)"
  shows "traverse (p_map_arg p_expr) (map map_arg_sexp (map (map_map_arg expr_sexp) as)) = Ok as"
proof -
  have "p_map_arg p_expr (map_arg_sexp (map_map_arg expr_sexp a)) = Ok a" if a: "a \<in> set as" for a
  proof -
    have "map_arg_ok (map_map_arg expr_ok a)" using a assms(2) by (simp add: list_all_iff)
    with assms(1) [OF a] show ?thesis by (cases a) (simp add: p_map_arg_def printed)
  qed
  then show ?thesis by (simp add: comp_def traverse_printed)
qed

lemma p_fun_printed:
  assumes "\<And>e. e \<in> set_ir_fun f \<Longrightarrow> expr_ok e \<Longrightarrow> p_expr (expr_sexp e) = Ok e"
    "fun_ok (map_ir_fun expr_ok f)"
  shows "p_fun p_expr (fun_sexp (map_ir_fun expr_sexp f)) = Ok f"
  using assms by (cases f) (simp_all add: p_fun_def form_def first_sym_def printed)

lemma p_path_printed:
  assumes "\<And>x e. x \<in> set p \<Longrightarrow> e \<in> set_path_element x \<Longrightarrow> expr_ok e \<Longrightarrow> p_expr (expr_sexp e) = Ok e"
    "list_all path_element_ok (map (map_path_element expr_ok) p)"
  shows "traverse (p_path_element p_expr) (map path_element_sexp (map (map_path_element expr_sexp) p)) = Ok p"
proof -
  have "p_path_element p_expr (path_element_sexp (map_path_element expr_sexp x)) = Ok x" if x: "x \<in> set p" for x
  proof (cases x)
    case (PathIndex n)
    then show ?thesis using p_nat_printed [of n "''path index''"]
      by (simp add: p_path_element_def u64_sexp_def)
  next
    case (PathComputed t e)
    have "path_element_ok (map_path_element expr_ok x)" using x assms(2) by (simp add: list_all_iff)
    with assms(1) [OF x] PathComputed show ?thesis by (simp add: p_path_element_def printed)
  qed
  then show ?thesis by (simp add: comp_def traverse_printed)
qed

lemma p_bindings_printed:
  assumes "\<And>b e. b \<in> set bs \<Longrightarrow> e \<in> Basic_BNFs.snds b \<Longrightarrow> expr_ok e \<Longrightarrow> p_expr (expr_sexp e) = Ok e"
    "list_all (\<lambda>(a, v). argument_ok a \<and> v) (map (map_prod id expr_ok) bs)"
  shows "traverse (p_let_binding p_expr)
    (map (\<lambda>(a, v). SList [argument_sexp a, v]) (map (map_prod id expr_sexp) bs)) = Ok bs"
proof -
  have "p_let_binding p_expr ((\<lambda>(a, v). SList [argument_sexp a, v]) (map_prod id expr_sexp b)) = Ok b"
    if b: "b \<in> set bs" for b
  proof -
    have "argument_ok (fst b) \<and> expr_ok (snd b)" using b assms(2) unfolding list_all_iff by (force simp: case_prod_beta)
    with assms(1) [OF b] show ?thesis by (cases b) (simp add: p_let_binding_def printed)
  qed
  then show ?thesis by (simp add: comp_def traverse_printed)
qed

lemma p_exprs_printed:
  assumes "\<And>e. e \<in> set es \<Longrightarrow> expr_ok e \<Longrightarrow> p_expr (expr_sexp e) = Ok e" "list_all id (map expr_ok es)"
  shows "traverse p_expr (map expr_sexp es) = Ok es"
  using assms by (intro traverse_printed) (auto simp: list_all_iff)

lemma p_literal_printed [printed]: "p_literal (literal_sexp v) = Ok v"
  by (cases v) (simp_all add: p_literal_def)

lemma p_op_class_printed [printed]: "p_op_class (op_class_sexp c) = Ok c"
  by (cases c) (simp_all add: p_op_class_def printed)

text \<open>What the head of a form selects.\<close>

lemma p_expr_of_form: "p_expr (form h xs) = p_expr_form p_operand p_expr h (SSym h # xs)"
  by (subst p_expr_equation) (simp add: p_expr_node_def form_def first_sym_def printed)

lemmas expr_groups = p_expr_form_def p_expr_access_def p_expr_sequence_def p_expr_arithmetic_def p_expr_control_def
  p_expr_cast_def p_expr_effect_def ty_expr_expr_def nat_expr_expr_def ty_ty_expr_def

lemma p_expr_printed [printed]:
  assumes "expr_ok e"
  shows "p_expr (expr_sexp e) = Ok e"
  using assms
proof (induction e)
  case (ETuple as)
  then show ?case using p_tuple_args_printed [OF ETuple.IH]
    by (simp add: p_expr_of_form expr_groups printed del: map_map)
next
  case (EVectorLit as)
  then show ?case using p_tuple_args_printed [OF EVectorLit.IH]
    by (simp add: p_expr_of_form expr_groups printed del: map_map)
next
  case (EMap n f as)
  then show ?case using p_fun_printed [OF EMap.IH(1)] p_map_args_printed [OF EMap.IH(2)]
    by (simp add: p_expr_of_form expr_groups printed del: map_map)
next
  case (EFold n f i t as)
  then show ?case using p_fun_printed [OF EFold.IH(1)] p_map_args_printed [OF EFold.IH(3)]
    by (simp add: p_expr_of_form expr_groups printed del: map_map)
next
  case (ECall n as)
  then show ?case using p_exprs_printed [OF ECall.IH]
    by (simp add: p_expr_of_form expr_groups printed del: map_map)
next
  case (ENew t es)
  then show ?case using p_exprs_printed [OF ENew.IH]
    by (simp add: p_expr_of_form expr_groups printed del: map_map)
next
  case (ESeq es)
  then show ?case using p_exprs_printed [OF ESeq.IH]
    by (simp add: p_expr_of_form expr_groups printed del: map_map)
next
  case (ELetStar bs e)
  then show ?case using p_bindings_printed [OF ELetStar.IH(1)]
    by (simp add: p_expr_of_form expr_groups printed del: map_map)
next
  case (EContractCall c r t as)
  then show ?case using p_exprs_printed [OF EContractCall.IH(2)]
    by (simp add: p_expr_of_form expr_groups printed del: map_map)
next
  case (EEmit v g n e ins)
  then show ?case using p_instructions_printed [OF EEmit.IH(2)]
    by (simp add: p_expr_of_form expr_groups printed del: map_map)
next
  case (EPublicLedger f c p op t ins as)
  then show ?case using p_path_printed [OF EPublicLedger.IH(1)] p_instructions_printed [OF EPublicLedger.IH(2)] p_exprs_printed [OF EPublicLedger.IH(3)]
    by (simp add: p_expr_of_form expr_groups printed del: map_map)
qed (simp add: p_expr_of_form expr_groups printed; fail)+

section \<open>Programs\<close>

definition key_sexp :: "string \<Rightarrow> sexp \<Rightarrow> sexp" where
  "key_sexp k v = form k [v]"

definition arguments_sexp :: "argument list \<Rightarrow> sexp" where
  "arguments_sexp as = SList (map argument_sexp as)"

definition binding_sexp :: "ledger_binding \<Rightarrow> sexp" where
  "binding_sexp b = SList [SSym (lb_name b), SList (map u64_sexp (lb_path b)),
     key_sexp ''exported'' (SBool (lb_exported b)), ty_sexp (lb_ty b)]"

fun element_sexp :: "program_element \<Rightarrow> sexp" where
  "element_sexp (PCircuit c) =
     form ''circuit'' [SSym (cir_name c), key_sexp ''exported'' (SBool (cir_exported c)),
       key_sexp ''pure'' (SBool (cir_pure c)), key_sexp ''proof'' (SBool (cir_proof c)),
       arguments_sexp (cir_arguments c), ty_sexp (cir_result_type c), expr_sexp (cir_body c)]"
| "element_sexp (PNative n) =
     form ''native'' [SSym (nat_name n), SList [SSym ''entry'', SStr (nat_entry n), SSym (nat_class n)],
       form ''type-arguments'' (map ty_sexp (nat_type_arguments n)), arguments_sexp (nat_arguments n),
       ty_sexp (nat_result_type n)]"
| "element_sexp (PWitness w) =
     form ''witness'' [SSym (wit_name w), arguments_sexp (wit_arguments w), ty_sexp (wit_result_type w)]"
| "element_sexp (PKernelDeclaration b) = form ''kernel-declaration'' [binding_sexp b]"
| "element_sexp (PPublicLedger l) =
     form ''public-ledger-declaration'' [form ''public-ledger-array'' (map binding_sexp (ld_fields l)),
       form ''constructor'' [arguments_sexp (con_arguments (ld_constructor l)),
         expr_sexp (con_body (ld_constructor l))]]"
| "element_sexp (PExportTypedef name vs t) =
     form ''export-typedef'' [SSym name, SList (map SSym vs), ty_sexp t]"

definition artifact_sexp :: "analyzed_ir \<Rightarrow> sexp" where
  "artifact_sexp ir = form ''analyzed-ir''
     ([key_sexp ''compiler-version'' (SStr (ir_compiler_version ir)),
       key_sexp ''language-version'' (SStr (ir_language_version ir)),
       key_sexp ''runtime-version'' (SStr (ir_runtime_version ir)),
       form ''exports'' (map (\<lambda>(n, i). SPair (SSym n) (SSym i)) (ir_exports ir)),
       form ''contract-types'' (map ty_sexp (ir_contract_types ir))]
      @ map element_sexp (ir_elements ir))"

definition binding_ok :: "ledger_binding \<Rightarrow> bool" where
  "binding_ok b \<longleftrightarrow> lb_name b \<noteq> ''public-ledger-array'' \<and> ty_ok (lb_ty b)"

fun element_ok :: "program_element \<Rightarrow> bool" where
  "element_ok (PCircuit c) \<longleftrightarrow>
     list_all argument_ok (cir_arguments c) \<and> ty_ok (cir_result_type c) \<and> expr_ok (cir_body c)"
| "element_ok (PNative n) \<longleftrightarrow>
     list_all ty_ok (nat_type_arguments n) \<and> list_all argument_ok (nat_arguments n) \<and> ty_ok (nat_result_type n)"
| "element_ok (PWitness w) \<longleftrightarrow> list_all argument_ok (wit_arguments w) \<and> ty_ok (wit_result_type w)"
| "element_ok (PKernelDeclaration b) = binding_ok b"
| "element_ok (PPublicLedger l) \<longleftrightarrow>
     list_all binding_ok (ld_fields l) \<and> list_all argument_ok (con_arguments (ld_constructor l)) \<and>
     expr_ok (con_body (ld_constructor l))"
| "element_ok (PExportTypedef name vs t) = ty_ok t"

definition artifact_ok :: "analyzed_ir \<Rightarrow> bool" where
  "artifact_ok ir \<longleftrightarrow> list_all ty_ok (ir_contract_types ir) \<and> list_all element_ok (ir_elements ir)"

lemma p_keyed_printed [printed]: "p_keyed (key_sexp k v) k ctx = Ok v"
  by (simp add: p_keyed_def key_sexp_def form_def printed)

lemma p_tagged_printed [printed]: "p_tagged (form h xs) h ctx = Ok xs"
  by (simp add: p_tagged_def form_def printed)

lemma p_arguments_sexp_printed [printed]:
  "list_all argument_ok as \<Longrightarrow> p_arguments (arguments_sexp as) = Ok as"
  by (simp add: arguments_sexp_def printed)

lemma p_binding_printed [printed]: "binding_ok b \<Longrightarrow> p_ledger_binding (binding_sexp b) = Ok b"
  by (simp add: p_ledger_binding_def binding_sexp_def binding_ok_def printed traverse_printed)

lemma flatten_printed [printed]:
  assumes "list_all binding_ok bs"
  shows "flatten_pl_array (form ''public-ledger-array'' (map binding_sexp bs)) = Ok bs"
proof -
  have "traverse (\<lambda>e. if head_sym e = Some ''public-ledger-array'' then rec e
      else rmap (\<lambda>b. [b]) (p_ledger_binding e)) (map binding_sexp bs) = Ok (map (\<lambda>b. [b]) bs)" for rec
    using assms unfolding traverse_map
    by (intro traverse_ok_fun) (auto simp: list_all_iff printed, auto simp: binding_sexp_def binding_ok_def)
  then show ?thesis by (simp add: flatten_pl_array_def flatten_node_def printed)
qed

lemma p_types_printed: "list_all ty_ok ts \<Longrightarrow> traverse p_ty (map ty_sexp ts) = Ok ts"
  by (intro traverse_printed) (simp add: list_all_iff printed)

lemma p_syms_printed: "traverse (\<lambda>v. p_sym v ctx) (map SSym vs) = Ok vs"
  by (intro traverse_printed) (simp add: printed)

lemma p_element_printed:
  assumes "element_ok e"
  shows "p_program_element (element_sexp e) = Ok e"
proof (cases e)
  case (PPublicLedger l)
  have ctor: "form ''constructor'' [a, b] = SList [SSym ''constructor'', a, b]" for a b
    by (simp add: form_def)
  have "p_ledger_declaration (SSym ''public-ledger-declaration'' #
      [form ''public-ledger-array'' (map binding_sexp (ld_fields l)),
       form ''constructor'' [arguments_sexp (con_arguments (ld_constructor l)),
         expr_sexp (con_body (ld_constructor l))]]) = Ok l"
    using assms unfolding PPublicLedger by (simp add: p_ledger_declaration_def ctor printed)
  then show ?thesis
    unfolding PPublicLedger element_sexp.simps form_def [of "''public-ledger-declaration''"]
    by (simp add: p_program_element_def first_sym_def)
qed (use assms in \<open>simp add: p_program_element_def first_sym_def p_circuit_def p_native_def p_witness_def
    form_def [of "''circuit''"] form_def [of "''native''"] form_def [of "''witness''"]
    form_def [of "''kernel-declaration''"] form_def [of "''export-typedef''"] printed p_types_printed p_syms_printed\<close>)+

lemma element_head:
  "\<exists>h xs. element_sexp e = form h xs \<and> h \<notin> {''compiler-version'', ''language-version'', ''runtime-version'',
     ''exports'', ''contract-types''}"
  by (cases e) (auto simp: form_def)

lemma head_sym_form: "head_sym (form h xs) = Some h"
  by (simp add: form_def)

lemma p_elements_printed:
  "list_all element_ok es \<Longrightarrow>
   p_artifact_elements (map element_sexp es) acc = Ok (acc\<lparr>acc_elements := acc_elements acc @ es\<rparr>)"
proof (induction es arbitrary: acc)
  case (Cons e es)
  obtain h xs where e: "element_sexp e = form h xs" "h \<notin> {''compiler-version'', ''language-version'',
      ''runtime-version'', ''exports'', ''contract-types''}"
    using element_head [of e] by (elim exE conjE) (rule that)
  have "p_artifact_element (element_sexp e) acc = Ok (acc\<lparr>acc_elements := acc_elements acc @ [e]\<rparr>)"
    using e Cons.prems p_element_printed [of e]
    by (simp add: p_artifact_element_def head_sym_form)
  with Cons show ?case by simp
qed simp

lemma p_exports_printed:
  "traverse p_export (map (\<lambda>(n, i). SPair (SSym n) (SSym i)) xs) = Ok xs"
  by (intro traverse_printed) (auto simp: p_export_def printed)

lemma p_version_printed: "p_version (key_sexp k (SStr v)) k = Ok v"
  by (simp add: p_version_def printed)

text \<open>
  C22: the parser inverts the printer of the grammar: an artifact with every declaration, type,
  operand, instruction and expression form of the model is read back as it was printed.
\<close>

theorem artifact_roundtrip:
  assumes "artifact_ok ir"
  shows "parse_sexp (artifact_sexp ir) = Ok ir"
proof -
  have ok: "list_all ty_ok (ir_contract_types ir)" "list_all element_ok (ir_elements ir)"
    using assms by (simp_all add: artifact_ok_def)
  have head: "head_sym (key_sexp k v) = Some k" for k v by (simp add: key_sexp_def form_def)
  have "p_list (form h xs) ctx = Ok (SSym h # xs)" for h xs ctx by (simp add: form_def)
  then show ?thesis
    unfolding parse_sexp_def compiler_version_def artifact_sexp_def
    by (simp add: printed p_artifact_element_def head head_sym_form p_version_printed p_exports_printed
        p_types_printed p_elements_printed ok)
qed

theorem artifact_roundtrip_witness:
  "let ir = \<lparr>ir_compiler_version = ''0.30'', ir_language_version = ''0.22'', ir_runtime_version = ''0.14'',
     ir_exports = [(''bump'', ''%bump.0'')], ir_contract_types = [TyUnsigned 255],
     ir_elements = [PPublicLedger \<lparr>ld_fields = [\<lparr>lb_name = ''%n.1'', lb_path = [0], lb_exported = True,
         lb_ty = TyAdt ''Counter'' []\<rparr>], ld_constructor = \<lparr>con_arguments = [], con_body = ETuple []\<rparr>\<rparr>,
       PCircuit \<lparr>cir_name = ''%bump.0'', cir_exported = True, cir_pure = False, cir_proof = True,
         cir_arguments = [\<lparr>arg_name = ''%by.2'', arg_ty = TyUnsigned 65535\<rparr>], cir_result_type = TyTuple [],
         cir_body = EPublicLedger ''%n.1'' (Plain ''update'') [PathIndex 0] ''increment'' (TyTuple [])
           [Instruction OpIdx [(''path'', OList [OAlign 0 1])],
            Instruction OpAddi [(''immediate'', OValueToInt (OExpr (EVarRef ''%by.2'')))],
            Instruction OpIns [(''n'', OInt 1)]] [EVarRef ''%by.2'']\<rparr>]\<rparr>
   in parse_sexp (artifact_sexp ir) = Ok ir"
  unfolding Let_def
  by (rule artifact_roundtrip) (simp add: artifact_ok_def binding_ok_def instructions_ok_def argument_ok_def type_heads_def
    op_from_str_def op_table_def)

section \<open>Fail closed\<close>

definition expr_heads :: "string list" where
  "expr_heads = [''quote'', ''var-ref'', ''default'', ''if'', ''elt-ref'', ''enum-ref'', ''tuple'', ''vector'',
     ''tuple-ref'', ''tuple-slice'', ''vector-ref'', ''vector-slice'', ''bytes-ref'', ''bytes-slice'', ''+'', ''-'',
     ''*'', ''<'', ''<='', ''>'', ''>='', ''=='', ''!='', ''map'', ''fold'', ''call'', ''new'', ''seq'', ''let*'',
     ''assert'', ''field->bytes'', ''cast-from-bytes'', ''vector->bytes'', ''bytes->vector'', ''cast-from-enum'',
     ''cast-to-enum'', ''cast-to-field'', ''cast-from-field'', ''safe-cast'', ''downcast-unsigned'',
     ''contract-call'', ''emit'', ''public-ledger'', ''return'']"

text \<open>
  C25: the parser of expressions fails closed: a datum that is not a list headed by one of the
  44 expression heads is refused, with an error that says so.
\<close>

theorem expr_fails_closed:
  assumes "\<And>h. head_sym s = Some h \<Longrightarrow> h \<notin> set expr_heads"
  shows "p_expr s \<in> Err ` {ExpectedList ''expression'', Headless ''expression'', Unrecognized ''expression''}"
proof (cases s)
  case (SList l)
  show ?thesis
  proof (cases "first_sym l")
    case None
    with SList show ?thesis by (subst p_expr_equation) (simp add: p_expr_node_def p_list_def)
  next
    case (Some h)
    with SList assms have h: "h \<notin> set expr_heads" by (auto simp: first_sym_def split: list.splits)
    then have "p_expr_form p_operand p_expr h l = Err (Unrecognized ''expression'')"
      by (simp add: expr_heads_def expr_groups unrecognized_def)
    with SList Some show ?thesis by (subst p_expr_equation) (simp add: p_expr_node_def p_list_def)
  qed
qed (subst p_expr_equation; simp add: p_expr_node_def p_list_def)+

theorem expr_fails_closed_witness:
  "p_expr (SList [SSym ''eval'', SInt 1]) \<in>
     Err ` {ExpectedList ''expression'', Headless ''expression'', Unrecognized ''expression''}"
  by (rule expr_fails_closed) (simp add: expr_heads_def)


end
