(* ===== verification/Artifact.thy ===== *)
theory Artifact
  imports IrParse
begin

text \<open>
  Loading an artifact, \<^verbatim>\<open>crates/compact/codegen/src/artifact.rs\<close> and the types it fills in
  \<^verbatim>\<open>types.rs\<close>: the version check, the walk that refuses every construct the interpreter
  cannot execute, and the grouping of the program elements into circuits, helpers, natives,
  witnesses, ledger fields and the constructor.
\<close>

section \<open>Data\<close>

datatype storage_kind = KCell | KCounter | KMap | KSet | KList | KMerkleTree | KHistoricMerkleTree

datatype field_index = ISingle usize | IPath "usize list"

record ledger_field =
  lf_name :: string
  lf_index :: field_index
  lf_storage :: storage_kind
  lf_exported :: bool
  lf_element_type :: "ty option"
  lf_key :: "ty option"
  lf_value :: "ty option"
  lf_depth :: "u64 option"

text \<open>What an \<^verbatim>\<open>ArtifactError\<close> names; its text is the constructor with its arguments.\<close>

datatype artifact_error =
    AdtInValue string
  | TypeVariable string
  | NotStorage
  | UnknownFieldType string
  | NumericArgument u64
  | TypeForDepth
  | StorageKindUnknown string
  | AdtDefault string
  | NotItsDefault ty
  | LedgerClass string

type_synonym checked = "(artifact_error, unit) res"

record exported_circuit =
  exp_name :: string
  exp_def :: circuit

record contract_info =
  ci_circuits :: "exported_circuit list"
  ci_witnesses :: "witness_decl list"
  ci_ledger :: "ledger_field list"
  ci_constructor :: "(artifact_error, circuit) res option"
  ci_helpers :: "circuit list"
  ci_natives :: "native list"

section \<open>The compiler version\<close>

datatype version_error = UnsupportedVersion string | MalformedVersion string

definition supported_compiler_family :: string where
  "supported_compiler_family = ''0.35''"

text \<open>\<^verbatim>\<open>split('.')\<close>: the parts between the dots, at least one.\<close>

fun split_dots :: "string \<Rightarrow> string list" where
  "split_dots [] = [[]]"
| "split_dots (c # s) =
     (if c = CHR ''.'' then [] # split_dots s
      else (case split_dots s of p # ps \<Rightarrow> (c # p) # ps | [] \<Rightarrow> [[c]]))"

definition numeric_part :: "string \<Rightarrow> bool" where
  "numeric_part s \<longleftrightarrow> s \<noteq> [] \<and> all_digits s"

definition version_family :: "string \<Rightarrow> string option" where
  "version_family v =
     (case split_dots v of
        major # minor # _ \<Rightarrow>
          if numeric_part major \<and> numeric_part minor then Some (major @ ''.'' @ minor) else None
      | _ \<Rightarrow> None)"

definition check_compiler_version :: "string \<Rightarrow> (version_error, unit) res" where
  "check_compiler_version found =
     (case version_family found of
        None \<Rightarrow> Err (MalformedVersion found)
      | Some family \<Rightarrow>
          if family = supported_compiler_family then Ok () else Err (UnsupportedVersion found))"

section \<open>Types\<close>

fun unsupported_type :: "ty \<Rightarrow> artifact_error option" where
  "unsupported_type (TyAdt name as) = Some (AdtInValue name)"
| "unsupported_type (TyVar v) = Some (TypeVariable v)"
| "unsupported_type (TyVector n t) = unsupported_type t"
| "unsupported_type (TyAlias b name t) = unsupported_type t"
| "unsupported_type (TyTuple ts) = find_map unsupported_type ts"
| "unsupported_type (TyStruct name fs) = find_map (\<lambda>(n, t). unsupported_type t) fs"
| "unsupported_type t = None"

definition check_type :: "ty \<Rightarrow> checked" where
  "check_type t = (case unsupported_type t of None \<Rightarrow> Ok () | Some what \<Rightarrow> Err what)"

fun holds_unknown :: "ty \<Rightarrow> bool" and arg_holds_unknown :: "adt_arg \<Rightarrow> bool" where
  "holds_unknown TyUnknown = True"
| "holds_unknown (TyVector n t) = holds_unknown t"
| "holds_unknown (TyAlias b name t) = holds_unknown t"
| "holds_unknown (TyTuple ts) = list_ex holds_unknown ts"
| "holds_unknown (TyStruct name fs) = list_ex (\<lambda>(n, t). holds_unknown t) fs"
| "holds_unknown (TyAdt name as) = list_ex arg_holds_unknown as"
| "holds_unknown t = False"
| "arg_holds_unknown (AdtType t) = holds_unknown t"
| "arg_holds_unknown (AdtNat n) = False"

definition pushable_adt_defaults :: "string list" where
  "pushable_adt_defaults = [''Map'']"

fun check_adt_default :: "ty \<Rightarrow> checked" and check_adt_arg :: "adt_arg \<Rightarrow> checked" where
  "check_adt_default (TyAdt name as) =
     (if name \<in> set pushable_adt_defaults then try_each check_adt_arg as else Err (AdtDefault name))"
| "check_adt_default t = check_type t"
| "check_adt_arg (AdtType t) =
     (case t of TyAdt name as \<Rightarrow> check_adt_default t | _ \<Rightarrow> check_type t)"
| "check_adt_arg (AdtNat n) = Ok ()"

definition check_arguments :: "argument list \<Rightarrow> checked" where
  "check_arguments as = try_each (\<lambda>a. check_type (arg_ty a)) as"

section \<open>Expressions\<close>

text \<open>
  The parts of a size that a recursive call goes down to: the walk of expressions and of the
  operands in their instructions is one mutual recursion.
\<close>

definition is_adt :: "ty \<Rightarrow> bool" where
  "is_adt t = (case t of TyAdt name as \<Rightarrow> True | _ \<Rightarrow> False)"

lemma size_list_mem: "x \<in> set xs \<Longrightarrow> f x < size_list f xs"
  by (induction xs) auto

lemma nested_sizes:
  "x \<in> set (es :: expr list) \<Longrightarrow> size x < size_list size es"
  "Single x \<in> set as \<Longrightarrow> size x < size_list (size_tuple_arg size) as"
  "Spread n x \<in> set as \<Longrightarrow> size x < size_list (size_tuple_arg size) as"
  "m \<in> set ms \<Longrightarrow> size (ma_expr m) < size_list (size_map_arg size) ms"
  "PathComputed t x \<in> set ps \<Longrightarrow> size x < size_list (size_path_element size) ps"
  "(b, x) \<in> set bs \<Longrightarrow> size x < size_list (size_prod (\<lambda>_. 0) size) bs"
  by (auto dest: size_list_mem [where f = size] size_list_mem [where f = "size_tuple_arg size"]
      size_list_mem [where f = "size_path_element size"] size_list_mem [where f = "size_prod (\<lambda>_. 0) size"])
    (drule size_list_mem [where f = "size_map_arg size"], cases m, simp)

lemma nested_operand_sizes:
  "x \<in> set xs \<Longrightarrow> size_operand size x < size_list (size_operand size) xs"
  "(k, v) \<in> set kvs \<Longrightarrow>
     size_operand size k < size_list (size_prod (size_operand size) (size_operand size)) kvs \<and>
     size_operand size v < size_list (size_prod (size_operand size) (size_operand size)) kvs"
  by (auto dest: size_list_mem [where f = "size_operand size"]
      size_list_mem [where f = "size_prod (size_operand size) (size_operand size)"])

lemma instruction_sizes:
  assumes "i \<in> set ins" "(n, x) \<in> set (ins_args i)"
  shows "size_operand size x < size_list (size_instruction (size_operand size)) ins"
proof -
  have "size_operand size x < size_instruction (size_operand size) i"
    using size_list_mem [OF assms(2), of "size_prod (\<lambda>_. 0) (size_operand size)"] 
    by (cases i) (simp)
  with size_list_mem [OF assms(1), of "size_instruction (size_operand size)"] show ?thesis by simp
qed

function (sequential) check_expr :: "expr \<Rightarrow> checked"
and check_operand :: "expr operand \<Rightarrow> checked" where
  "check_expr (EEmit v g n payload ins) =
     rbind (check_expr payload) (\<lambda>_. try_each (\<lambda>i. try_each (\<lambda>(_, x). check_operand x) (ins_args i)) ins)"
| "check_expr (EQuote v) = Ok ()"
| "check_expr (EVarRef v) = Ok ()"
| "check_expr (EDefault t) = check_type t"
| "check_expr (EEnumRef t n) = check_type t"
| "check_expr (EIf c t e) = rbind (check_expr c) (\<lambda>_. rbind (check_expr t) (\<lambda>_. check_expr e))"
| "check_expr (EEltRef e n i) = check_expr e"
| "check_expr (ETupleRef e i) = check_expr e"
| "check_expr (EReturn e) = check_expr e"
| "check_expr (EAssert e m) = check_expr e"
| "check_expr (EVectorToBytes n e) = check_expr e"
| "check_expr (EBytesToVector n e) = check_expr e"
| "check_expr (ETuple as) = try_each (\<lambda>a. case a of Single x \<Rightarrow> check_expr x | Spread n x \<Rightarrow> check_expr x) as"
| "check_expr (EVectorLit as) = try_each (\<lambda>a. case a of Single x \<Rightarrow> check_expr x | Spread n x \<Rightarrow> check_expr x) as"
| "check_expr (ETupleSlice t e i n) = rbind (check_type t) (\<lambda>_. check_expr e)"
| "check_expr (EVectorRef t e i) = rbind (check_type t) (\<lambda>_. rbind (check_expr e) (\<lambda>_. check_expr i))"
| "check_expr (EBytesRef t e i) = rbind (check_type t) (\<lambda>_. rbind (check_expr e) (\<lambda>_. check_expr i))"
| "check_expr (EVectorSlice t e i n) = rbind (check_type t) (\<lambda>_. rbind (check_expr e) (\<lambda>_. check_expr i))"
| "check_expr (EBytesSlice t e i n) = rbind (check_type t) (\<lambda>_. rbind (check_expr e) (\<lambda>_. check_expr i))"
| "check_expr (EAdd t a b) = rbind (check_type t) (\<lambda>_. rbind (check_expr a) (\<lambda>_. check_expr b))"
| "check_expr (ESub t a b) = rbind (check_type t) (\<lambda>_. rbind (check_expr a) (\<lambda>_. check_expr b))"
| "check_expr (EMul t a b) = rbind (check_type t) (\<lambda>_. rbind (check_expr a) (\<lambda>_. check_expr b))"
| "check_expr (EEq t a b) = rbind (check_type t) (\<lambda>_. rbind (check_expr a) (\<lambda>_. check_expr b))"
| "check_expr (ENeq t a b) = rbind (check_type t) (\<lambda>_. rbind (check_expr a) (\<lambda>_. check_expr b))"
| "check_expr (ELt n a b) = rbind (check_expr a) (\<lambda>_. check_expr b)"
| "check_expr (ELe n a b) = rbind (check_expr a) (\<lambda>_. check_expr b)"
| "check_expr (EGt n a b) = rbind (check_expr a) (\<lambda>_. check_expr b)"
| "check_expr (EGe n a b) = rbind (check_expr a) (\<lambda>_. check_expr b)"
| "check_expr (EMap n f as) =
     rbind (case f of FunRef _ \<Rightarrow> Ok ()
        | FunCircuit ps t body \<Rightarrow>
            rbind (check_arguments ps) (\<lambda>_. rbind (check_type t) (\<lambda>_. check_expr body))) (\<lambda>_.
     try_each (\<lambda>a. check_expr (ma_expr a)) as)"
| "check_expr (EFold n f init t as) =
     rbind (case f of FunRef _ \<Rightarrow> Ok ()
        | FunCircuit ps t body \<Rightarrow>
            rbind (check_arguments ps) (\<lambda>_. rbind (check_type t) (\<lambda>_. check_expr body))) (\<lambda>_.
     rbind (check_expr init) (\<lambda>_. try_each (\<lambda>a. check_expr (ma_expr a)) as))"
| "check_expr (ECall name as) = try_each check_expr as"
| "check_expr (ENew t es) = rbind (check_type t) (\<lambda>_. try_each check_expr es)"
| "check_expr (ESeq es) = try_each check_expr es"
| "check_expr (ELetStar bs body) =
     rbind (try_each (\<lambda>(a, v). rbind (check_type (arg_ty a)) (\<lambda>_. check_expr v)) bs) (\<lambda>_. check_expr body)"
| "check_expr (ECastFromBytes t n e) = rbind (check_type t) (\<lambda>_. check_expr e)"
| "check_expr (ESafeCast t from e) = rbind (check_type t) (\<lambda>_. check_expr e)"
| "check_expr (ECastFromEnum t from e) =
     rbind (check_type t) (\<lambda>_. rbind (check_type from) (\<lambda>_. check_expr e))"
| "check_expr (ECastToEnum t from e) =
     rbind (check_type t) (\<lambda>_. rbind (check_type from) (\<lambda>_. check_expr e))"
| "check_expr (ECastToField ft from e) = rbind (check_type from) (\<lambda>_. check_expr e)"
| "check_expr (ECastFromField n ft e) = check_expr e"
| "check_expr (EFieldToBytes n ft e) = check_expr e"
| "check_expr (EDowncastUnsigned a b e) = check_expr e"
| "check_expr (EContractCall c r t as) =
     rbind (check_type t) (\<lambda>_. rbind (check_expr r) (\<lambda>_. try_each check_expr as))"
| "check_expr (EPublicLedger f (CoinCheck name coin recipient) path op t ins as) = Err (LedgerClass name)"
| "check_expr (EPublicLedger f (Plain name) path op t ins as) =
     rbind (check_type t) (\<lambda>_.
     rbind (try_each (\<lambda>p. case p of PathIndex _ \<Rightarrow> Ok ()
        | PathComputed u e \<Rightarrow> rbind (check_type u) (\<lambda>_. check_expr e)) path) (\<lambda>_.
     rbind (try_each (\<lambda>a. case a of
          EDefault (TyAdt n ts) \<Rightarrow> check_adt_default (TyAdt n ts)
        | _ \<Rightarrow> check_expr a) as) (\<lambda>_.
     try_each (\<lambda>i. try_each (\<lambda>(_, x). check_operand x) (ins_args i)) ins)))"
| "check_operand (OExpr e) = check_expr e"
| "check_operand (OValueToInt x) = check_operand x"
| "check_operand (OLeafHash x) = check_operand x"
| "check_operand (ONull t) = check_type t"
| "check_operand (OMaxSizeof t) = check_type t"
| "check_operand (OCoinCommit a b) = rbind (check_operand a) (\<lambda>_. check_operand b)"
| "check_operand (OAdd a b) = rbind (check_operand a) (\<lambda>_. check_operand b)"
| "check_operand (OAlignedConcat xs) = try_each check_operand xs"
| "check_operand (OList xs) = try_each check_operand xs"
| "check_operand (OStateValue sv) =
     (case sv of
        SvCell x \<Rightarrow> check_operand x
      | SvAdt x t \<Rightarrow>
          if \<not> is_adt t then rbind (check_operand x) (\<lambda>_. check_type t)
          else if x = OExpr (EDefault t) then check_adt_default t
          else Err (NotItsDefault t)
      | SvArray xs \<Rightarrow> try_each check_operand xs
      | SvMap kvs \<Rightarrow> try_each (\<lambda>(k, v). rbind (check_operand k) (\<lambda>_. check_operand v)) kvs
      | SvMerkleTree d kvs \<Rightarrow> try_each (\<lambda>(k, v). rbind (check_operand k) (\<lambda>_. check_operand v)) kvs
      | SvNull \<Rightarrow> Ok ())"
| "check_operand (OInt i) = Ok ()"
| "check_operand (OBool b) = Ok ()"
| "check_operand (OStr v) = Ok ()"
| "check_operand (OAlign v n) = Ok ()"
| "check_operand OStack = Ok ()"
| "check_operand OVoid = Ok ()"
  by pat_completeness auto
termination
  by (relation "measure (\<lambda>x. case x of Inl e \<Rightarrow> size e | Inr x \<Rightarrow> size_operand size x)")
    (auto dest!: nested_sizes nested_operand_sizes dest: instruction_sizes)

definition check_circuit :: "circuit \<Rightarrow> checked" where
  "check_circuit c =
     rbind (check_arguments (cir_arguments c)) (\<lambda>_.
     rbind (check_type (cir_result_type c)) (\<lambda>_. check_expr (cir_body c)))"

section \<open>The program\<close>

definition storage_of :: "string \<Rightarrow> storage_kind option" where
  "storage_of kind = map_of
     [(''Cell'', KCell), (''Counter'', KCounter), (''Map'', KMap), (''Set'', KSet), (''List'', KList),
      (''MerkleTree'', KMerkleTree), (''HistoricMerkleTree'', KHistoricMerkleTree)] kind"

text \<open>The closures \<^verbatim>\<open>arg_ty\<close> and \<^verbatim>\<open>arg_nat\<close>: an argument that the ADT lacks panics.\<close>

definition adt_arg_ty :: "adt_arg list \<Rightarrow> nat \<Rightarrow> (artifact_error, ty) res" where
  "adt_arg_ty as i =
     rbind (index_or_panic as i) (\<lambda>a.
     case a of
       AdtType t \<Rightarrow> rbind (check_type t) (\<lambda>_. Ok t)
     | AdtNat n \<Rightarrow> Err (NumericArgument n))"

definition adt_arg_nat :: "adt_arg list \<Rightarrow> nat \<Rightarrow> (artifact_error, u64) res" where
  "adt_arg_nat as i =
     rbind (index_or_panic as i) (\<lambda>a.
     case a of AdtNat n \<Rightarrow> Ok n | AdtType t \<Rightarrow> Err TypeForDepth)"

text \<open>The value of a map: a nested container is checked as a default.\<close>

definition map_value_ty :: "adt_arg list \<Rightarrow> (artifact_error, ty) res" where
  "map_value_ty as =
     rbind (index_or_panic as 1) (\<lambda>a.
     case a of
       AdtType (TyAdt n ts) \<Rightarrow> rbind (check_adt_default (TyAdt n ts)) (\<lambda>_. Ok (TyAdt n ts))
     | _ \<Rightarrow> adt_arg_ty as 1)"

definition fill_field :: "adt_arg list \<Rightarrow> ledger_field \<Rightarrow> (artifact_error, ledger_field) res" where
  "fill_field as field =
     (case lf_storage field of
        KCounter \<Rightarrow> Ok field
      | KMap \<Rightarrow>
          rbind (adt_arg_ty as 0) (\<lambda>k.
          rbind (map_value_ty as) (\<lambda>v. Ok (field\<lparr>lf_key := Some k, lf_value := Some v\<rparr>)))
      | k \<Rightarrow>
          if k = KMerkleTree \<or> k = KHistoricMerkleTree then
            rbind (adt_arg_nat as 0) (\<lambda>d.
            rbind (adt_arg_ty as 1) (\<lambda>t. Ok (field\<lparr>lf_depth := Some d, lf_element_type := Some t\<rparr>)))
          else rbind (adt_arg_ty as 0) (\<lambda>t. Ok (field\<lparr>lf_element_type := Some t\<rparr>)))"

text \<open>A 64-bit index always fits a \<^verbatim>\<open>usize\<close> of the host, so \<^verbatim>\<open>as_usize\<close> never fails.\<close>

definition artifact_ledger_field :: "ledger_binding \<Rightarrow> (artifact_error, ledger_field) res" where
  "artifact_ledger_field f =
     (case resolved (lb_ty f) of
        TyAdt name as \<Rightarrow>
          if holds_unknown (lb_ty f) then Err (UnknownFieldType (ident_name (lb_name f)))
          else
            let kind = (case strip_prefix ''__compact_'' name of Some k \<Rightarrow> k | None \<Rightarrow> name) in
            rbind (ok_or (StorageKindUnknown kind) (storage_of kind)) (\<lambda>storage.
            fill_field as
              \<lparr>lf_name = ident_name (lb_name f),
               lf_index = (if length (lb_path f) = 1 then ISingle (hd (lb_path f)) else IPath (lb_path f)),
               lf_storage = storage, lf_exported = lb_exported f, lf_element_type = None, lf_key = None,
               lf_value = None, lf_depth = None\<rparr>)
      | _ \<Rightarrow> Err NotStorage)"

definition is_empty_constructor :: "constructor_decl \<Rightarrow> bool" where
  "is_empty_constructor c \<longleftrightarrow>
     con_arguments c = [] \<and> (case con_body c of ETuple as \<Rightarrow> as = [] | _ \<Rightarrow> False)"

definition lower_constructor :: "constructor_decl \<Rightarrow> circuit" where
  "lower_constructor c =
     \<lparr>cir_name = ''constructor'', cir_exported = False, cir_pure = False, cir_proof = False,
      cir_arguments = con_arguments c, cir_result_type = unit_ty, cir_body = con_body c\<rparr>"

definition circuit_table :: "analyzed_ir \<Rightarrow> string \<rightharpoonup> circuit" where
  "circuit_table ir = map_from_list (map (\<lambda>c. (cir_name c, c)) (ir_circuits ir))"

fun exported_circuits ::
  "(string \<rightharpoonup> circuit) \<Rightarrow> (string \<times> ident) list \<Rightarrow> (artifact_error, exported_circuit list) res" where
  "exported_circuits table [] = Ok []"
| "exported_circuits table ((name, target) # es) =
     (case table target of
        None \<Rightarrow> exported_circuits table es
      | Some c \<Rightarrow>
          rbind (check_circuit c) (\<lambda>_.
          rbind (exported_circuits table es) (\<lambda>cs. Ok (\<lparr>exp_name = name, exp_def = c\<rparr> # cs))))"

definition ir_natives :: "analyzed_ir \<Rightarrow> native list" where
  "ir_natives ir = List.map_filter (\<lambda>e. case e of PNative n \<Rightarrow> Some n | _ \<Rightarrow> None) (ir_elements ir)"

definition ir_witnesses :: "analyzed_ir \<Rightarrow> witness_decl list" where
  "ir_witnesses ir = List.map_filter (\<lambda>e. case e of PWitness w \<Rightarrow> Some w | _ \<Rightarrow> None) (ir_elements ir)"

definition check_witness :: "witness_decl \<Rightarrow> checked" where
  "check_witness w =
     rbind (check_arguments (wit_arguments w)) (\<lambda>_. check_type (wit_result_type w))"

definition load_constructor :: "analyzed_ir \<Rightarrow> (artifact_error, circuit) res option" where
  "load_constructor ir =
     (case ir_ledger ir of
        None \<Rightarrow> None
      | Some decl \<Rightarrow>
          if is_empty_constructor (ld_constructor decl) then None
          else
            let lowered = lower_constructor (ld_constructor decl)
            in Some (rbind (check_circuit lowered) (\<lambda>_. Ok lowered)))"

definition from_program :: "analyzed_ir \<Rightarrow> (artifact_error, contract_info) res" where
  "from_program ir =
     rbind (exported_circuits (circuit_table ir) (ir_exports ir)) (\<lambda>circuits.
     rbind (try_each check_circuit (ir_circuits ir)) (\<lambda>_.
     rbind (try_each (\<lambda>n. check_type (nat_result_type n)) (ir_natives ir)) (\<lambda>_.
     rbind (try_each check_witness (ir_witnesses ir)) (\<lambda>_.
     rbind (case ir_ledger ir of
         Some decl \<Rightarrow> traverse artifact_ledger_field (ld_fields decl)
       | None \<Rightarrow> Ok []) (\<lambda>ledger.
     Ok \<lparr>ci_circuits = circuits, ci_witnesses = ir_witnesses ir, ci_ledger = ledger,
         ci_constructor = load_constructor ir, ci_helpers = ir_circuits ir,
         ci_natives = ir_natives ir\<rparr>)))))"

section \<open>Loading\<close>

datatype load_error = LoadIr parse_error | LoadVersion version_error | LoadArtifact artifact_error

definition load_str :: "string \<Rightarrow> (load_error, contract_info) res" where
  "load_str text =
     rbind (rmap_err (\<lambda>e. LoadIr (ReadError e)) (read_one text)) (\<lambda>d.
     rbind (rmap_err LoadIr (compiler_version d)) (\<lambda>v.
     rbind (rmap_err LoadVersion (check_compiler_version v)) (\<lambda>_.
     rbind (rmap_err LoadIr (parse_sexp d)) (\<lambda>ir.
     rmap_err LoadArtifact (from_program ir)))))"

section \<open>What an accepted circuit holds\<close>

text \<open>A value type: no ledger ADT and no type variable outside the circuits of a contract type.\<close>

fun value_type :: "ty \<Rightarrow> bool" where
  "value_type (TyAdt name as) = False"
| "value_type (TyVar v) = False"
| "value_type (TyVector n t) = value_type t"
| "value_type (TyAlias b name t) = value_type t"
| "value_type (TyTuple ts) = list_all value_type ts"
| "value_type (TyStruct name fs) = list_all (\<lambda>(n, t). value_type t) fs"
| "value_type t = True"

fun container_default :: "ty \<Rightarrow> bool" and container_arg :: "adt_arg \<Rightarrow> bool" where
  "container_default (TyAdt name as) \<longleftrightarrow> name = ''Map'' \<and> list_all container_arg as"
| "container_default t = False"
| "container_arg (AdtType t) \<longleftrightarrow> value_type t \<or> container_default t"
| "container_arg (AdtNat n) = True"

lemma check_type_iff [simp]: "check_type t = Ok () \<longleftrightarrow> value_type t"
proof -
  have "unsupported_type t = None \<longleftrightarrow> value_type t"
    by (induction t rule: value_type.induct) (auto simp: list_all_iff)
  then show ?thesis by (cases "unsupported_type t") (simp_all add: check_type_def)
qed

lemma check_adt_default_iff:
  "is_adt t \<Longrightarrow> check_adt_default t = Ok () \<longleftrightarrow> container_default t"
  "check_adt_arg a = Ok () \<longleftrightarrow> container_arg a"
  by (induction t and a rule: container_default_container_arg.induct)
    (auto simp: is_adt_def pushable_adt_defaults_def list_all_iff split: ty.splits)

text \<open>All nodes of an expression, those in operands of instructions included.\<close>

definition operand_nodes :: "'a set operand instruction list \<Rightarrow> 'a set" where
  "operand_nodes ins = \<Union> (\<Union> (set_operand ` \<Union> (set_instruction ` set ins)))"

primrec expr_nodes :: "expr \<Rightarrow> expr set" where
  "expr_nodes (EQuote v) = {EQuote v}"
| "expr_nodes (EVarRef v) = {EVarRef v}"
| "expr_nodes (EDefault t) = {EDefault t}"
| "expr_nodes (EIf c t e) = {EIf c t e} \<union> expr_nodes c \<union> expr_nodes t \<union> expr_nodes e"
| "expr_nodes (EEltRef e n i) = {EEltRef e n i} \<union> expr_nodes e"
| "expr_nodes (EEnumRef t n) = {EEnumRef t n}"
| "expr_nodes (ETuple as) = {ETuple as} \<union> \<Union> (\<Union> (set_tuple_arg ` set (map (map_tuple_arg expr_nodes) as)))"
| "expr_nodes (EVectorLit as) = {EVectorLit as} \<union> \<Union> (\<Union> (set_tuple_arg ` set (map (map_tuple_arg expr_nodes) as)))"
| "expr_nodes (ETupleRef e i) = {ETupleRef e i} \<union> expr_nodes e"
| "expr_nodes (ETupleSlice t e i n) = {ETupleSlice t e i n} \<union> expr_nodes e"
| "expr_nodes (EVectorRef t e i) = {EVectorRef t e i} \<union> expr_nodes e \<union> expr_nodes i"
| "expr_nodes (EVectorSlice t e i n) = {EVectorSlice t e i n} \<union> expr_nodes e \<union> expr_nodes i"
| "expr_nodes (EBytesRef t e i) = {EBytesRef t e i} \<union> expr_nodes e \<union> expr_nodes i"
| "expr_nodes (EBytesSlice t e i n) = {EBytesSlice t e i n} \<union> expr_nodes e \<union> expr_nodes i"
| "expr_nodes (EAdd t a b) = {EAdd t a b} \<union> expr_nodes a \<union> expr_nodes b"
| "expr_nodes (ESub t a b) = {ESub t a b} \<union> expr_nodes a \<union> expr_nodes b"
| "expr_nodes (EMul t a b) = {EMul t a b} \<union> expr_nodes a \<union> expr_nodes b"
| "expr_nodes (ELt n a b) = {ELt n a b} \<union> expr_nodes a \<union> expr_nodes b"
| "expr_nodes (ELe n a b) = {ELe n a b} \<union> expr_nodes a \<union> expr_nodes b"
| "expr_nodes (EGt n a b) = {EGt n a b} \<union> expr_nodes a \<union> expr_nodes b"
| "expr_nodes (EGe n a b) = {EGe n a b} \<union> expr_nodes a \<union> expr_nodes b"
| "expr_nodes (EEq t a b) = {EEq t a b} \<union> expr_nodes a \<union> expr_nodes b"
| "expr_nodes (ENeq t a b) = {ENeq t a b} \<union> expr_nodes a \<union> expr_nodes b"
| "expr_nodes (EMap n f as) = {EMap n f as} \<union> \<Union> (set_ir_fun (map_ir_fun expr_nodes f)) \<union>
     \<Union> (\<Union> (set_map_arg ` set (map (map_map_arg expr_nodes) as)))"
| "expr_nodes (EFold n f i t as) = {EFold n f i t as} \<union> \<Union> (set_ir_fun (map_ir_fun expr_nodes f)) \<union> expr_nodes i \<union>
     \<Union> (\<Union> (set_map_arg ` set (map (map_map_arg expr_nodes) as)))"
| "expr_nodes (ECall n as) = {ECall n as} \<union> \<Union> (set (map expr_nodes as))"
| "expr_nodes (ENew t es) = {ENew t es} \<union> \<Union> (set (map expr_nodes es))"
| "expr_nodes (ESeq es) = {ESeq es} \<union> \<Union> (set (map expr_nodes es))"
| "expr_nodes (ELetStar bs e) = {ELetStar bs e} \<union> \<Union> (snd ` set (map (map_prod id expr_nodes) bs)) \<union> expr_nodes e"
| "expr_nodes (EAssert e m) = {EAssert e m} \<union> expr_nodes e"
| "expr_nodes (EFieldToBytes n f e) = {EFieldToBytes n f e} \<union> expr_nodes e"
| "expr_nodes (ECastFromBytes t n e) = {ECastFromBytes t n e} \<union> expr_nodes e"
| "expr_nodes (EVectorToBytes n e) = {EVectorToBytes n e} \<union> expr_nodes e"
| "expr_nodes (EBytesToVector n e) = {EBytesToVector n e} \<union> expr_nodes e"
| "expr_nodes (ECastFromEnum t f e) = {ECastFromEnum t f e} \<union> expr_nodes e"
| "expr_nodes (ECastToEnum t f e) = {ECastToEnum t f e} \<union> expr_nodes e"
| "expr_nodes (ECastToField f t e) = {ECastToField f t e} \<union> expr_nodes e"
| "expr_nodes (ECastFromField n f e) = {ECastFromField n f e} \<union> expr_nodes e"
| "expr_nodes (ESafeCast t f e) = {ESafeCast t f e} \<union> expr_nodes e"
| "expr_nodes (EDowncastUnsigned a b e) = {EDowncastUnsigned a b e} \<union> expr_nodes e"
| "expr_nodes (EContractCall c r t as) = {EContractCall c r t as} \<union> expr_nodes r \<union> \<Union> (set (map expr_nodes as))"
| "expr_nodes (EEmit v g n e ins) = {EEmit v g n e ins} \<union> expr_nodes e \<union>
     operand_nodes (map (map_instruction (map_operand expr_nodes)) ins)"
| "expr_nodes (EPublicLedger f c p op t ins as) = {EPublicLedger f c p op t ins as} \<union>
     \<Union> (\<Union> (set_path_element ` set (map (map_path_element expr_nodes) p))) \<union>
     operand_nodes (map (map_instruction (map_operand expr_nodes)) ins) \<union> \<Union> (set (map expr_nodes as))"
| "expr_nodes (EReturn e) = {EReturn e} \<union> expr_nodes e"

text \<open>The types that a node itself names and the interpreter works at.\<close>

fun fun_types :: "'e ir_fun \<Rightarrow> ty list" where
  "fun_types (FunRef n) = []"
| "fun_types (FunCircuit ps t body) = t # map arg_ty ps"

fun path_types :: "'e path_element \<Rightarrow> ty list" where
  "path_types (PathIndex n) = []"
| "path_types (PathComputed t e) = [t]"

fun node_types :: "expr \<Rightarrow> ty list" where
  "node_types (EDefault t) = [t]"
| "node_types (EEnumRef t n) = [t]"
| "node_types (ETupleSlice t e i n) = [t]"
| "node_types (EVectorRef t e i) = [t]"
| "node_types (EVectorSlice t e i n) = [t]"
| "node_types (EBytesRef t e i) = [t]"
| "node_types (EBytesSlice t e i n) = [t]"
| "node_types (EAdd t a b) = [t]"
| "node_types (ESub t a b) = [t]"
| "node_types (EMul t a b) = [t]"
| "node_types (EEq t a b) = [t]"
| "node_types (ENeq t a b) = [t]"
| "node_types (EMap n f as) = fun_types f"
| "node_types (EFold n f i t as) = fun_types f"
| "node_types (ENew t es) = [t]"
| "node_types (ELetStar bs e) = map (\<lambda>(a, v). arg_ty a) bs"
| "node_types (ECastFromBytes t n e) = [t]"
| "node_types (ECastFromEnum t f e) = [t, f]"
| "node_types (ECastToEnum t f e) = [t, f]"
| "node_types (ECastToField f t e) = [t]"
| "node_types (ESafeCast t f e) = [t]"
| "node_types (EContractCall c r t as) = [t]"
| "node_types (EPublicLedger f c p op t ins as) = t # concat (map path_types p)"
| "node_types e = []"

fun coin_check_node :: "expr \<Rightarrow> bool" where
  "coin_check_node (EPublicLedger f c p op t ins as) = (case c of CoinCheck n i j \<Rightarrow> True | Plain n \<Rightarrow> False)"
| "coin_check_node e = False"

definition executable_node :: "expr \<Rightarrow> bool" where
  "executable_node n \<longleftrightarrow>
     (list_all value_type (node_types n) \<and> \<not> coin_check_node n) \<or>
     (case n of EDefault t \<Rightarrow> container_default t | _ \<Rightarrow> False)"

definition default_of_container :: "expr \<Rightarrow> bool" where
  "default_of_container e = (case e of EDefault t \<Rightarrow> container_default t | _ \<Rightarrow> False)"

lemma check_operand_nodes:
  "check_operand v = Ok () \<Longrightarrow> e \<in> set_operand v \<Longrightarrow> check_expr e = Ok () \<or> default_of_container e"
proof (induction v arbitrary: e)
  case (OStateValue sv)
  then show ?case
    by (cases sv) (fastforce simp: default_of_container_def check_adt_default_iff split: if_splits)+
qed auto

lemma check_instructions_nodes:
  assumes "try_each (\<lambda>i. try_each (\<lambda>(_, x). check_operand x) (ins_args i)) ins = Ok ()"
    "i \<in> set ins" "v \<in> set_instruction i" "e \<in> set_operand v"
  shows "check_expr e = Ok () \<or> default_of_container e"
proof -
  obtain n where "(n, v) \<in> set (ins_args i)" using assms(3) by (cases i) auto
  then have "check_operand v = Ok ()" using assms(1,2) by fastforce
  then show ?thesis using assms(4) by (rule check_operand_nodes)
qed

definition accepted :: "expr \<Rightarrow> bool" where
  "accepted e \<longleftrightarrow> check_expr e = Ok () \<or> default_of_container e"

lemma default_of_container_nodes: "default_of_container e \<Longrightarrow> n \<in> expr_nodes e \<Longrightarrow> n = e"
  by (cases e) (auto simp: default_of_container_def)

text \<open>The induction: acceptance of an expression passes to its nodes.\<close>

definition hereditary :: "expr \<Rightarrow> bool" where
  "hereditary e \<longleftrightarrow> (check_expr e = Ok () \<longrightarrow> (\<forall>n \<in> expr_nodes e. accepted n))"

lemma hereditary_accepted: "hereditary e \<Longrightarrow> accepted e \<Longrightarrow> n \<in> expr_nodes e \<Longrightarrow> accepted n"
  using default_of_container_nodes by (auto simp: hereditary_def accepted_def)

lemma accepted_instructions:
  assumes "\<forall>i\<in>set ins. \<forall>v\<in>set_instruction i. \<forall>e\<in>set_operand v. hereditary e"
    "try_each (\<lambda>i. try_each (\<lambda>(_, x). check_operand x) (ins_args i)) ins = Ok ()"
    "n \<in> operand_nodes (map (map_instruction (map_operand expr_nodes)) ins)"
  shows "accepted n"
proof -
  obtain i v e where iv: "i \<in> set ins" "v \<in> set_instruction i" "e \<in> set_operand v" "n \<in> expr_nodes e"
    using assms(3) by (auto simp: operand_nodes_def instruction.set_map operand.set_map)
  then have "accepted e" using check_instructions_nodes [OF assms(2)] by (auto simp: accepted_def)
  with iv assms(1) show ?thesis by (blast intro: hereditary_accepted)
qed

lemma accepted_tuple:
  assumes "\<forall>a\<in>set as. \<forall>e\<in>set_tuple_arg a. hereditary e"
    "try_each (\<lambda>a. case a of Single x \<Rightarrow> check_expr x | Spread n x \<Rightarrow> check_expr x) as = Ok ()"
    "n \<in> \<Union> (\<Union> (set_tuple_arg ` set (map (map_tuple_arg expr_nodes) as)))"
  shows "accepted n"
proof -
  obtain a e where a: "a \<in> set as" "e \<in> set_tuple_arg a" "n \<in> expr_nodes e"
    using assms(3) by (auto simp: tuple_arg.set_map)
  have "accepted e"
  proof (cases a)
  qed (use a assms(2) in \<open>fastforce simp: accepted_def\<close>)+
  with a assms(1) show ?thesis by (blast intro: hereditary_accepted)
qed

lemma accepted_map_args:
  assumes "\<forall>a\<in>set as. \<forall>e\<in>set_map_arg a. hereditary e"
    "try_each (\<lambda>a. check_expr (ma_expr a)) as = Ok ()"
    "n \<in> \<Union> (\<Union> (set_map_arg ` set (map (map_map_arg expr_nodes) as)))"
  shows "accepted n"
proof -
  obtain a e where a: "a \<in> set as" "e \<in> set_map_arg a" "n \<in> expr_nodes e"
    using assms(3) by (auto simp: map_arg.set_map)
  have "accepted e"
  proof (cases a)
  qed (use a assms(2) in \<open>fastforce simp: accepted_def\<close>)
  with a assms(1) show ?thesis by (blast intro: hereditary_accepted)
qed

lemma accepted_path:
  assumes "\<forall>a\<in>set ps. \<forall>e\<in>set_path_element a. hereditary e"
    "try_each (\<lambda>p. case p of PathIndex _ \<Rightarrow> Ok ()
      | PathComputed u e \<Rightarrow> rbind (check_type u) (\<lambda>_. check_expr e)) ps = Ok ()"
    "n \<in> \<Union> (\<Union> (set_path_element ` set (map (map_path_element expr_nodes) ps)))"
  shows "accepted n"
proof -
  obtain a e where a: "a \<in> set ps" "e \<in> set_path_element a" "n \<in> expr_nodes e"
    using assms(3) by (auto simp: path_element.set_map)
  have "accepted e"
  proof (cases a)
  qed (use a assms(2) in \<open>fastforce simp: accepted_def\<close>)+
  with a assms(1) show ?thesis by (blast intro: hereditary_accepted)
qed

lemma accepted_fun:
  assumes "\<forall>e\<in>set_ir_fun f. hereditary e"
    "(case f of FunRef _ \<Rightarrow> Ok () | FunCircuit ps t body \<Rightarrow>
      rbind (check_arguments ps) (\<lambda>_. rbind (check_type t) (\<lambda>_. check_expr body))) = Ok ()"
    "n \<in> \<Union> (set_ir_fun (map_ir_fun expr_nodes f))"
  shows "accepted n"
  using assms by (cases f) (auto simp: hereditary_def)

lemma accepted_ledger_arg:
  assumes "(case a of EDefault (TyAdt n ts) \<Rightarrow> check_adt_default (TyAdt n ts) | _ \<Rightarrow> check_expr a) = Ok ()"
  shows "accepted a"
proof (cases "\<exists>n ts. a = EDefault (TyAdt n ts)")
  case True
  then obtain n ts where a: "a = EDefault (TyAdt n ts)" by blast
  then have "container_default (TyAdt n ts)"
    using assms check_adt_default_iff(1) [of "TyAdt n ts"] by (simp add: is_adt_def del: check_adt_default.simps)
  with a show ?thesis by (simp add: accepted_def default_of_container_def)
next
  case False
  with assms have "check_expr a = Ok ()" by (auto split: expr.splits ty.splits)
  then show ?thesis by (simp add: accepted_def)
qed

lemma accepted_ledger_args:
  assumes "\<forall>e\<in>set as. hereditary e"
    "try_each (\<lambda>a. case a of EDefault (TyAdt n ts) \<Rightarrow> check_adt_default (TyAdt n ts) | _ \<Rightarrow> check_expr a) as = Ok ()"
    "n \<in> \<Union> (set (map expr_nodes as))"
  shows "accepted n"
proof -
  obtain a where a: "a \<in> set as" "n \<in> expr_nodes a" using assms(3) by auto
  have "accepted a"
    by (rule accepted_ledger_arg) (use a(1) assms(2) in \<open>simp only: try_each_Ok_iff\<close>)
  with a assms(1) show ?thesis by (blast intro: hereditary_accepted)
qed

lemma accepted_root: "check_expr e = Ok () \<Longrightarrow> accepted e"
  by (simp add: accepted_def)

lemma hereditary_all: "hereditary e"
proof (induction e)
  case (EEmit v g k e ins)
  then have ins: "\<forall>i\<in>set ins. \<forall>v\<in>set_instruction i. \<forall>e\<in>set_operand v. hereditary e" by blast
  from EEmit(1) accepted_instructions [OF ins] show ?case
    by (auto simp: hereditary_def accepted_def simp del: try_each_Ok_iff set_map)
next
  case (EPublicLedger f c p op t ins as)
  then have ih: "\<forall>a\<in>set p. \<forall>e\<in>set_path_element a. hereditary e"
    "\<forall>i\<in>set ins. \<forall>v\<in>set_instruction i. \<forall>e\<in>set_operand v. hereditary e" "\<forall>e\<in>set as. hereditary e" by blast+
  note parts = accepted_path [OF ih(1)] accepted_instructions [OF ih(2)] accepted_ledger_args [OF ih(3)]
  show ?case
  proof (cases c)
    case (Plain name)
    show ?thesis
      unfolding hereditary_def Plain check_expr.simps rbind_Ok_iff expr_nodes.simps
      using parts accepted_root [of "EPublicLedger f c p op t ins as"]
      by (simp add: Plain accepted_def del: try_each_Ok_iff set_map) blast
  qed (simp add: hereditary_def)
next
  case (ETuple as)
  then have ih: "\<forall>a\<in>set as. \<forall>e\<in>set_tuple_arg a. hereditary e" by blast
  from accepted_tuple [OF ih] show ?case
    by (auto simp: hereditary_def accepted_def simp del: try_each_Ok_iff set_map)
next
  case (EVectorLit as)
  then have ih: "\<forall>a\<in>set as. \<forall>e\<in>set_tuple_arg a. hereditary e" by blast
  from accepted_tuple [OF ih] show ?case
    by (auto simp: hereditary_def accepted_def simp del: try_each_Ok_iff set_map)
next
  case (EMap k f as)
  then have ih: "\<forall>e\<in>set_ir_fun f. hereditary e" "\<forall>a\<in>set as. \<forall>e\<in>set_map_arg a. hereditary e" by blast+
  from accepted_fun [OF ih(1)] accepted_map_args [OF ih(2)] show ?case
    by (simp add: hereditary_def accepted_def del: try_each_Ok_iff set_map) blast
next
  case (EFold k f i t as)
  then have ih: "\<forall>e\<in>set_ir_fun f. hereditary e" "\<forall>a\<in>set as. \<forall>e\<in>set_map_arg a. hereditary e" by blast+
  show ?case
    unfolding hereditary_def
  proof (intro impI ballI)
    fix n
    assume ok: "check_expr (EFold k f i t as) = Ok ()" and n: "n \<in> expr_nodes (EFold k f i t as)"
    from ok have "check_expr i = Ok ()" by (simp del: try_each_Ok_iff)
    with EFold(2) have "n \<in> expr_nodes i \<Longrightarrow> accepted n" by (simp add: hereditary_def)
    moreover from ok have "n \<in> \<Union> (set_ir_fun (map_ir_fun expr_nodes f)) \<Longrightarrow> accepted n"
      by (intro accepted_fun [OF ih(1)]) (simp_all del: try_each_Ok_iff)
    moreover from ok have "n \<in> \<Union> (\<Union> (set_map_arg ` set (map (map_map_arg expr_nodes) as))) \<Longrightarrow> accepted n"
      by (intro accepted_map_args [OF ih(2)]) (simp_all del: set_map)
    ultimately show "accepted n"
      using n accepted_root [OF ok] unfolding expr_nodes.simps by blast
  qed
next
  case (ELetStar bs e)
  have bs: "hereditary (snd b)" if "b \<in> set bs" for b
    by (rule ELetStar(1) [OF that]) (simp add: snds.simps)
  show ?case
    unfolding hereditary_def
  proof (intro impI ballI)
    fix n
    assume ok: "check_expr (ELetStar bs e) = Ok ()" and n: "n \<in> expr_nodes (ELetStar bs e)"
    from ok ELetStar(2) have "n \<in> expr_nodes e \<Longrightarrow> accepted n" by (simp add: hereditary_def)
    moreover have "accepted n" if "b \<in> set bs" "n \<in> expr_nodes (snd b)" for b
    proof -
      from ok that(1) have "check_expr (snd b) = Ok ()" by (simp add: case_prod_beta)
      with bs [OF that(1)] that(2) show ?thesis by (simp add: hereditary_def)
    qed
    ultimately show "accepted n"
      using n accepted_root [OF ok] unfolding expr_nodes.simps by auto
  qed
qed (auto simp: hereditary_def accepted_def; fail)+

lemma check_arguments_iff: "check_arguments as = Ok () \<longleftrightarrow> list_all (\<lambda>a. value_type (arg_ty a)) as"
  by (simp add: check_arguments_def list_all_iff)

lemma path_types_checked:
  assumes "(case p of PathIndex _ \<Rightarrow> Ok ()
      | PathComputed u e \<Rightarrow> rbind (check_type u) (\<lambda>_. check_expr e)) = Ok ()"
  shows "list_all value_type (path_types p)"
  using assms by (cases p) auto

lemma fun_types_checked:
  assumes "(case f of FunRef _ \<Rightarrow> Ok () | FunCircuit ps t body \<Rightarrow>
      rbind (check_arguments ps) (\<lambda>_. rbind (check_type t) (\<lambda>_. check_expr body))) = Ok ()"
  shows "list_all value_type (fun_types f)"
  using assms by (cases f) (auto simp: check_arguments_iff list_all_iff)

lemma checked_executable:
  assumes "check_expr n = Ok ()" shows "list_all value_type (node_types n) \<and> \<not> coin_check_node n"
proof (cases n)
  case (EPublicLedger f c p op t ins as)
  then obtain name where c: "c = Plain name" using assms by (cases c) auto
  have "list_all value_type (path_types x)" if "x \<in> set p" for x
    by (rule path_types_checked) (use assms that EPublicLedger c in simp)
  then have "list_all value_type (concat (map path_types p))" by (auto simp: list_all_iff)
  with assms show ?thesis by (simp add: EPublicLedger c)
next
  case (EMap k f as)
  with assms have "list_all value_type (fun_types f)" by (intro fun_types_checked) simp
  with EMap show ?thesis by simp
next
  case (EFold k f i t as)
  with assms have "list_all value_type (fun_types f)" by (intro fun_types_checked) simp
  with EFold show ?thesis by simp
qed (use assms in \<open>auto simp: list_all_iff\<close>)

lemma accepted_executable: "accepted n \<Longrightarrow> executable_node n"
  using checked_executable [of n]
  by (auto simp: accepted_def executable_node_def default_of_container_def)

lemma checked_nodes: "check_expr e = Ok () \<Longrightarrow> n \<in> expr_nodes e \<Longrightarrow> executable_node n"
  using hereditary_all [of e] accepted_executable by (auto simp: hereditary_def)

section \<open>What loading guarantees\<close>

lemma exported_circuits_sound:
  assumes "exported_circuits table es = Ok cs" "x \<in> set cs"
  shows "check_circuit (exp_def x) = Ok ()" "\<exists>target. (exp_name x, target) \<in> set es \<and> table target = Some (exp_def x)"
  using assms
  by (induction table es arbitrary: cs rule: exported_circuits.induct) (fastforce split: option.splits)+

lemma circuit_table_Some:
  "circuit_table ir target = Some c \<Longrightarrow> c \<in> set (ir_circuits ir) \<and> cir_name c = target"
  by (auto simp: circuit_table_def map_from_list_def dest!: map_of_SomeD)

lemma load_str_Ok:
  assumes "load_str text = Ok info"
  obtains d ir where "read_one text = Ok d" "parse_sexp d = Ok ir" "from_program ir = Ok info"
    "check_compiler_version (ir_compiler_version ir) = Ok ()"
proof -
  obtain d v ir where d: "read_one text = Ok d" "compiler_version d = Ok v" "check_compiler_version v = Ok ()"
    "parse_sexp d = Ok ir" "from_program ir = Ok info"
    using assms by (auto simp: load_str_def)
  moreover have "ir_compiler_version ir = v"
    using d(2,4) by (auto simp: parse_sexp_def)
  ultimately show ?thesis using that by blast
qed


text \<open>A counter that an exported circuit increments, as the compiler writes it.\<close>

definition bump_circuit :: circuit where
  "bump_circuit = \<lparr>cir_name = ''%bump.1'', cir_exported = True, cir_pure = False, cir_proof = True,
     cir_arguments = [\<lparr>arg_name = ''%by.2'', arg_ty = TyUnsigned 65535\<rparr>], cir_result_type = TyTuple [],
     cir_body = EPublicLedger ''%n.0'' (Plain ''update'') [PathIndex 0] ''increment'' (TyTuple [])
       [Instruction OpIdx [(''path'', OList [OAlign 0 1])],
        Instruction OpAddi [(''immediate'', OValueToInt (OExpr (EVarRef ''%by.2'')))],
        Instruction OpIns [(''n'', OInt 1)]] [EVarRef ''%by.2'']\<rparr>"

definition counter_ir :: analyzed_ir where
  "counter_ir = \<lparr>ir_compiler_version = ''0.35.1'', ir_language_version = ''0.25'', ir_runtime_version = ''0.17'',
     ir_exports = [(''bump'', ''%bump.1''), (''n'', ''%n.0'')], ir_contract_types = [],
     ir_elements = [PPublicLedger \<lparr>ld_fields = [\<lparr>lb_name = ''%n.0'', lb_path = [0], lb_exported = True,
         lb_ty = TyAdt ''Counter'' []\<rparr>], ld_constructor = \<lparr>con_arguments = [], con_body = ETuple []\<rparr>\<rparr>,
       PCircuit bump_circuit]\<rparr>"

lemma counter_loads:
  "from_program counter_ir = Ok
     \<lparr>ci_circuits = [\<lparr>exp_name = ''bump'', exp_def = bump_circuit\<rparr>], ci_witnesses = [],
      ci_ledger = [\<lparr>lf_name = ''n'', lf_index = ISingle 0, lf_storage = KCounter, lf_exported = True,
        lf_element_type = None, lf_key = None, lf_value = None, lf_depth = None\<rparr>],
      ci_constructor = None, ci_helpers = [bump_circuit], ci_natives = []\<rparr>"
proof -
  have c: "check_circuit bump_circuit = Ok ()"
    by (simp add: check_circuit_def bump_circuit_def check_arguments_def)
  have n: "cir_name bump_circuit = ''%bump.1''" by (simp add: bump_circuit_def)
  show ?thesis
    by (simp add: from_program_def counter_ir_def ir_circuits_def ir_natives_def ir_witnesses_def ir_ledger_def
        map_filter_simps circuit_table_def map_from_list_def c n load_constructor_def is_empty_constructor_def
        artifact_ledger_field_def storage_of_def fill_field_def ident_name_def all_digits_def)
qed


section \<open>Ledger fields\<close>

text \<open>A field that is typed for its storage, by value types that hold no unknown type.\<close>

definition field_typed :: "ledger_field \<Rightarrow> bool" where
  "field_typed f \<longleftrightarrow>
     (case lf_storage f of
        KCounter \<Rightarrow> lf_element_type f = None \<and> lf_key f = None \<and> lf_value f = None \<and> lf_depth f = None
      | KMap \<Rightarrow> lf_element_type f = None \<and> lf_depth f = None \<and>
          (\<exists>k v. lf_key f = Some k \<and> lf_value f = Some v \<and> value_type k \<and> (value_type v \<or> container_default v) \<and>
            \<not> holds_unknown k \<and> \<not> holds_unknown v)
      | k \<Rightarrow> lf_key f = None \<and> lf_value f = None \<and>
          (lf_depth f \<noteq> None \<longleftrightarrow> k \<in> {KMerkleTree, KHistoricMerkleTree}) \<and>
          (\<exists>t. lf_element_type f = Some t \<and> value_type t \<and> \<not> holds_unknown t))"

lemma known_arg: "\<not> list_ex arg_holds_unknown as \<Longrightarrow> i < length as \<Longrightarrow> as ! i = AdtType t \<Longrightarrow> \<not> holds_unknown t"
  using nth_mem [of i as] by (fastforce simp: list_ex_iff)

lemma adt_arg_ty_Ok:
  "adt_arg_ty as i = Ok t \<Longrightarrow> \<not> list_ex arg_holds_unknown as \<Longrightarrow> value_type t \<and> \<not> holds_unknown t"
  by (auto simp: adt_arg_ty_def split: adt_arg.splits dest: known_arg)

lemma map_value_ty_Ok:
  assumes "map_value_ty as = Ok t" "\<not> list_ex arg_holds_unknown as"
  shows "(value_type t \<or> container_default t) \<and> \<not> holds_unknown t"
proof (cases "\<exists>n ts. index_or_panic as 1 = (Ok (AdtType (TyAdt n ts)) :: (artifact_error, adt_arg) res)")
  case True
  then obtain n ts where i: "1 < length as" "as ! 1 = AdtType (TyAdt n ts)"
    by (auto simp: index_or_panic_def split: if_splits)
  with assms(1) have "t = TyAdt n ts" "check_adt_default t = Ok ()"
    by (auto simp: map_value_ty_def index_or_panic_def simp del: check_adt_default.simps)
  with known_arg [OF assms(2) i] check_adt_default_iff(1) [of t] show ?thesis by (simp add: is_adt_def)
next
  case False
  with assms(1) have "adt_arg_ty as 1 = Ok t"
    by (auto simp: map_value_ty_def split: adt_arg.splits ty.splits)
  with assms(2) adt_arg_ty_Ok show ?thesis by blast
qed

lemma holds_unknown_resolved: "resolved t = TyAdt n as \<Longrightarrow> holds_unknown t = list_ex arg_holds_unknown as"
  by (induction t rule: resolved.induct) auto

lemma fill_field_typed:
  assumes "fill_field as f = Ok g" "\<not> list_ex arg_holds_unknown as"
    "lf_element_type f = None" "lf_key f = None" "lf_value f = None" "lf_depth f = None"
  shows "field_typed g"
proof (cases "lf_storage f")
qed (use assms in \<open>auto simp: fill_field_def field_typed_def dest: adt_arg_ty_Ok map_value_ty_Ok\<close>)

lemma artifact_field_typed:
  assumes "artifact_ledger_field b = Ok f" shows "field_typed f"
proof (cases "resolved (lb_ty b)")
  case (TyAdt n as)
  with assms show ?thesis
    by (auto simp: artifact_ledger_field_def Let_def holds_unknown_resolved split: if_splits
        elim!: fill_field_typed)
qed (use assms in \<open>simp_all add: artifact_ledger_field_def\<close>)

lemma loaded_field:
  assumes "from_program ir = Ok info" "f \<in> set (ci_ledger info)"
  shows "field_typed f"
proof -
  obtain fs where "traverse artifact_ledger_field fs = Ok (ci_ledger info)"
    using assms unfolding from_program_def by (fastforce split: option.splits)
  with assms(2) have "\<exists>b. artifact_ledger_field b = Ok f"
    by (fastforce simp: traverse_Ok_iff list_all2_conv_all_nth in_set_conv_nth)
  then show ?thesis using artifact_field_typed by blast
qed

text \<open>
  C29: every ledger field of a loaded contract is typed for its storage: a cell, set, list or
  tree has an element type, a map has a key and a value type, a tree and no other field has a
  depth; each is a value type, or a nested map for the value of a map, and holds no unknown type.
\<close>

theorem loaded_fields_typed:
  assumes "from_program ir = Ok info" "f \<in> set (ci_ledger info)"
  shows "field_typed f"
  by (rule loaded_field [OF assms])

theorem loaded_fields_typed_witness:
  "field_typed \<lparr>lf_name = ''n'', lf_index = ISingle 0, lf_storage = KCounter, lf_exported = True,
     lf_element_type = None, lf_key = None, lf_value = None, lf_depth = None\<rparr>"
  by (rule loaded_fields_typed [OF counter_loads]) simp

section \<open>Errors\<close>

text \<open>
  C30: the version is checked before the program is parsed: an artifact whose header names
  another compiler is refused with the version error, whatever the rest of it holds.
\<close>

theorem version_checked_first:
  assumes "read_one text = Ok d" "compiler_version d = Ok v" "version_family v \<noteq> Some ''0.35''"
  shows "\<exists>e. load_str text = Err (LoadVersion e) \<and> e \<in> {UnsupportedVersion v, MalformedVersion v}"
  using assms
  by (cases "version_family v")
    (auto simp: load_str_def check_compiler_version_def supported_compiler_family_def)

theorem version_checked_first_witness:
  "\<exists>e. load_str ''(analyzed-ir (compiler-version \"0.36.0\") (contract-types (tfield)))'' = Err (LoadVersion e) \<and>
     e \<in> {UnsupportedVersion ''0.36.0'', MalformedVersion ''0.36.0''}"
  by (rule version_checked_first [where d = "SList [SSym ''analyzed-ir'', SList [SSym ''compiler-version'', SStr ''0.36.0''],
        SList [SSym ''contract-types'', SList [SSym ''tfield'']]]"]) code_simp+

lemma check_no_panic: "check_type t \<noteq> Panic" "check_adt_default t \<noteq> Panic" "check_adt_arg a \<noteq> Panic"
proof -
  have t: "check_type t \<noteq> Panic" for t by (simp add: check_type_def split: option.split)
  have each: "(\<And>x. x \<in> set xs \<Longrightarrow> f x \<noteq> Panic) \<Longrightarrow> try_each f xs \<noteq> Panic" for f :: "'b \<Rightarrow> checked" and xs
    by (induction xs) (auto simp: rbind_Panic_iff)
  show "check_type t \<noteq> Panic" by (rule t)
  show "check_adt_default t \<noteq> Panic" "check_adt_arg a \<noteq> Panic"
    by (induction t and a rule: check_adt_default_check_adt_arg.induct) (auto simp: t each split: ty.split)
qed

lemma index_panic_iff: "index_or_panic xs i = Panic \<longleftrightarrow> length xs \<le> i"
  by (auto simp: index_or_panic_def)

lemma arg_panic_iff:
  "adt_arg_ty as i = Panic \<longleftrightarrow> length as \<le> i" "adt_arg_nat as i = Panic \<longleftrightarrow> length as \<le> i"
  "map_value_ty as = Panic \<longleftrightarrow> length as \<le> 1"
  by (auto simp: adt_arg_ty_def adt_arg_nat_def map_value_ty_def rbind_Panic_iff index_panic_iff check_no_panic
      simp del: check_adt_default.simps split: adt_arg.splits ty.splits)

lemma fill_panic_iff:
  "fill_field as f = Panic \<longleftrightarrow> lf_storage f \<noteq> KCounter \<and>
     (as = [] \<or> length as = 1 \<and>
        (lf_storage f = KMap \<and> (\<exists>t. hd as = AdtType t \<and> value_type t) \<or>
         lf_storage f \<in> {KMerkleTree, KHistoricMerkleTree} \<and> (\<exists>n. hd as = AdtNat n)))"
proof (cases as)
  case Nil
  then show ?thesis
    by (cases "lf_storage f") (simp_all add: fill_field_def rbind_Panic_iff arg_panic_iff)
next
  case (Cons a as')
  have ty: "(\<exists>t. adt_arg_ty as 0 = Ok t) \<longleftrightarrow> (\<exists>t. a = AdtType t \<and> value_type t)"
    "(\<exists>n. adt_arg_nat as 0 = Ok n) \<longleftrightarrow> (\<exists>n. a = AdtNat n)"
    by (auto simp: Cons adt_arg_ty_def adt_arg_nat_def index_or_panic_def split: adt_arg.splits)
  have "length as \<le> 1 \<longleftrightarrow> as' = []" by (simp add: Cons)
  then show ?thesis using ty
    by (cases "lf_storage f") (auto simp: Cons fill_field_def rbind_Panic_iff arg_panic_iff)
qed

text \<open>
  C31: a ledger field whose storage kind lacks a type argument is not refused with an error:
  the loader indexes past the arguments and panics. It happens exactly for a known kind that
  is not a counter and has fewer arguments than the loader reads, when those it reads first
  are accepted.
\<close>

theorem short_storage_panics:
  "artifact_ledger_field b = Panic \<longleftrightarrow>
   (\<exists>name as k. resolved (lb_ty b) = TyAdt name as \<and> \<not> holds_unknown (lb_ty b) \<and>
      storage_of (case strip_prefix ''__compact_'' name of Some n \<Rightarrow> n | None \<Rightarrow> name) = Some k \<and> k \<noteq> KCounter \<and>
      (as = [] \<or>
       length as = 1 \<and>
         (k = KMap \<and> (\<exists>t. hd as = AdtType t \<and> value_type t) \<or>
          k \<in> {KMerkleTree, KHistoricMerkleTree} \<and> (\<exists>n. hd as = AdtNat n))))"
proof (cases "resolved (lb_ty b)")
  case (TyAdt name as)
  then show ?thesis
    by (auto simp: artifact_ledger_field_def Let_def rbind_Panic_iff fill_panic_iff)
qed (simp_all add: artifact_ledger_field_def)

end
