(* ===== verification/RtTypes.thy ===== *)
theory RtTypes
  imports Artifact
begin

text \<open>
  The values of a running circuit and their encodings, the crate \<^verbatim>\<open>crates/compact/runtime\<close>:
  \<^verbatim>\<open>value.rs\<close>, \<^verbatim>\<open>conversions.rs\<close>, \<^verbatim>\<open>compact_types.rs\<close>, \<^verbatim>\<open>foreign/mod.rs\<close>, \<^verbatim>\<open>built_ins.rs\<close>,
  \<^verbatim>\<open>result.rs\<close>, \<^verbatim>\<open>zswap.rs\<close>, \<^verbatim>\<open>witness.rs\<close> and \<^verbatim>\<open>error.rs\<close>.

  The encodings of scalars, the fields, the curves and the hashes come from the crates of
  midnight-ledger, which are not in the repository: they are the record \<open>fab_host\<close>, an
  argument of the definitions that use them.
\<close>

section \<open>Values\<close>

text \<open>
  The data of \<^verbatim>\<open>midnight_base_crypto::fab\<close> that the code reads and builds: a value is a list of
  atoms, an alignment a list of segments, one per atom or one for a whole disjoint union.
\<close>

datatype fab_atom = AlBytes u32 | AlField | AlCompress

datatype segment = SegAtom fab_atom | SegOption "segment list list"

record aligned =
  al_value :: "bytes list"
  al_alignment :: "segment list"

text \<open>The fields of a \<^verbatim>\<open>Value::Struct\<close>, a hash map, are an association list with distinct keys.\<close>

datatype runtime_value =
    VBool bool
  | VInteger u128
  | VAligned aligned
  | VStruct "(string \<times> runtime_value) list"
  | VTuple "runtime_value list"
  | VVoid

text \<open>The text of an error is reduced to what it says.\<close>

datatype interp_error =
    UndefinedVariable string
  | AssertionFailed string
  | LedgerQueryFailed string
  | TypeError string
  | Unsupported string
  | WitnessError string
  | NoContractAddress

type_synonym 'a run = "(interp_error, 'a) res"

section \<open>The host\<close>

datatype arith_op = ArAdd | ArSub | ArMul

datatype foreign_field =
    Secp256k1Base | Secp256k1Scalar | Secp256r1Base | Secp256r1Scalar | Curve25519Base | Curve25519Scalar

text \<open>
  What the runtime takes from the crates of midnight-ledger. \<open>'fr\<close> is the native field,
  \<open>'ff\<close> the elements of the foreign fields, \<open>'pt\<close> the points of the curves.
\<close>

record ('fr, 'ff, 'pt) fab_host =
  fh_new :: "bytes list \<Rightarrow> segment list \<Rightarrow> aligned option"
  fh_bool :: "bool \<Rightarrow> aligned"
  fh_u8 :: "u8 \<Rightarrow> aligned"
  fh_u64 :: "u64 \<Rightarrow> aligned"
  fh_u128 :: "u128 \<Rightarrow> aligned"
  fh_unit :: aligned
  fh_bytes :: "bytes \<Rightarrow> aligned"
  fh_array :: "bytes \<Rightarrow> aligned"
  fh_concat :: "aligned list \<Rightarrow> aligned"
  fh_atom_u128 :: "bytes \<Rightarrow> u128 option"
  fh_fr_of_u128 :: "u128 \<Rightarrow> 'fr"
  fh_fr_of_le :: "bytes \<Rightarrow> 'fr option"
  fh_fr_le :: "'fr \<Rightarrow> bytes"
  fh_fr_op :: "arith_op \<Rightarrow> 'fr \<Rightarrow> 'fr \<Rightarrow> 'fr"
  fh_fr_aligned :: "'fr \<Rightarrow> aligned"
  fh_fr_try :: "bytes list \<Rightarrow> 'fr option"
  fh_ff_try :: "foreign_field \<Rightarrow> bytes list \<Rightarrow> 'ff option"
  fh_ff_aligned :: "foreign_field \<Rightarrow> 'ff \<Rightarrow> aligned"
  fh_ff_default :: "foreign_field \<Rightarrow> 'ff"
  fh_ff_op :: "foreign_field \<Rightarrow> arith_op \<Rightarrow> 'ff \<Rightarrow> 'ff \<Rightarrow> 'ff"
  fh_ff_le :: "foreign_field \<Rightarrow> 'ff \<Rightarrow> bytes"
  fh_ff_of_le :: "foreign_field \<Rightarrow> bytes \<Rightarrow> 'ff"
  fh_pt_try :: "curve \<Rightarrow> bytes list \<Rightarrow> 'pt option"
  fh_pt_aligned :: "curve \<Rightarrow> 'pt \<Rightarrow> aligned"
  fh_pt_default :: "curve \<Rightarrow> 'pt"
  fh_max_aligned_size :: "segment list \<Rightarrow> nat"
  fh_leaf_hash :: "aligned \<Rightarrow> bytes"
  fh_hash_output :: "bytes list \<Rightarrow> bytes option"

section \<open>Integers as bytes\<close>

text \<open>\<^verbatim>\<open>to_le_bytes\<close> of a \<^verbatim>\<open>u128\<close>, \<^verbatim>\<open>BigUint::from_bytes_le\<close> and \<^verbatim>\<open>BigUint::to_bytes_le\<close>.\<close>

fun nat_le_bytes :: "nat \<Rightarrow> nat \<Rightarrow> bytes" where
  "nat_le_bytes 0 n = []"
| "nat_le_bytes (Suc k) n = of_nat n # nat_le_bytes k (n div 256)"

definition u128_le_bytes :: "u128 \<Rightarrow> bytes" where
  "u128_le_bytes n = nat_le_bytes 16 (unat n)"

fun nat_of_le :: "bytes \<Rightarrow> nat" where
  "nat_of_le [] = 0"
| "nat_of_le (b # bs) = unat b + 256 * nat_of_le bs"

definition biguint_le_bytes :: "nat \<Rightarrow> bytes" where
  "biguint_le_bytes n = nat_le_bytes (uint_byte_width n) n"

text \<open>\<^verbatim>\<open>u128::try_from\<close> of a number, and the checked operations of \<^verbatim>\<open>usize\<close> and \<^verbatim>\<open>u128\<close>.\<close>

definition u128_of_nat :: "nat \<Rightarrow> u128 option" where
  "u128_of_nat n = (if n < 2 ^ 128 then Some (of_nat n) else None)"

definition usize_checked :: "nat \<Rightarrow> nat option" where
  "usize_checked n = (if n < 2 ^ 64 then Some n else None)"

section \<open>Conversions\<close>

definition integer_fallback_aligned :: "('fr, 'ff, 'pt) fab_host \<Rightarrow> u128 \<Rightarrow> aligned" where
  "integer_fallback_aligned h n = (if unat n < 2 ^ 64 then fh_u64 h (ucast n) else fh_u128 h n)"

fun try_to_aligned_value :: "('fr, 'ff, 'pt) fab_host \<Rightarrow> runtime_value \<Rightarrow> aligned run" where
  "try_to_aligned_value h (VAligned av) = Ok av"
| "try_to_aligned_value h (VInteger n) = Ok (integer_fallback_aligned h n)"
| "try_to_aligned_value h (VBool b) = Ok (fh_bool h b)"
| "try_to_aligned_value h VVoid = Ok (fh_unit h)"
| "try_to_aligned_value h (VTuple es) = rmap (fh_concat h) (traverse (try_to_aligned_value h) es)"
| "try_to_aligned_value h (VStruct fs) = Err (TypeError ''struct without its declared type'')"

definition value_as_u32 :: "runtime_value \<Rightarrow> u32 option" where
  "value_as_u32 v =
     (case v of VInteger n \<Rightarrow> if unat n < 2 ^ 32 then Some (ucast n) else None | _ \<Rightarrow> None)"

definition value_to_fr :: "('fr, 'ff, 'pt) fab_host \<Rightarrow> runtime_value \<Rightarrow> 'fr option" where
  "value_to_fr h v =
     (case v of
        VInteger n \<Rightarrow> Some (fh_fr_of_u128 h n)
      | VAligned av \<Rightarrow> fh_fr_try h (al_value av)
      | _ \<Rightarrow> None)"

definition aligned_atom_to_u128 :: "('fr, 'ff, 'pt) fab_host \<Rightarrow> aligned \<Rightarrow> u128 option" where
  "aligned_atom_to_u128 h av = (case al_value av of a # _ \<Rightarrow> fh_atom_u128 h a | [] \<Rightarrow> None)"

definition value_to_u128 :: "('fr, 'ff, 'pt) fab_host \<Rightarrow> runtime_value \<Rightarrow> u128 option" where
  "value_to_u128 h v =
     (case v of
        VInteger n \<Rightarrow> Some n
      | VBool b \<Rightarrow> Some (if b then 1 else 0)
      | VAligned av \<Rightarrow> aligned_atom_to_u128 h av
      | _ \<Rightarrow> None)"

text \<open>A value of the wrong shape is a \<^verbatim>\<open>TypeError\<close>, as every error of a struct is.\<close>

definition value_to_hash_output :: "('fr, 'ff, 'pt) fab_host \<Rightarrow> runtime_value \<Rightarrow> bytes run" where
  "value_to_hash_output h v =
     rbind (try_to_aligned_value h v)
       (\<lambda>av. ok_or (TypeError ''expected a 32-byte value'') (fh_hash_output h (al_value av)))"

definition value_to_embedded_group :: "('fr, 'ff, 'pt) fab_host \<Rightarrow> runtime_value \<Rightarrow> 'pt option" where
  "value_to_embedded_group h v = (case v of VAligned av \<Rightarrow> fh_pt_try h Jubjub (al_value av) | _ \<Rightarrow> None)"

section \<open>Foreign fields and points\<close>

fun foreign_of :: "field_type \<Rightarrow> foreign_field option" where
  "foreign_of FNative = None"
| "foreign_of (FBase Jubjub) = None"
| "foreign_of (FScalar Jubjub) = None"
| "foreign_of (FBase Secp256k1) = Some Secp256k1Base"
| "foreign_of (FScalar Secp256k1) = Some Secp256k1Scalar"
| "foreign_of (FBase Secp256r1) = Some Secp256r1Base"
| "foreign_of (FScalar Secp256r1) = Some Secp256r1Scalar"
| "foreign_of (FBase Curve25519) = Some Curve25519Base"
| "foreign_of (FScalar Curve25519) = Some Curve25519Scalar"

definition foreign_decode :: "('fr, 'ff, 'pt) fab_host \<Rightarrow> foreign_field \<Rightarrow> runtime_value \<Rightarrow> 'ff run" where
  "foreign_decode h f v =
     (case v of
        VAligned av \<Rightarrow> ok_or (TypeError ''expected a foreign field element'') (fh_ff_try h f (al_value av))
      | _ \<Rightarrow> Err (TypeError ''expected a foreign field element''))"

definition foreign_arith ::
  "('fr, 'ff, 'pt) fab_host \<Rightarrow> foreign_field \<Rightarrow> arith_op \<Rightarrow> runtime_value \<Rightarrow> runtime_value \<Rightarrow> runtime_value run" where
  "foreign_arith h f op l r =
     rbind (foreign_decode h f l) (\<lambda>a.
     rbind (foreign_decode h f r) (\<lambda>b. Ok (VAligned (fh_ff_aligned h f (fh_ff_op h f op a b)))))"

definition foreign_to_le_bytes :: "('fr, 'ff, 'pt) fab_host \<Rightarrow> foreign_field \<Rightarrow> runtime_value \<Rightarrow> bytes run" where
  "foreign_to_le_bytes h f v = rmap (fh_ff_le h f) (foreign_decode h f v)"

definition foreign_from_le_bytes :: "('fr, 'ff, 'pt) fab_host \<Rightarrow> foreign_field \<Rightarrow> bytes \<Rightarrow> runtime_value" where
  "foreign_from_le_bytes h f bs = VAligned (fh_ff_aligned h f (fh_ff_of_le h f bs))"

definition foreign_encode :: "('fr, 'ff, 'pt) fab_host \<Rightarrow> foreign_field \<Rightarrow> runtime_value \<Rightarrow> aligned run" where
  "foreign_encode h f v = rmap (fh_ff_aligned h f) (foreign_decode h f v)"

definition foreign_zero :: "('fr, 'ff, 'pt) fab_host \<Rightarrow> foreign_field \<Rightarrow> aligned" where
  "foreign_zero h f = fh_ff_aligned h f (fh_ff_default h f)"

text \<open>\<^verbatim>\<open>encode_as\<close> at a point type of a foreign curve.\<close>

definition point_encode :: "('fr, 'ff, 'pt) fab_host \<Rightarrow> curve \<Rightarrow> runtime_value \<Rightarrow> aligned run" where
  "point_encode h c v =
     (case v of
        VAligned av \<Rightarrow>
          rmap (fh_pt_aligned h c) (ok_or (TypeError ''expected a point'') (fh_pt_try h c (al_value av)))
      | _ \<Rightarrow> Err (TypeError ''expected a point''))"

section \<open>Layouts\<close>

text \<open>
  \<^verbatim>\<open>foreign/fields.rs\<close> and \<^verbatim>\<open>foreign/points.rs\<close>: an element is two atoms, split at a bit; a
  point is its coordinates, followed by the flag of the identity for a curve in Weierstrass form.
  A Jubjub point is two field atoms.
\<close>

definition low_bits :: "foreign_field \<Rightarrow> nat" where
  "low_bits f = (if f = Curve25519Scalar then 204 else 192)"

definition low_bytes :: "foreign_field \<Rightarrow> nat" where
  "low_bytes f = div_ceil (low_bits f) 8"

definition high_bytes :: "foreign_field \<Rightarrow> nat" where
  "high_bytes f = div_ceil (256 - low_bits f) 8"

definition field_alignment :: "foreign_field \<Rightarrow> segment list" where
  "field_alignment f = [SegAtom (AlBytes (of_nat (low_bytes f))), SegAtom (AlBytes (of_nat (high_bytes f)))]"

definition flagged_alignment :: "foreign_field \<Rightarrow> segment list" where
  "flagged_alignment f = field_alignment f @ field_alignment f @ [SegAtom AlField]"

fun point_alignment :: "curve \<Rightarrow> segment list" where
  "point_alignment Jubjub = [SegAtom AlField, SegAtom AlField]"
| "point_alignment Secp256k1 = flagged_alignment Secp256k1Base"
| "point_alignment Secp256r1 = flagged_alignment Secp256r1Base"
| "point_alignment Curve25519 = field_alignment Curve25519Base @ field_alignment Curve25519Base"

text \<open>The sum of \<^verbatim>\<open>atoms_of\<close>, which stops at the first unknown count or overflow.\<close>

fun checked_sum :: "nat option list \<Rightarrow> nat \<Rightarrow> nat option" where
  "checked_sum [] acc = Some acc"
| "checked_sum (c # cs) acc =
     (case c of None \<Rightarrow> None
      | Some n \<Rightarrow> (case usize_checked (acc + n) of None \<Rightarrow> None | Some t \<Rightarrow> checked_sum cs t))"

fun atom_count_for_type :: "ty \<Rightarrow> nat option" where
  "atom_count_for_type (TyField f) =
     Some (case foreign_of f of Some ff \<Rightarrow> length (field_alignment ff) | None \<Rightarrow> 1)"
| "atom_count_for_type TyBoolean = Some 1"
| "atom_count_for_type (TyUnsigned n) = Some 1"
| "atom_count_for_type (TyBytes n) = Some 1"
| "atom_count_for_type (TyPoint c) = Some (length (point_alignment c))"
| "atom_count_for_type (TyOpaque name) = Some (if name = ''JubjubPoint'' then 2 else 1)"
| "atom_count_for_type (TyTuple ts) = checked_sum (map (atom_count_for_type) ts) 0"
| "atom_count_for_type (TyVector n t) =
     (case atom_count_for_type t of None \<Rightarrow> None | Some k \<Rightarrow> usize_checked (k * unat n))"
| "atom_count_for_type (TyStruct name fs) = checked_sum (map (\<lambda>(n, t). atom_count_for_type t) fs) 0"
| "atom_count_for_type (TyEnum name vs) = Some 1"
| "atom_count_for_type (TyAlias b name t) = atom_count_for_type t"
| "atom_count_for_type (TyContract name cs) = Some 1"
| "atom_count_for_type (TyAdt name as) = None"
| "atom_count_for_type (TyVar v) = None"
| "atom_count_for_type TyUnknown = None"

definition atoms_of :: "ty list \<Rightarrow> nat option" where
  "atoms_of ts = checked_sum (map (atom_count_for_type) ts) 0"

type_synonym struct_layout = "(string \<times> nat \<times> nat) list"

definition field_slice :: "struct_layout \<Rightarrow> string \<Rightarrow> (nat \<times> nat) option" where
  "field_slice layout name = map_option snd (find (\<lambda>(n, o', l). n = name) layout)"

fun layout_from :: "nat \<Rightarrow> (string \<times> ty) list \<Rightarrow> struct_layout option" where
  "layout_from offset [] = Some []"
| "layout_from offset ((name, t) # fs) =
     (case atom_count_for_type t of None \<Rightarrow> None
      | Some len \<Rightarrow>
          (case usize_checked (offset + len) of None \<Rightarrow> None
           | Some next \<Rightarrow> map_option (\<lambda>out. (name, offset, len) # out) (layout_from next fs)))"

definition layout_from_fields :: "(string \<times> ty) list \<Rightarrow> struct_layout option" where
  "layout_from_fields fs = layout_from 0 fs"

definition element_count :: "ty \<Rightarrow> nat option" where
  "element_count t =
     (case resolved t of TyVector n u \<Rightarrow> Some (unat n) | TyTuple ts \<Rightarrow> Some (length ts) | _ \<Rightarrow> None)"

definition nth_option :: "'a list \<Rightarrow> nat \<Rightarrow> 'a option" where
  "nth_option xs i = (if i < length xs then Some (xs ! i) else None)"

definition element_type_at :: "ty \<Rightarrow> nat option \<Rightarrow> ty option" where
  "element_type_at t i =
     (case resolved t of
        TyVector n u \<Rightarrow> Some u
      | TyTuple ts \<Rightarrow> (case i of Some k \<Rightarrow> nth_option ts k | None \<Rightarrow> None)
      | _ \<Rightarrow> None)"

text \<open>A range is its start and its end.\<close>

definition element_atom_range :: "ty \<Rightarrow> nat \<Rightarrow> (nat \<times> nat) option" where
  "element_atom_range t i =
     (case resolved t of
        TyVector n u \<Rightarrow>
          if unat n \<le> i then None
          else
            (case atom_count_for_type u of None \<Rightarrow> None
             | Some stride \<Rightarrow>
                 (case usize_checked (i * stride) of None \<Rightarrow> None
                  | Some start \<Rightarrow> map_option (Pair start) (usize_checked (start + stride))))
      | TyTuple ts \<Rightarrow>
          if length ts < i then None
          else
            (case atoms_of (take i ts) of None \<Rightarrow> None
             | Some start \<Rightarrow>
                 (case nth_option ts i of None \<Rightarrow> None
                  | Some u \<Rightarrow>
                      (case atom_count_for_type u of None \<Rightarrow> None
                       | Some width \<Rightarrow> map_option (Pair start) (usize_checked (start + width)))))
      | _ \<Rightarrow> None)"

fun is_atom :: "segment \<Rightarrow> bool" where
  "is_atom (SegAtom a) = True"
| "is_atom (SegOption as) = False"

text \<open>\<^verbatim>\<open>slice_atoms\<close>: a range that starts past its end panics in Rust; no caller passes one.\<close>

definition slice_atoms :: "aligned \<Rightarrow> nat \<Rightarrow> nat \<Rightarrow> aligned option" where
  "slice_atoms av start stop =
     (if length (al_alignment av) = length (al_value av) \<and> list_all is_atom (al_alignment av) \<and>
         stop \<le> length (al_value av)
      then Some \<lparr>al_value = take (stop - start) (drop start (al_value av)),
                 al_alignment = take (stop - start) (drop start (al_alignment av))\<rparr>
      else None)"

section \<open>The typed encoding\<close>

definition check_uint_range :: "u128 \<Rightarrow> nat \<Rightarrow> u128 run" where
  "check_uint_range n maxval =
     (let bound = (case u128_of_nat maxval of Some m \<Rightarrow> m | None \<Rightarrow> - 1) in
      if bound < n then Err (TypeError ''integer out of range for Uint'') else Ok bound)"

text \<open>\<^verbatim>\<open>length as u32\<close> keeps the low 32 bits.\<close>

definition bytes_aligned_value :: "('fr, 'ff, 'pt) fab_host \<Rightarrow> bytes \<Rightarrow> nat \<Rightarrow> aligned run" where
  "bytes_aligned_value h bs len =
     ok_or (TypeError ''bytes do not fit the alignment'') (fh_new h [bs] [SegAtom (AlBytes (of_nat len))])"

definition merkle_leaf_hash :: "('fr, 'ff, 'pt) fab_host \<Rightarrow> aligned \<Rightarrow> aligned" where
  "merkle_leaf_hash h av = fh_array h (fh_leaf_hash h av)"

definition empty_opaque :: "('fr, 'ff, 'pt) fab_host \<Rightarrow> aligned" where
  "empty_opaque h = fh_bytes h []"

definition ir_length :: "u64 \<Rightarrow> nat run" where
  "ir_length n = Ok (unat n)"

section \<open>The encoder\<close>

text \<open>
  \<^verbatim>\<open>encode_typed\<close> follows a contract type into the type of its address, which is not a part
  of it; the weight of a type counts that step.
\<close>

fun ty_weight :: "ty \<Rightarrow> nat" where
  "ty_weight (TyTuple ts) = 1 + sum_list (map ty_weight ts)"
| "ty_weight (TyStruct name fs) = 1 + sum_list (map (\<lambda>(n, t). ty_weight t) fs)"
| "ty_weight (TyVector n t) = 1 + ty_weight t"
| "ty_weight (TyAlias b name t) = 1 + ty_weight t"
| "ty_weight (TyContract name cs) = 3"
| "ty_weight t = 1"

lemma ty_weight_member: "t \<in> set ts \<Longrightarrow> ty_weight t < Suc (sum_list (map ty_weight ts))"
  by (simp add: le_imp_less_Suc member_le_sum_list)

lemma ty_weight_field:
  assumes "(n, t) \<in> set fs"
  shows "ty_weight t < Suc (\<Sum>(n, t)\<leftarrow>fs. ty_weight t)"
proof -
  from assms have "ty_weight t \<in> set (map (\<lambda>(n, t). ty_weight t) fs)" by force
  then show ?thesis by (simp add: le_imp_less_Suc member_le_sum_list)
qed

definition cannot_encode :: "interp_error" where
  "cannot_encode = TypeError ''cannot encode value as type''"

text \<open>The values of a struct in declaration order, from either spelling of it.\<close>

definition struct_values :: "(string \<times> ty) list \<Rightarrow> runtime_value \<Rightarrow> runtime_value list run" where
  "struct_values fs v =
     (let field_count = (\<lambda>n. if n = length fs then Ok () else Err (TypeError ''wrong number of fields'')) in
      case v of
        VStruct supplied \<Rightarrow>
          rbind (field_count (length supplied)) (\<lambda>_.
          traverse (\<lambda>(n, t). ok_or (TypeError ''missing field'') (map_of supplied n)) fs)
      | VTuple es \<Rightarrow> rbind (field_count (length es)) (\<lambda>_. Ok es)
      | _ \<Rightarrow> Err cannot_encode)"

function encode_typed :: "('fr, 'ff, 'pt) fab_host \<Rightarrow> runtime_value \<Rightarrow> ty \<Rightarrow> aligned run" where
  "encode_typed h v TyBoolean =
     (case v of
        VBool b \<Rightarrow> Ok (fh_bool h b)
      | VInteger n \<Rightarrow> Ok (fh_bool h (n \<noteq> 0))
      | VAligned av \<Rightarrow>
          ok_or cannot_encode (map_option (\<lambda>n. fh_bool h (n \<noteq> 0)) (aligned_atom_to_u128 h av))
      | _ \<Rightarrow> Err cannot_encode)"
| "encode_typed h v (TyUnsigned maxval) =
     rbind (ok_or cannot_encode (value_to_u128 h v)) (\<lambda>n.
     rbind (check_uint_range n maxval) (\<lambda>_.
     bytes_aligned_value h (u128_le_bytes n) (uint_byte_width maxval)))"
| "encode_typed h v (TyField f) =
     (case (foreign_of f, v) of
        (Some ff, _) \<Rightarrow> foreign_encode h ff v
      | (None, VAligned av) \<Rightarrow> Ok av
      | (None, VInteger n) \<Rightarrow> Ok (fh_fr_aligned h (fh_fr_of_u128 h n))
      | (None, _) \<Rightarrow> Err cannot_encode)"
| "encode_typed h v (TyBytes len) =
     (case v of
        VAligned av \<Rightarrow> Ok (av\<lparr>al_alignment := [SegAtom (AlBytes (ucast len))]\<rparr>)
      | VVoid \<Rightarrow> bytes_aligned_value h [] (unat len)
      | _ \<Rightarrow> Err cannot_encode)"
| "encode_typed h v (TyAlias nominal name t) = encode_typed h v t"
| "encode_typed h v (TyContract name cs) = encode_typed h v contract_address_ty"
| "encode_typed h v (TyPoint c) =
     (if c = Jubjub
      then (case v of VAligned av \<Rightarrow> Ok av | VVoid \<Rightarrow> Ok (empty_opaque h) | _ \<Rightarrow> Err cannot_encode)
      else point_encode h c v)"
| "encode_typed h v (TyOpaque name) =
     (case v of VAligned av \<Rightarrow> Ok av | VVoid \<Rightarrow> Ok (empty_opaque h) | _ \<Rightarrow> Err cannot_encode)"
| "encode_typed h v (TyTuple ts) =
     (case v of
        VAligned av \<Rightarrow> Ok av
      | VVoid \<Rightarrow> if ts = [] then Ok (fh_unit h) else Err cannot_encode
      | VTuple es \<Rightarrow>
          if length es = length ts
          then rmap (fh_concat h) (traverse (\<lambda>(t, e). encode_typed h e t) (zip ts es))
          else Err cannot_encode
      | _ \<Rightarrow> Err cannot_encode)"
| "encode_typed h v (TyVector len t) =
     (case v of
        VAligned av \<Rightarrow> Ok av
      | VTuple es \<Rightarrow>
          if length es = unat len
          then rmap (fh_concat h) (traverse (\<lambda>e. encode_typed h e t) es)
          else Err cannot_encode
      | _ \<Rightarrow> Err cannot_encode)"
| "encode_typed h v (TyStruct name fs) =
     (case v of
        VAligned av \<Rightarrow> Ok av
      | _ \<Rightarrow>
          rbind (struct_values fs v) (\<lambda>vs.
          rmap (fh_concat h)
            (traverse (\<lambda>((n, t), w). rmap_err (\<lambda>e. TypeError ''cannot encode field'') (encode_typed h w t))
               (zip fs vs))))"
| "encode_typed h v (TyAdt name as) = Err (TypeError ''non-executable type'')"
| "encode_typed h v (TyVar a) = Err (TypeError ''non-executable type'')"
| "encode_typed h v TyUnknown = Err (TypeError ''non-executable type'')"
| "encode_typed h v (TyEnum name vs) =
     (case v of
        VInteger n \<Rightarrow>
          if unat n < 256 then Ok (fh_u8 h (ucast n)) else Err (TypeError ''integer out of range for enum'')
      | VAligned av \<Rightarrow> Ok av
      | _ \<Rightarrow> Err cannot_encode)"
  by pat_completeness auto
termination
  by (relation "measure (\<lambda>(h, v, t). ty_weight t)")
    (auto simp: contract_address_ty_def dest!: set_zip_leftD ty_weight_member ty_weight_field)

text \<open>\<^verbatim>\<open>default<T>\<close>, and the value that a ledger cell holds before it is written.\<close>

function default_value :: "('fr, 'ff, 'pt) fab_host \<Rightarrow> ty \<Rightarrow> runtime_value run" where
  "default_value h TyBoolean = Ok (VBool False)"
| "default_value h (TyUnsigned n) = Ok (VInteger 0)"
| "default_value h (TyEnum name vs) = Ok (VInteger 0)"
| "default_value h (TyField f) =
     Ok (VAligned (case foreign_of f of
        Some ff \<Rightarrow> foreign_zero h ff | None \<Rightarrow> fh_fr_aligned h (fh_fr_of_u128 h 0)))"
| "default_value h (TyBytes len) =
     rbind (ir_length len) (\<lambda>n. rmap VAligned (bytes_aligned_value h [] n))"
| "default_value h (TyPoint c) = Ok (VAligned (fh_pt_aligned h c (fh_pt_default h c)))"
| "default_value h (TyOpaque name) = Ok (VAligned (empty_opaque h))"
| "default_value h (TyStruct name fs) =
     rbind (traverse (\<lambda>(n, t). default_value h t) fs) (\<lambda>ds.
     rmap VAligned (encode_typed h (VTuple ds) (TyStruct name fs)))"
| "default_value h (TyTuple ts) =
     (if ts = [] then Ok VVoid else rmap VTuple (traverse (default_value h) ts))"
| "default_value h (TyVector len t) =
     rbind (ir_length len) (\<lambda>n. rmap VTuple (traverse (\<lambda>u. default_value h t) (replicate n ())))"
| "default_value h (TyAlias nominal name t) = default_value h t"
| "default_value h (TyContract name cs) = default_value h contract_address_ty"
| "default_value h (TyAdt name as) = Err (Unsupported ''default: the type has no value'')"
| "default_value h (TyVar a) = Err (Unsupported ''default: the type has no value'')"
| "default_value h TyUnknown = Err (Unsupported ''default: the type has no value'')"
  by pat_completeness auto
termination
  by (relation "measure (\<lambda>(h, t). ty_weight t)")
    (auto simp: contract_address_ty_def dest!: ty_weight_member ty_weight_field)

text \<open>\<^verbatim>\<open>default_aligned\<close> panics on every error.\<close>

definition default_aligned :: "('fr, 'ff, 'pt) fab_host \<Rightarrow> ty \<Rightarrow> aligned run" where
  "default_aligned h t =
     (case rbind (default_value h t) (\<lambda>v. encode_typed h v t) of Ok av \<Rightarrow> Ok av | _ \<Rightarrow> Panic)"

end
