(* ===== verification/RtNatives.thy ===== *)
theory RtNatives
  imports RtTypes
begin

text \<open>
  The natives of a circuit, \<^verbatim>\<open>crates/compact/runtime/src/built_ins.rs\<close> and
  \<^verbatim>\<open>foreign/natives.rs\<close>: hashes, commitments and curve operations by name. The digests and
  the groups are those of midnight-ledger, \<open>crypto_host\<close>; what the natives do with them (the
  number of arguments, their decoding, the encoding that is hashed) is modelled.
\<close>

record ('fr, 'ff, 'pt) crypto_host =
  ch_binary_repr :: "aligned \<Rightarrow> bytes"
  ch_field_vec :: "aligned \<Rightarrow> 'fr list"
  ch_persistent_commit :: "aligned \<Rightarrow> bytes \<Rightarrow> bytes"
  ch_transient_commit :: "aligned \<Rightarrow> 'fr \<Rightarrow> 'fr"
  ch_persistent_hash :: "bytes \<Rightarrow> bytes"
  ch_keccak256 :: "bytes \<Rightarrow> bytes"
  ch_sha512 :: "bytes \<Rightarrow> bytes"
  ch_transient_hash :: "'fr list \<Rightarrow> 'fr"
  ch_degrade :: "bytes \<Rightarrow> 'fr"
  ch_upgrade :: "'fr \<Rightarrow> bytes"
  ch_hash_to_curve :: "aligned \<Rightarrow> 'pt"
  ch_ec_generator :: 'pt
  ch_ec_mul :: "'pt \<Rightarrow> 'fr \<Rightarrow> 'pt"
  ch_ec_neg :: "'pt \<Rightarrow> 'pt"
  ch_ec_new :: "'fr \<Rightarrow> 'fr \<Rightarrow> 'pt option"
  ch_ec_x :: "'pt \<Rightarrow> 'fr option"
  ch_ec_y :: "'pt \<Rightarrow> 'fr option"
  ch_group_add :: "curve \<Rightarrow> 'pt \<Rightarrow> 'pt \<Rightarrow> 'pt"
  ch_group_mul :: "curve \<Rightarrow> 'pt \<Rightarrow> 'ff \<Rightarrow> 'pt"
  ch_group_generator :: "curve \<Rightarrow> 'pt"
  ch_coordinates :: "curve \<Rightarrow> 'pt \<Rightarrow> ('ff \<times> 'ff) option"
  ch_ff_neg :: "foreign_field \<Rightarrow> 'ff \<Rightarrow> 'ff"
  ch_ff_inv :: "foreign_field \<Rightarrow> 'ff \<Rightarrow> 'ff option"

section \<open>Natives of the foreign curves\<close>

definition unary_arg :: "runtime_value list \<Rightarrow> runtime_value run" where
  "unary_arg args = (case args of [x] \<Rightarrow> Ok x | _ \<Rightarrow> Err (TypeError ''expects 1 argument''))"

definition binary_args :: "runtime_value list \<Rightarrow> (runtime_value \<times> runtime_value) run" where
  "binary_args args = (case args of [a, b] \<Rightarrow> Ok (a, b) | _ \<Rightarrow> Err (TypeError ''expects 2 arguments''))"

definition point_decode :: "('fr, 'ff, 'pt) fab_host \<Rightarrow> curve \<Rightarrow> runtime_value \<Rightarrow> 'pt run" where
  "point_decode h c v =
     (case v of
        VAligned av \<Rightarrow> ok_or (TypeError ''expected a point'') (fh_pt_try h c (al_value av))
      | _ \<Rightarrow> Err (TypeError ''expected a point''))"

definition native_neg ::
  "('fr, 'ff, 'pt) fab_host \<Rightarrow> ('fr, 'ff, 'pt) crypto_host \<Rightarrow> foreign_field \<Rightarrow> runtime_value list \<Rightarrow> aligned run" where
  "native_neg h k f args =
     rbind (unary_arg args) (\<lambda>v. rbind (foreign_decode h f v) (\<lambda>x. Ok (fh_ff_aligned h f (ch_ff_neg k f x))))"

definition native_inv ::
  "('fr, 'ff, 'pt) fab_host \<Rightarrow> ('fr, 'ff, 'pt) crypto_host \<Rightarrow> foreign_field \<Rightarrow> runtime_value list \<Rightarrow> aligned run" where
  "native_inv h k f args =
     rbind (unary_arg args) (\<lambda>v.
     rbind (foreign_decode h f v) (\<lambda>x.
     rbind (ok_or (TypeError ''no inverse for 0'') (ch_ff_inv k f x)) (\<lambda>y. Ok (fh_ff_aligned h f y))))"

definition native_coordinates ::
  "('fr, 'ff, 'pt) fab_host \<Rightarrow> ('fr, 'ff, 'pt) crypto_host \<Rightarrow> curve \<Rightarrow> runtime_value list \<Rightarrow> ('ff \<times> 'ff) run" where
  "native_coordinates h k c args =
     rbind (unary_arg args) (\<lambda>v.
     rbind (point_decode h c v) (\<lambda>p. ok_or (TypeError ''coordinate of the identity point'') (ch_coordinates k c p)))"


definition curve_native ::
  "('fr, 'ff, 'pt) fab_host \<Rightarrow> ('fr, 'ff, 'pt) crypto_host \<Rightarrow> curve \<Rightarrow> foreign_field \<Rightarrow> foreign_field \<Rightarrow>
   string \<Rightarrow> runtime_value list \<Rightarrow> aligned run option" where
  "curve_native h k c base scalar op args =
     (let point = (\<lambda>p. Ok (fh_pt_aligned h c p)) in
      if op = ''BaseNeg'' then Some (native_neg h k base args)
      else if op = ''ScalarNeg'' then Some (native_neg h k scalar args)
      else if op = ''BaseInv'' then Some (native_inv h k base args)
      else if op = ''ScalarInv'' then Some (native_inv h k scalar args)
      else if op = ''PointX'' then
        Some (rmap (\<lambda>(x, y). fh_ff_aligned h base x) (native_coordinates h k c args))
      else if op = ''PointY'' then
        Some (rmap (\<lambda>(x, y). fh_ff_aligned h base y) (native_coordinates h k c args))
      else if op = ''Add'' then
        Some (rbind (binary_args args) (\<lambda>(a, b).
          rbind (point_decode h c a) (\<lambda>p. rbind (point_decode h c b) (\<lambda>q. point (ch_group_add k c p q)))))
      else if op = ''Mul'' then
        Some (rbind (binary_args args) (\<lambda>(a, b).
          rbind (point_decode h c a) (\<lambda>p. rbind (foreign_decode h scalar b) (\<lambda>s. point (ch_group_mul k c p s)))))
      else if op = ''MulGenerator'' then
        Some (rbind (unary_arg args) (\<lambda>b.
          rbind (foreign_decode h scalar b) (\<lambda>s. point (ch_group_mul k c (ch_group_generator k c) s))))
      else None)"

definition foreign_native ::
  "('fr, 'ff, 'pt) fab_host \<Rightarrow> ('fr, 'ff, 'pt) crypto_host \<Rightarrow> string \<Rightarrow> runtime_value list \<Rightarrow> aligned run option" where
  "foreign_native h k name args =
     (case strip_prefix ''secp256k1'' name of
        Some op \<Rightarrow> curve_native h k Secp256k1 Secp256k1Base Secp256k1Scalar op args
      | None \<Rightarrow>
     (case strip_prefix ''secp256r1'' name of
        Some op \<Rightarrow> curve_native h k Secp256r1 Secp256r1Base Secp256r1Scalar op args
      | None \<Rightarrow>
     (case strip_prefix ''curve25519'' name of
        Some op \<Rightarrow> curve_native h k Curve25519 Curve25519Base Curve25519Scalar op args
      | None \<Rightarrow> None)))"

section \<open>Builtins\<close>

definition encode_argument ::
  "('fr, 'ff, 'pt) fab_host \<Rightarrow> ty list \<Rightarrow> nat \<Rightarrow> runtime_value \<Rightarrow> aligned run" where
  "encode_argument h tys i v =
     (case nth_option tys i of Some t \<Rightarrow> encode_typed h v t | None \<Rightarrow> try_to_aligned_value h v)"

text \<open>The pairs of an index and an argument, as \<^verbatim>\<open>enumerate\<close> gives them.\<close>

definition enumerated :: "'a list \<Rightarrow> (nat \<times> 'a) list" where
  "enumerated xs = zip [0..<length xs] xs"

definition hash_preimage ::
  "('fr, 'ff, 'pt) fab_host \<Rightarrow> ('fr, 'ff, 'pt) crypto_host \<Rightarrow> runtime_value list \<Rightarrow> ty list \<Rightarrow> bytes run" where
  "hash_preimage h k args tys =
     rmap (\<lambda>avs. concat (map (ch_binary_repr k) avs))
       (traverse (\<lambda>(i, v).
          case (v, nth_option tys i) of
            (VInteger n, None) \<Rightarrow> encode_typed h v (TyField FNative)
          | _ \<Rightarrow> encode_argument h tys i v) (enumerated args))"

definition native_arg :: "runtime_value list \<Rightarrow> nat \<Rightarrow> runtime_value run" where
  "native_arg args i = ok_or (TypeError ''missing argument'') (nth_option args i)"

definition field_arg :: "('fr, 'ff, 'pt) fab_host \<Rightarrow> runtime_value list \<Rightarrow> nat \<Rightarrow> 'fr run" where
  "field_arg h args i =
     rbind (native_arg args i) (\<lambda>v. ok_or (TypeError ''argument is not a Field'') (value_to_fr h v))"

definition point_arg :: "('fr, 'ff, 'pt) fab_host \<Rightarrow> runtime_value list \<Rightarrow> nat \<Rightarrow> 'pt run" where
  "point_arg h args i =
     rbind (native_arg args i) (\<lambda>v.
       ok_or (TypeError ''argument is not a JubjubPoint'') (value_to_embedded_group h v))"

definition hash_arg :: "('fr, 'ff, 'pt) fab_host \<Rightarrow> runtime_value list \<Rightarrow> nat \<Rightarrow> bytes run" where
  "hash_arg h args i =
     rbind (native_arg args i) (\<lambda>v.
       rmap_err (\<lambda>e. TypeError ''argument is not a Bytes<32>'') (value_to_hash_output h v))"

definition arity :: "runtime_value list \<Rightarrow> nat \<Rightarrow> unit run" where
  "arity args n = (if length args \<noteq> n then Err (TypeError ''wrong number of arguments'') else Ok ())"

definition builtin_value ::
  "('fr, 'ff, 'pt) fab_host \<Rightarrow> ('fr, 'ff, 'pt) crypto_host \<Rightarrow> string \<Rightarrow> runtime_value list \<Rightarrow> ty list \<Rightarrow>
   aligned run option" where
  "builtin_value h k name args tys =
     (let point = (\<lambda>p. Ok (fh_pt_aligned h Jubjub p)); field = (\<lambda>x. Ok (fh_fr_aligned h x)) in
      if name = ''persistentCommit'' then
        Some (rbind (native_arg args 0) (\<lambda>v.
          rbind (hash_arg h args 1) (\<lambda>opening.
          rbind (encode_argument h tys 0 v) (\<lambda>av. Ok (fh_array h (ch_persistent_commit k av opening))))))
      else if name = ''transientCommit'' then
        Some (rbind (native_arg args 0) (\<lambda>v.
          rbind (field_arg h args 1) (\<lambda>opening.
          rbind (encode_argument h tys 0 v) (\<lambda>av. field (ch_transient_commit k av opening)))))
      else if name = ''persistentHash'' then
        Some (rmap (\<lambda>p. fh_array h (ch_persistent_hash k p)) (hash_preimage h k args tys))
      else if name = ''keccak256'' then
        Some (rmap (\<lambda>p. fh_array h (ch_keccak256 k p)) (hash_preimage h k args tys))
      else if name = ''sha512'' then
        Some (rmap (\<lambda>p. fh_array h (ch_sha512 k p)) (hash_preimage h k args tys))
      else if name = ''ecMulGenerator'' then
        Some (rbind (field_arg h args 0) (\<lambda>s. point (ch_ec_mul k (ch_ec_generator k) s)))
      else if name = ''ecMul'' then
        Some (rbind (arity args 2) (\<lambda>_. rbind (point_arg h args 0) (\<lambda>p.
          rbind (field_arg h args 1) (\<lambda>s. point (ch_ec_mul k p s)))))
      else if name = ''ecAdd'' then
        Some (rbind (arity args 2) (\<lambda>_. rbind (point_arg h args 0) (\<lambda>p.
          rbind (point_arg h args 1) (\<lambda>q. point (ch_group_add k Jubjub p q)))))
      else if name = ''ecNeg'' then
        Some (rbind (point_arg h args 0) (\<lambda>p. point (ch_ec_neg k p)))
      else if name = ''hashToCurve'' then
        Some (rbind (native_arg args 0) (\<lambda>v.
          rbind (encode_argument h tys 0 v) (\<lambda>av. point (ch_hash_to_curve k av))))
      else if name = ''jubjubPointX'' then
        Some (rbind (point_arg h args 0) (\<lambda>p.
          field (case ch_ec_x k p of Some x \<Rightarrow> x | None \<Rightarrow> fh_fr_of_u128 h 0)))
      else if name = ''jubjubPointY'' then
        Some (rbind (point_arg h args 0) (\<lambda>p.
          field (case ch_ec_y k p of Some y \<Rightarrow> y | None \<Rightarrow> fh_fr_of_u128 h 0)))
      else if name = ''constructJubjubPoint'' then
        Some (rbind (arity args 2) (\<lambda>_. rbind (field_arg h args 0) (\<lambda>x. rbind (field_arg h args 1) (\<lambda>y.
          rbind (ok_or (TypeError ''not on the embedded curve'') (ch_ec_new k x y)) point))))
      else if name = ''transientHash'' then
        Some (rmap (\<lambda>avs. fh_fr_aligned h (ch_transient_hash k (concat (map (ch_field_vec k) avs))))
          (traverse (\<lambda>(i, v). encode_argument h tys i v) (enumerated args)))
      else if name = ''degradeToTransient'' then
        Some (rbind (hash_arg h args 0) (\<lambda>b. field (ch_degrade k b)))
      else if name = ''upgradeFromTransient'' then
        Some (rbind (field_arg h args 0) (\<lambda>x. Ok (fh_array h (ch_upgrade k x))))
      else foreign_native h k name args)"

definition try_builtin_typed ::
  "('fr, 'ff, 'pt) fab_host \<Rightarrow> ('fr, 'ff, 'pt) crypto_host \<Rightarrow> string \<Rightarrow> runtime_value list \<Rightarrow> ty list \<Rightarrow>
   runtime_value run option" where
  "try_builtin_typed h k name args tys = map_option (rmap VAligned) (builtin_value h k name args tys)"

section \<open>Witnesses\<close>

datatype witness_native = OwnPublicKey | CreateZswapInput | CreateZswapOutput

definition witness_native_from_name :: "string \<Rightarrow> witness_native option" where
  "witness_native_from_name name =
     (if name = ''ownPublicKey'' then Some OwnPublicKey
      else if name = ''createZswapInput'' then Some CreateZswapInput
      else if name = ''createZswapOutput'' then Some CreateZswapOutput
      else None)"

text \<open>
  \<^verbatim>\<open>WitnessOutcome\<close> is an optional value. A provider is a function of the private state, the
  name and the arguments; it fails with an error or answers, and leaves a private state in both cases.
\<close>

type_synonym witness_provider =
  "bytes \<Rightarrow> string \<Rightarrow> runtime_value list \<Rightarrow> (interp_error + runtime_value option) \<times> bytes"

definition no_witnesses :: witness_provider where
  "no_witnesses st name args = (Inr None, st)"

end
