(* ===== verification/RtEncode.thy ===== *)
theory RtEncode
  imports RtTypes
begin

text \<open>
  What the encoder promises: the bytes of an integer, the widths of encoded values and the
  fields that a slice of an encoded struct gives, and the defaults of the types that the
  artifact loader lets through.
\<close>

section \<open>The laws of the host\<close>

definition trim_zeros :: "bytes \<Rightarrow> bytes" where
  "trim_zeros bs = rev (dropWhile (\<lambda>b. b = 0) (rev bs))"

definition lined_up :: "aligned \<Rightarrow> nat \<Rightarrow> bool" where
  "lined_up av n \<longleftrightarrow>
     length (al_value av) = n \<and> length (al_alignment av) = n \<and> list_all is_atom (al_alignment av)"

text \<open>
  The documented behaviour of \<^verbatim>\<open>midnight_base_crypto::fab\<close> that the encoder relies on: a
  concatenation is that of the atoms and of the alignments, a scalar is one atom, an aligned
  value of bytes is built when the bytes without trailing zeros fit the alignment, and an
  element or a point is aligned as its type says and decodes to itself.
\<close>

definition fab_laws :: "('fr, 'ff, 'pt) fab_host \<Rightarrow> bool" where
  "fab_laws h \<longleftrightarrow>
     (\<forall>avs. fh_concat h avs =
        \<lparr>al_value = concat (map al_value avs), al_alignment = concat (map al_alignment avs)\<rparr>) \<and>
     (\<forall>b. lined_up (fh_bool h b) 1) \<and> (\<forall>n. lined_up (fh_u8 h n) 1) \<and>
     lined_up (fh_unit h) 0 \<and> (\<forall>bs. lined_up (fh_bytes h bs) 1) \<and> (\<forall>x. lined_up (fh_fr_aligned h x) 1) \<and>
     (\<forall>bs n. fh_new h [bs] [SegAtom (AlBytes n)] =
        (if length (trim_zeros bs) \<le> unat n
         then Some \<lparr>al_value = [trim_zeros bs], al_alignment = [SegAtom (AlBytes n)]\<rparr> else None)) \<and>
     (\<forall>f x. lined_up (fh_ff_aligned h f x) (length (field_alignment f)) \<and>
        fh_ff_try h f (al_value (fh_ff_aligned h f x)) = Some x) \<and>
     (\<forall>c p. lined_up (fh_pt_aligned h c p) (length (point_alignment c)) \<and>
        fh_pt_try h c (al_value (fh_pt_aligned h c p)) = Some p)"

lemma fab_lawsD:
  assumes "fab_laws h"
  shows "fh_concat h avs =
      \<lparr>al_value = concat (map al_value avs), al_alignment = concat (map al_alignment avs)\<rparr>"
    and "lined_up (fh_bool h b) 1" "lined_up (fh_u8 h n) 1" "lined_up (fh_unit h) 0"
    and "lined_up (fh_bytes h bs) 1" "lined_up (fh_fr_aligned h x) 1"
    and "fh_new h [bs] [SegAtom (AlBytes m)] =
        (if length (trim_zeros bs) \<le> unat m
         then Some \<lparr>al_value = [trim_zeros bs], al_alignment = [SegAtom (AlBytes m)]\<rparr> else None)"
    and "lined_up (fh_ff_aligned h f e) (length (field_alignment f))"
    and "fh_ff_try h f (al_value (fh_ff_aligned h f e)) = Some e"
    and "lined_up (fh_pt_aligned h c p) (length (point_alignment c))"
    and "fh_pt_try h c (al_value (fh_pt_aligned h c p)) = Some p"
  using assms unfolding fab_laws_def by blast+

section \<open>The bytes of an integer\<close>

lemma nat_le_bytes_length [simp]: "length (nat_le_bytes k n) = k"
  by (induction k arbitrary: n) auto

lemma nat_of_le_bytes: "nat_of_le (nat_le_bytes k n) = n mod 256 ^ k"
proof (induction k arbitrary: n)
  case (Suc k)
  have "n mod (256 * 256 ^ k) = 256 * (n div 256 mod 256 ^ k) + n mod 256"
    by (rule mod_mult2_eq)
  with Suc show ?case by (simp add: unat_of_nat)
qed simp

lemma take_le_bytes: "j \<le> k \<Longrightarrow> take j (nat_le_bytes k n) = nat_le_bytes j n"
proof (induction k arbitrary: j n)
  case (Suc k)
  then show ?case by (cases j) auto
qed simp

lemma nat_le_bytes_zero: "nat_le_bytes k 0 = replicate k 0"
  by (induction k) auto

lemma nat_le_bytes_split: "nat_le_bytes (j + k) n = nat_le_bytes j n @ nat_le_bytes k (n div 256 ^ j)"
  by (induction j arbitrary: n) (auto simp: div_mult2_eq)

lemma trim_replicate: "trim_zeros (bs @ replicate k 0) = trim_zeros bs"
  unfolding trim_zeros_def rev_append rev_replicate by (subst dropWhile_append2) auto

lemma trim_length: "length (trim_zeros bs) \<le> length bs"
  unfolding trim_zeros_def by (metis length_dropWhile_le length_rev)

lemma trim_fits:
  assumes "n < 256 ^ j" shows "length (trim_zeros (nat_le_bytes k n)) \<le> j"
proof (cases "j \<le> k")
  case True
  then have "nat_le_bytes k n = nat_le_bytes j n @ nat_le_bytes (k - j) (n div 256 ^ j)"
    using nat_le_bytes_split [of j "k - j" n] by simp
  also have "n div 256 ^ j = 0" using assms by simp
  finally have "trim_zeros (nat_le_bytes k n) = trim_zeros (nat_le_bytes j n)"
    by (simp add: nat_le_bytes_zero trim_replicate)
  then show ?thesis using trim_length [of "nat_le_bytes j n"] by simp
next
  case False
  then show ?thesis using trim_length [of "nat_le_bytes k n"] by simp
qed

lemma nat_of_le_append: "nat_of_le (xs @ ys) = nat_of_le xs + 256 ^ length xs * nat_of_le ys"
  by (induction xs) (auto simp: algebra_simps)

lemma nat_of_le_zeros: "nat_of_le (replicate k 0) = 0"
  by (induction k) auto

lemma nat_of_le_trim [simp]: "nat_of_le (trim_zeros bs) = nat_of_le bs"
proof -
  have "bs = trim_zeros bs @ rev (takeWhile (\<lambda>b. b = 0) (rev bs))"
    unfolding trim_zeros_def by (metis rev_append rev_rev_ident takeWhile_dropWhile_id)
  moreover have "takeWhile (\<lambda>b. b = 0) (rev bs) = replicate (length (takeWhile (\<lambda>b. b = 0) (rev bs))) 0"
    by (metis (mono_tags, lifting) replicate_length_same set_takeWhileD)
  ultimately have "nat_of_le bs = nat_of_le (trim_zeros bs @ replicate (length (takeWhile (\<lambda>b. b = 0) (rev bs))) 0)"
    by (metis rev_replicate)
  then show ?thesis by (simp add: nat_of_le_append nat_of_le_zeros)
qed

lemma unat_128: "unat (n :: u128) < 2 ^ 128"
proof -
  have "unat n < 2 ^ LENGTH(128)" by (rule unsigned_less)
  then show ?thesis by simp
qed

lemma u128_le_bytes_nat [simp]: "nat_of_le (u128_le_bytes n) = unat n"
  using unat_128 [of n] by (simp add: u128_le_bytes_def nat_of_le_bytes)

text \<open>The bound saturates, and no \<^verbatim>\<open>u128\<close> exceeds a saturated bound.\<close>

lemma check_uint_range_eq:
  "check_uint_range n m =
     (if unat n \<le> m then Ok (if m < 2 ^ 128 then of_nat m else - 1)
      else Err (TypeError ''integer out of range for Uint''))"
proof (cases "m < 2 ^ 128")
  case True
  then have "((of_nat m :: u128) < n) = (m < unat n)"
    by (simp add: word_less_nat_alt unat_of_nat take_bit_nat_eq_self)
  with True show ?thesis by (simp add: check_uint_range_def u128_of_nat_def)
next
  case False
  then have "unat n \<le> m" using unat_128 [of n] by simp
  moreover have "\<not> (- 1 < n)" by (simp add: linorder_not_less)
  ultimately show ?thesis using False by (simp add: check_uint_range_def u128_of_nat_def)
qed

section \<open>The widths of encoded values\<close>

text \<open>
  A flat value passes through the encoder as it is, so only the atoms that it already has can
  be sliced: a value has the shape of a type when every flat value in it, at the type where
  the encoder meets it, has as many atoms as the type.
\<close>

definition flat_shape :: "aligned \<Rightarrow> ty \<Rightarrow> bool" where
  "flat_shape av t \<longleftrightarrow> (case atom_count_for_type t of Some n \<Rightarrow> lined_up av n | None \<Rightarrow> False)"

function shaped :: "runtime_value \<Rightarrow> ty \<Rightarrow> bool" where
  "shaped v (TyAlias nominal name t) = shaped v t"
| "shaped v (TyTuple ts) =
     (case v of VAligned av \<Rightarrow> flat_shape av (TyTuple ts)
      | VTuple es \<Rightarrow> list_all (\<lambda>(t, e). shaped e t) (zip ts es) | _ \<Rightarrow> True)"
| "shaped v (TyVector n t) =
     (case v of VAligned av \<Rightarrow> flat_shape av (TyVector n t)
      | VTuple es \<Rightarrow> list_all (\<lambda>e. shaped e t) es | _ \<Rightarrow> True)"
| "shaped v (TyStruct name fs) =
     (case v of VAligned av \<Rightarrow> flat_shape av (TyStruct name fs)
      | VTuple es \<Rightarrow> list_all (\<lambda>((n, t), e). shaped e t) (zip fs es)
      | VStruct vs \<Rightarrow> list_all (\<lambda>(n, t). case map_of vs n of Some e \<Rightarrow> shaped e t | None \<Rightarrow> True) fs
      | _ \<Rightarrow> True)"
| "shaped v (TyOpaque name) =
     (case v of VAligned av \<Rightarrow> flat_shape av (TyOpaque name) | _ \<Rightarrow> name \<noteq> ''JubjubPoint'')"
| "shaped v (TyPoint c) =
     (case v of VAligned av \<Rightarrow> c = Jubjub \<longrightarrow> flat_shape av (TyPoint c) | _ \<Rightarrow> c \<noteq> Jubjub)"
| "shaped v (TyField f) = (case v of VAligned av \<Rightarrow> foreign_of f = None \<longrightarrow> flat_shape av (TyField f) | _ \<Rightarrow> True)"
| "shaped v (TyBytes n) = (case v of VAligned av \<Rightarrow> length (al_value av) = 1 | _ \<Rightarrow> True)"
| "shaped v (TyEnum name vs) = (case v of VAligned av \<Rightarrow> flat_shape av (TyEnum name vs) | _ \<Rightarrow> True)"
| "shaped v (TyContract name cs) = shaped v contract_address_ty"
| "shaped v TyBoolean = True"
| "shaped v (TyUnsigned n) = True"
| "shaped v (TyAdt name as) = True"
| "shaped v (TyVar a) = True"
| "shaped v TyUnknown = True"
  by pat_completeness auto
termination
  by (relation "measure (\<lambda>(v, t). ty_weight t)")
    (auto simp: contract_address_ty_def dest!: set_zip_leftD ty_weight_member ty_weight_field)

definition width_ok :: "aligned \<Rightarrow> ty \<Rightarrow> bool" where
  "width_ok av t \<longleftrightarrow> (\<forall>n. atom_count_for_type t = Some n \<longrightarrow> lined_up av n)"

lemma flat_shape_width: "flat_shape av t \<Longrightarrow> width_ok av t"
  by (auto simp: flat_shape_def width_ok_def split: option.splits)

lemma lined_up_concat:
  assumes "fab_laws h" "list_all2 lined_up avs ns"
  shows "lined_up (fh_concat h avs) (sum_list ns)"
  using assms(2) unfolding fab_lawsD(1) [OF assms(1)]
  by (induction rule: list_all2_induct) (auto simp: lined_up_def)

lemma checked_sum_Some:
  "checked_sum cs acc = Some n \<Longrightarrow> \<exists>ns. cs = map Some ns \<and> n = acc + sum_list ns"
proof (induction cs arbitrary: acc)
  case (Cons c cs)
  then obtain k t where c: "c = Some k" and t: "t = acc + k" and cs: "checked_sum cs t = Some n"
    by (auto simp: usize_checked_def split: option.splits if_splits)
  from Cons.IH [OF cs] obtain ns where "cs = map Some ns" "n = t + sum_list ns" by blast
  with c t show ?case by (intro exI [of _ "k # ns"]) simp
qed simp

lemma concat_width:
  assumes "fab_laws h" "list_all2 (\<lambda>av t. width_ok av t) avs ts" "checked_sum (map atom_count_for_type ts) 0 = Some n"
  shows "lined_up (fh_concat h avs) n"
proof -
  from checked_sum_Some [OF assms(3)] obtain ns where ns: "map atom_count_for_type ts = map Some ns" "n = sum_list ns"
    by auto
  have "list_all2 lined_up avs ns"
    using assms(2) ns(1)
  proof (induction avs ts arbitrary: ns rule: list_all2_induct)
    case (Cons av avs t ts)
    then show ?case by (cases ns) (auto simp: width_ok_def)
  qed simp
  with lined_up_concat [OF assms(1)] ns(2) show ?thesis by blast
qed

lemma bytes_aligned_width: "fab_laws h \<Longrightarrow> bytes_aligned_value h bs n = Ok av \<Longrightarrow> lined_up av 1"
  by (auto simp: bytes_aligned_value_def fab_lawsD(7) lined_up_def split: if_splits)

lemma struct_values_length: "struct_values fs v = Ok vs \<Longrightarrow> length vs = length fs"
  by (auto simp: struct_values_def Let_def traverse_Ok_iff dest: list_all2_lengthD
      split: runtime_value.splits if_splits)

lemma struct_values_shaped:
  assumes "struct_values fs v = Ok vs" "shaped v (TyStruct name fs)"
  shows "list_all (\<lambda>((n, t), e). shaped e t) (zip fs vs)"
proof (cases v)
  case (VStruct supplied)
  with assms have look: "list_all2 (\<lambda>f e. map_of supplied (fst f) = Some e) fs vs"
    by (auto simp: struct_values_def Let_def traverse_Ok_iff case_prod_beta split: if_splits)
  have "list_all (\<lambda>(n, t). case map_of supplied n of Some e \<Rightarrow> shaped e t | None \<Rightarrow> True) fs"
    using assms(2) VStruct by simp
  with look show ?thesis
    by (induction rule: list_all2_induct) (auto split: prod.splits)
next
  case (VTuple es)
  with assms show ?thesis by (auto simp: struct_values_def Let_def split: if_splits)
qed (use assms in \<open>simp_all add: struct_values_def Let_def\<close>)

lemma traverse_zip_width:
  assumes "traverse f (zip ts es) = Ok avs" "length es = length ts"
    and "\<And>t e av. (t, e) \<in> set (zip ts es) \<Longrightarrow> f (t, e) = Ok av \<Longrightarrow> width_ok av (g t)"
  shows "list_all2 (\<lambda>av t. width_ok av t) avs (map g ts)"
  using assms
proof (induction ts arbitrary: es avs)
  case (Cons t ts)
  then obtain e es' where es: "es = e # es'" by (cases es) auto
  with Cons.prems obtain av avs' where av: "f (t, e) = Ok av" "traverse f (zip ts es') = Ok avs'" "avs = av # avs'"
    by auto
  have "list_all2 (\<lambda>av t. width_ok av t) avs' (map g ts)"
    by (rule Cons.IH) (use Cons.prems es av in auto)
  moreover have "width_ok av (g t)" by (rule Cons.prems(3) [OF _ av(1)]) (simp add: es)
  ultimately show ?case using av(3) by simp
qed simp

text \<open>The types of less weight than a bound encode at their width.\<close>

definition widths_below :: "('fr, 'ff, 'pt) fab_host \<Rightarrow> nat \<Rightarrow> bool" where
  "widths_below h k \<longleftrightarrow>
     (\<forall>t v av. ty_weight t < k \<longrightarrow> shaped v t \<longrightarrow> encode_typed h v t = Ok av \<longrightarrow> width_ok av t)"

lemma widths_belowD:
  "widths_below h k \<Longrightarrow> ty_weight t < k \<Longrightarrow> shaped v t \<Longrightarrow> encode_typed h v t = Ok av \<Longrightarrow> width_ok av t"
  by (auto simp: widths_below_def)

lemma tuple_width:
  assumes laws: "fab_laws h" and IH: "widths_below h (ty_weight (TyTuple ts))"
    and "shaped v (TyTuple ts)" "encode_typed h v (TyTuple ts) = Ok av"
  shows "width_ok av (TyTuple ts)"
proof (cases v)
  case (VTuple es)
  with assms obtain avs where len: "length es = length ts"
    and avs: "traverse (\<lambda>(t, e). encode_typed h e t) (zip ts es) = Ok avs" and av: "av = fh_concat h avs"
    by (auto split: if_splits)
  have "list_all2 (\<lambda>av t. width_ok av t) avs (map (\<lambda>t. t) ts)"
  proof (rule traverse_zip_width [OF avs len])
    fix u e w
    assume ue: "(u, e) \<in> set (zip ts es)" "(case (u, e) of (t, e) \<Rightarrow> encode_typed h e t) = Ok w"
    then have "ty_weight u < ty_weight (TyTuple ts)" using ty_weight_member by (auto dest: set_zip_leftD)
    moreover have "shaped e u" using assms(3) VTuple ue by (auto simp: list_all_iff)
    ultimately show "width_ok w u" using widths_belowD [OF IH] ue by auto
  qed
  with concat_width [OF laws, of avs ts] av show ?thesis by (auto simp: width_ok_def)
qed (use assms fab_lawsD(4) [OF laws] in \<open>auto simp: flat_shape_def width_ok_def split: if_splits option.splits\<close>)

lemma struct_width:
  assumes laws: "fab_laws h" and IH: "widths_below h (ty_weight (TyStruct name fs))"
    and vs: "struct_values fs v = Ok vs" and shaped: "shaped v (TyStruct name fs)"
    and avs: "traverse (\<lambda>((n, t), w). rmap_err (\<lambda>e. TypeError ''cannot encode field'') (encode_typed h w t))
      (zip fs vs) = Ok avs"
  shows "list_all2 (\<lambda>av t. width_ok av t) avs (map snd fs)"
proof -
  define F where "F = (\<lambda>((n :: string, t), w). rmap_err (\<lambda>e. TypeError ''cannot encode field'') (encode_typed h w t))"
  have avs': "traverse F (zip fs vs) = Ok avs" using avs by (simp add: F_def)
  show ?thesis
  proof (rule traverse_zip_width [OF avs' struct_values_length [OF vs]])
  fix f e w
  assume fe: "(f, e) \<in> set (zip fs vs)" "F (f, e) = Ok w"
  obtain n u where f: "f = (n, u)" by fastforce
  with fe have "(n, u) \<in> set fs" by (auto dest: set_zip_leftD)
  then have "ty_weight u < ty_weight (TyStruct name fs)" using ty_weight_field by auto
  moreover have "shaped e u" using struct_values_shaped [OF vs shaped] fe f by (auto simp: list_all_iff)
  ultimately show "width_ok w (snd f)" using widths_belowD [OF IH] fe f by (auto simp: F_def)
  qed
qed

lemma struct_encoding:
  assumes "encode_typed h v (TyStruct name fs) = Ok av" "\<nexists>a. v = VAligned a"
  obtains vs avs where "struct_values fs v = Ok vs"
    "traverse (\<lambda>((n, t), w). rmap_err (\<lambda>e. TypeError ''cannot encode field'') (encode_typed h w t)) (zip fs vs) = Ok avs"
    "av = fh_concat h avs"
  using assms by (auto split: runtime_value.splits)

lemma struct_count: "atom_count_for_type (TyStruct name fs) = checked_sum (map atom_count_for_type (map snd fs)) 0"
proof -
  have "map (\<lambda>(n, t). atom_count_for_type t) fs = map atom_count_for_type (map snd fs)" by (induction fs) auto
  then show ?thesis by (simp only: atom_count_for_type.simps)
qed

lemma vector_width:
  assumes laws: "fab_laws h" and IH: "widths_below h (ty_weight (TyVector n u))"
    and "shaped v (TyVector n u)" "encode_typed h v (TyVector n u) = Ok av"
  shows "width_ok av (TyVector n u)"
proof (cases v)
  case (VTuple es)
  with assms obtain avs where len: "length es = unat n"
    and avs: "traverse (\<lambda>e. encode_typed h e u) es = Ok avs" and av: "av = fh_concat h avs"
    by (auto split: if_splits)
  have "list_all2 (\<lambda>e a. encode_typed h e u = Ok a) es avs" using avs by (simp add: traverse_Ok_iff)
  moreover have "list_all (\<lambda>e. shaped e u) es" using assms(3) VTuple by simp
  moreover have "width_ok a u" if "shaped e u" "encode_typed h e u = Ok a" for e a
    by (rule widths_belowD [OF IH _ that]) simp
  ultimately have ok: "list_all (\<lambda>a. width_ok a u) avs"
    by (induction rule: list_all2_induct) auto
  have "lined_up av (k * unat n)" if "atom_count_for_type u = Some k" for k
  proof -
    have "list_all2 lined_up avs (replicate (length avs) k)"
      using ok that by (induction avs) (auto simp: width_ok_def)
    then have "lined_up av (sum_list (replicate (length avs) k))" unfolding av by (rule lined_up_concat [OF laws])
    moreover have "length avs = unat n" using len traverse_Ok_length [OF avs] by simp
    ultimately show ?thesis by (simp add: sum_list_replicate mult.commute)
  qed
  then show ?thesis by (auto simp: width_ok_def usize_checked_def split: option.splits if_splits)
qed (use assms in \<open>auto simp: flat_shape_width\<close>)

lemma encoded_width:
  assumes laws: "fab_laws h"
  shows "shaped v t \<Longrightarrow> encode_typed h v t = Ok av \<Longrightarrow> width_ok av t"
proof (induction t arbitrary: v av rule: measure_induct_rule [of ty_weight])
  case (less t)
  note L = fab_lawsD [OF laws]
  have IH: "widths_below h (ty_weight t)" using less.IH by (auto simp: widths_below_def)
  show ?case
  proof (cases t)
    case (TyTuple ts)
    with less.prems IH tuple_width [OF laws] show ?thesis by blast
  next
    case (TyVector n u)
    with less.prems IH vector_width [OF laws] show ?thesis by blast
  next
    case (TyStruct name fs)
    show ?thesis
    proof (cases "\<exists>a. v = VAligned a")
      case False
      with less.prems(2) TyStruct obtain vs avs where enc: "struct_values fs v = Ok vs"
        "traverse (\<lambda>((n, t), w). rmap_err (\<lambda>e. TypeError ''cannot encode field'') (encode_typed h w t)) (zip fs vs) = Ok avs"
        and av: "av = fh_concat h avs"
        using struct_encoding by blast
      have "list_all2 (\<lambda>av t. width_ok av t) avs (map snd fs)"
        by (rule struct_width [OF laws _ enc(1) _ enc(2)]) (use IH less.prems(1) TyStruct in blast)+
      then show ?thesis
        unfolding TyStruct av by (simp only: width_ok_def struct_count) (blast intro: concat_width [OF laws, unfolded width_ok_def])
    qed (use less.prems TyStruct in \<open>auto simp: flat_shape_width\<close>)
  next
    case (TyField f)
    with less.prems L(6,8) show ?thesis
      by (auto simp: width_ok_def flat_shape_width foreign_encode_def lined_up_def flat_shape_def
          split: option.splits runtime_value.splits prod.splits)
  next
    case (TyPoint c)
    with less.prems L(5,10) show ?thesis
      by (auto simp: point_encode_def flat_shape_def width_ok_def split: runtime_value.splits if_splits)
  next
    case (TyOpaque name)
    with less.prems L(5) show ?thesis
      by (auto simp: empty_opaque_def flat_shape_def width_ok_def split: runtime_value.splits)
  next
    case (TyAlias nominal name u)
    with less.prems less.IH [of u v av] show ?thesis by (simp add: width_ok_def)
  next
    case (TyContract name cs)
    then have "width_ok av contract_address_ty"
      using less.IH [of contract_address_ty v av] less.prems by (auto simp: contract_address_ty_def)
    then show ?thesis using TyContract
      by (simp add: width_ok_def contract_address_ty_def usize_checked_def)
  qed (use less.prems L(2,3) bytes_aligned_width [OF laws] in
      \<open>auto simp: width_ok_def lined_up_def flat_shape_def split: runtime_value.splits if_splits\<close>)
qed

section \<open>Slices of an encoded struct\<close>

lemma slice_of_concat:
  assumes "fab_laws h" "list_all (\<lambda>av. lined_up av (length (al_value av))) (pre @ a # post)"
    and "start = (\<Sum>av\<leftarrow>pre. length (al_value av))"
  shows "slice_atoms (fh_concat h (pre @ a # post)) start (start + length (al_value a)) = Some a"
proof -
  have al: "length (concat (map al_alignment pre)) = start" "length (concat (map al_value pre)) = start"
    using assms(2) unfolding assms(3) by (induction pre) (auto simp: lined_up_def)
  have "length (concat (map al_alignment avs)) = length (concat (map al_value avs)) \<and>
      list_all is_atom (concat (map al_alignment avs))"
    if "list_all (\<lambda>av. lined_up av (length (al_value av))) avs" for avs
    using that by (induction avs) (auto simp: lined_up_def)
  from this [OF assms(2)] al assms(2) show ?thesis
    unfolding fab_lawsD(1) [OF assms(1)] by (cases a) (auto simp: slice_atoms_def lined_up_def)
qed

text \<open>The layout finds the field at the sum of the widths of the fields before it.\<close>

lemma layout_finds:
  assumes "layout_from off fs = Some layout" "list_all2 (\<lambda>av t. width_ok av t) avs (map snd fs)"
    and "field_slice layout f = Some (start, len)"
  shows "\<exists>pre a post. avs = pre @ a # post \<and> start = off + (\<Sum>av\<leftarrow>pre. length (al_value av)) \<and>
    len = length (al_value a) \<and> map_of (zip (map fst fs) avs) f = Some a"
  using assms
proof (induction fs arbitrary: off layout avs)
  case Nil
  then show ?case by (simp add: field_slice_def)
next
  case (Cons p fs)
  obtain n t where p: "p = (n, t)" by fastforce
  from Cons.prems p obtain a avs' where avs: "avs = a # avs'" and a: "width_ok a t"
    and rest: "list_all2 (\<lambda>av t. width_ok av t) avs' (map snd fs)"
    by (auto simp: list_all2_Cons2)
  from Cons.prems(1) p obtain k out where k: "atom_count_for_type t = Some k"
    and out: "layout_from (off + k) fs = Some out" and layout: "layout = (n, off, k) # out"
    by (auto simp: usize_checked_def split: option.splits if_splits)
  have ak: "length (al_value a) = k" using a k by (simp add: width_ok_def lined_up_def)
  show ?case
  proof (cases "n = f")
    case True
    with Cons.prems(3) layout have "start = off" "len = k" by (auto simp: field_slice_def)
    with True avs ak p show ?thesis by (intro exI [of _ "[]"]) auto
  next
    case False
    with Cons.prems(3) layout have "field_slice out f = Some (start, len)" by (simp add: field_slice_def)
    from Cons.IH [OF out rest this] obtain pre b post where
      "avs' = pre @ b # post" "start = off + k + (\<Sum>av\<leftarrow>pre. length (al_value av))"
      "len = length (al_value b)" "map_of (zip (map fst fs) avs') f = Some b" by blast
    with False avs ak p show ?thesis by (intro exI [of _ "a # pre"]) auto
  qed
qed

lemma layout_lines_up:
  assumes "layout_from off fs = Some layout" "list_all2 (\<lambda>av t. width_ok av t) avs (map snd fs)"
  shows "list_all (\<lambda>av. lined_up av (length (al_value av))) avs"
  using assms
proof (induction fs arbitrary: off layout avs)
  case (Cons p fs)
  then obtain a avs' where "avs = a # avs'" by (auto simp: list_all2_Cons2)
  with Cons show ?case
    by (cases p) (auto simp: width_ok_def lined_up_def split: option.splits)
qed simp

text \<open>The value of a field, from either spelling of a struct.\<close>

lemma struct_field_encoded:
  assumes vs: "struct_values fs (VStruct supplied) = Ok vs"
    and avs: "traverse (\<lambda>((n, t), w). rmap_err (\<lambda>e. TypeError ''cannot encode field'') (encode_typed h w t))
      (zip fs vs) = Ok avs"
    and a: "map_of (zip (map fst fs) avs) f = Some a"
  shows "\<exists>v t. map_of supplied f = Some v \<and> map_of fs f = Some t \<and> encode_typed h v t = Ok a"
proof -
  have "traverse (\<lambda>(n, t). ok_or (TypeError ''missing field'') (map_of supplied n)) fs = Ok vs"
    using vs by (auto simp: struct_values_def split: if_splits)
  with avs a show ?thesis
  proof (induction fs arbitrary: vs avs)
    case (Cons p fs)
    obtain n t where p: "p = (n, t)" by fastforce
    with Cons.prems obtain v vs' b avs' where "vs = v # vs'" "map_of supplied n = Some v" "avs = b # avs'"
      "encode_typed h v t = Ok b"
      "traverse (\<lambda>((n, t), w). rmap_err (\<lambda>e. TypeError ''cannot encode field'') (encode_typed h w t)) (zip fs vs') = Ok avs'"
      "traverse (\<lambda>(n, t). ok_or (TypeError ''missing field'') (map_of supplied n)) fs = Ok vs'"
      by auto
    with Cons p show ?case by (cases "n = f") auto
  qed simp
qed

text \<open>
  C32: the layout of a struct finds what its encoding holds: the atoms that the layout gives to
  a field of an encoded struct are the encoding of that field's value at that field's type.
\<close>

theorem struct_field_slice:
  assumes laws: "fab_laws h" and shaped: "shaped (VStruct supplied) (TyStruct name fs)"
    and enc: "encode_typed h (VStruct supplied) (TyStruct name fs) = Ok av"
    and layout: "layout_from_fields fs = Some layout" "field_slice layout f = Some (start, len)"
  shows "\<exists>v t a. map_of supplied f = Some v \<and> map_of fs f = Some t \<and> encode_typed h v t = Ok a \<and>
    slice_atoms av start (start + len) = Some a"
proof -
  obtain vs avs where vs: "struct_values fs (VStruct supplied) = Ok vs" and avs:
    "traverse (\<lambda>((n, t), w). rmap_err (\<lambda>e. TypeError ''cannot encode field'') (encode_typed h w t)) (zip fs vs) = Ok avs"
    and av: "av = fh_concat h avs"
    using struct_encoding [OF enc] by blast
  have below: "widths_below h k" for k using encoded_width [OF laws] by (auto simp: widths_below_def)
  have widths: "list_all2 (\<lambda>av t. width_ok av t) avs (map snd fs)"
    by (rule struct_width [OF laws below vs shaped avs])
  obtain pre a post where split: "avs = pre @ a # post" "start = (\<Sum>av\<leftarrow>pre. length (al_value av))"
    "len = length (al_value a)" and a: "map_of (zip (map fst fs) avs) f = Some a"
    using layout_finds [OF layout(1) [unfolded layout_from_fields_def] widths layout(2)] by auto
  have "list_all (\<lambda>av. lined_up av (length (al_value av))) avs"
    by (rule layout_lines_up [OF layout(1) [unfolded layout_from_fields_def] widths])
  then have "slice_atoms av start (start + len) = Some a"
    using slice_of_concat [OF laws _ split(2)] av split by simp
  with struct_field_encoded [OF vs avs a] show ?thesis by blast
qed

end
