(* ===== verification/RtDefaults.thy ===== *)
theory RtDefaults
  imports RtEncode
begin

text \<open>
  A host that keeps the laws, for examples, and the properties of the encoder that are stated
  for every host: the bytes of an unsigned integer, the defaults of the ledger cells of a loaded
  contract, and the type whose default does not have the width of its layout.
\<close>

lemma nat_le_bytes_numeral:
  "nat_le_bytes (numeral k) n = of_nat n # nat_le_bytes (pred_numeral k) (n div 256)"
  by (metis nat_le_bytes.simps(2) numeral_eq_Suc)

section \<open>A sample host\<close>

text \<open>
  Fields of 128-bit words in place of the prime fields, and points that are pairs of them; the
  encodings are those of midnight-ledger for the types that it shares with them.
\<close>

definition one_atom :: "fab_atom \<Rightarrow> bytes \<Rightarrow> aligned" where
  "one_atom a bs = \<lparr>al_value = [trim_zeros bs], al_alignment = [SegAtom a]\<rparr>"

fun atom_fits :: "bytes \<Rightarrow> segment \<Rightarrow> bool" where
  "atom_fits bs (SegAtom (AlBytes n)) = (length (trim_zeros bs) \<le> unat n)"
| "atom_fits bs (SegAtom AlField) = (length (trim_zeros bs) \<le> 32)"
| "atom_fits bs (SegAtom AlCompress) = True"
| "atom_fits bs (SegOption as) = False"

definition u128_of_le :: "bytes \<Rightarrow> u128 option" where
  "u128_of_le bs = (if length bs \<le> 16 then Some (of_nat (nat_of_le bs)) else None)"

definition word_op :: "arith_op \<Rightarrow> u128 \<Rightarrow> u128 \<Rightarrow> u128" where
  "word_op op a b = (case op of ArAdd \<Rightarrow> a + b | ArSub \<Rightarrow> a - b | ArMul \<Rightarrow> a * b)"

definition sample_point :: "curve \<Rightarrow> u128 \<times> u128 \<Rightarrow> aligned" where
  "sample_point c p =
     \<lparr>al_value = [trim_zeros (u128_le_bytes (fst p)), trim_zeros (u128_le_bytes (snd p))] @
        replicate (length (point_alignment c) - 2) [],
      al_alignment = point_alignment c\<rparr>"

definition sample_host :: "(u128, u128, u128 \<times> u128) fab_host" where
  "sample_host =
     \<lparr>fh_new = (\<lambda>vs al. if list_all2 atom_fits vs al
        then Some \<lparr>al_value = map trim_zeros vs, al_alignment = al\<rparr> else None),
      fh_bool = (\<lambda>b. one_atom (AlBytes 1) [if b then 1 else 0]),
      fh_u8 = (\<lambda>n. one_atom (AlBytes 1) [n]),
      fh_u64 = (\<lambda>n. one_atom (AlBytes 8) (nat_le_bytes 8 (unat n))),
      fh_u128 = (\<lambda>n. one_atom (AlBytes 16) (u128_le_bytes n)),
      fh_unit = \<lparr>al_value = [], al_alignment = []\<rparr>,
      fh_bytes = one_atom AlCompress,
      fh_array = (\<lambda>bs. one_atom (AlBytes (of_nat (length bs))) bs),
      fh_concat = (\<lambda>avs.
        \<lparr>al_value = concat (map al_value avs), al_alignment = concat (map al_alignment avs)\<rparr>),
      fh_atom_u128 = u128_of_le,
      fh_fr_of_u128 = (\<lambda>n. n),
      fh_fr_of_le = u128_of_le,
      fh_fr_le = u128_le_bytes,
      fh_fr_op = word_op,
      fh_fr_aligned = (\<lambda>x. one_atom AlField (u128_le_bytes x)),
      fh_fr_try = (\<lambda>bs. case bs of [a] \<Rightarrow> u128_of_le a | _ \<Rightarrow> None),
      fh_ff_try = (\<lambda>f bs. case bs of [a, b] \<Rightarrow> u128_of_le a | _ \<Rightarrow> None),
      fh_ff_aligned = (\<lambda>f x. \<lparr>al_value = [trim_zeros (u128_le_bytes x), []], al_alignment = field_alignment f\<rparr>),
      fh_ff_default = (\<lambda>f. 0),
      fh_ff_op = (\<lambda>f. word_op),
      fh_ff_le = (\<lambda>f. u128_le_bytes),
      fh_ff_of_le = (\<lambda>f bs. of_nat (nat_of_le bs)),
      fh_pt_try = (\<lambda>c bs. case bs of a # b # cs \<Rightarrow>
        (case (u128_of_le a, u128_of_le b) of (Some x, Some y) \<Rightarrow> Some (x, y) | _ \<Rightarrow> None) | _ \<Rightarrow> None),
      fh_pt_aligned = sample_point,
      fh_pt_default = (\<lambda>c. (0, 1)),
      fh_max_aligned_size = length,
      fh_leaf_hash = (\<lambda>av. concat (al_value av)),
      fh_hash_output = (\<lambda>bs. case bs of [a] \<Rightarrow> if length a \<le> 32 then Some a else None | _ \<Rightarrow> None)\<rparr>"

lemma u128_of_le_trim: "u128_of_le (trim_zeros (u128_le_bytes x)) = Some x"
proof -
  have "length (trim_zeros (u128_le_bytes x)) \<le> 16"
    using trim_length [of "u128_le_bytes x"] by (simp add: u128_le_bytes_def)
  then show ?thesis by (simp add: u128_of_le_def)
qed

lemma point_alignment_atoms: "2 \<le> length (point_alignment c)" "list_all is_atom (point_alignment c)"
  by (cases c; simp add: flagged_alignment_def field_alignment_def)+

lemma sample_point_laws:
  "lined_up (sample_point c p) (length (point_alignment c))"
  "fh_pt_try sample_host c (al_value (sample_point c p)) = Some p"
  using point_alignment_atoms [of c] by (simp_all add: sample_point_def sample_host_def lined_up_def u128_of_le_trim)

lemma sample_laws: "fab_laws sample_host"
proof -
  have scalars: "lined_up (fh_bool sample_host b) 1" "lined_up (fh_u8 sample_host n) 1"
      "lined_up (fh_unit sample_host) 0" "lined_up (fh_bytes sample_host bs) 1"
      "lined_up (fh_fr_aligned sample_host x) 1" for b n bs x
    by (simp_all add: sample_host_def lined_up_def one_atom_def)
  have "lined_up (fh_ff_aligned sample_host f x) (length (field_alignment f)) \<and>
      fh_ff_try sample_host f (al_value (fh_ff_aligned sample_host f x)) = Some x" for f x
    by (simp add: sample_host_def lined_up_def u128_of_le_trim field_alignment_def)
  moreover have "lined_up (fh_pt_aligned sample_host c p) (length (point_alignment c)) \<and>
      fh_pt_try sample_host c (al_value (fh_pt_aligned sample_host c p)) = Some p" for c p
    using sample_point_laws [of c p] by (simp add: sample_host_def)
  ultimately show ?thesis
    unfolding fab_laws_def using scalars by (simp add: sample_host_def)
qed

text \<open>The struct of the tests of \<^verbatim>\<open>built_ins.rs\<close>, without its label.\<close>

definition sample_fields :: "(string \<times> ty) list" where
  "sample_fields = [(''x'', TyUnsigned 4294967295), (''flag'', TyBoolean)]"

definition sample_struct :: runtime_value where
  "sample_struct = VStruct [(''flag'', VBool True), (''x'', VInteger 305419896)]"

definition sample_encoded :: aligned where
  "sample_encoded = \<lparr>al_value = [[120, 86, 52, 18], [1]], al_alignment = [SegAtom (AlBytes 4), SegAtom (AlBytes 1)]\<rparr>"

lemma sample_encodes: "encode_typed sample_host sample_struct (TyStruct ''Point'' sample_fields) = Ok sample_encoded"
proof -
  have width: "uint_byte_width 4294967295 = 4"
    by (simp add: uint_byte_width_def div_ceil_def nat_bits.simps)
  have bytes: "trim_zeros (u128_le_bytes 305419896) = [120, 86, 52, 18]"
    by (simp add: u128_le_bytes_def trim_zeros_def nat_le_bytes_numeral)
  have bool: "fh_bool sample_host True = \<lparr>al_value = [[1]], al_alignment = [SegAtom (AlBytes 1)]\<rparr>"
    by (simp add: sample_host_def one_atom_def trim_zeros_def)
  have vs: "struct_values sample_fields sample_struct = Ok [VInteger 305419896, VBool True]"
    by (simp add: struct_values_def sample_struct_def sample_fields_def)
  have x: "encode_typed sample_host (VInteger 305419896) (TyUnsigned 4294967295) =
      Ok \<lparr>al_value = [[120, 86, 52, 18]], al_alignment = [SegAtom (AlBytes 4)]\<rparr>"
    by (simp add: value_to_u128_def check_uint_range_eq bytes_aligned_value_def fab_lawsD(7) [OF sample_laws] width bytes)
  show ?thesis
    using vs by (simp add: x bool fab_lawsD(1) [OF sample_laws] sample_struct_def sample_fields_def sample_encoded_def
        del: encode_typed.simps(2))
qed

theorem struct_field_slice_witness:
  "\<exists>v t a. map_of [(''flag'', VBool True), (''x'', VInteger 305419896)] ''flag'' = Some v \<and>
     map_of sample_fields ''flag'' = Some t \<and> encode_typed sample_host v t = Ok a \<and>
     slice_atoms sample_encoded 1 (1 + 1) = Some a"
  by (rule struct_field_slice [OF sample_laws _ sample_encodes [unfolded sample_struct_def],
        where layout = "[(''x'', 0, 1), (''flag'', 1, 1)]"])
    (simp_all add: sample_fields_def layout_from_fields_def usize_checked_def field_slice_def)

section \<open>Unsigned integers\<close>

text \<open>
  C33: an unsigned integer is encoded exactly or not at all: within its bound it is one atom of
  the width of its type, whose little-endian bytes are the integer; past the bound, the encoder
  fails and nothing wraps.
\<close>

theorem uint_encoding_exact:
  assumes "fab_laws h" "uint_byte_width m < 2 ^ 32"
  shows "encode_typed h (VInteger n) (TyUnsigned m) =
      (if unat n \<le> m
       then Ok \<lparr>al_value = [trim_zeros (u128_le_bytes n)], al_alignment = [SegAtom (AlBytes (of_nat (uint_byte_width m)))]\<rparr>
       else Err (TypeError ''integer out of range for Uint'')) \<and>
    nat_of_le (trim_zeros (u128_le_bytes n)) = unat n"
proof -
  have "length (trim_zeros (u128_le_bytes n)) \<le> uint_byte_width m" if "unat n \<le> m"
    unfolding u128_le_bytes_def by (rule trim_fits) (use that uint_byte_width_holds [of m] in simp)
  moreover have "unat (of_nat (uint_byte_width m) :: u32) = uint_byte_width m"
    using assms(2) by (simp add: unat_of_nat take_bit_nat_eq_self)
  ultimately show ?thesis
    by (auto simp: value_to_u128_def check_uint_range_eq bytes_aligned_value_def fab_lawsD(7) [OF assms(1)])
qed

theorem uint_encoding_exact_witness:
  "encode_typed sample_host (VInteger 256) (TyUnsigned 255) =
      (if unat (256 :: u128) \<le> 255
       then Ok \<lparr>al_value = [trim_zeros (u128_le_bytes 256)], al_alignment = [SegAtom (AlBytes (of_nat (uint_byte_width 255)))]\<rparr>
       else Err (TypeError ''integer out of range for Uint'')) \<and>
    nat_of_le (trim_zeros (u128_le_bytes 256)) = unat (256 :: u128)"
  by (rule uint_encoding_exact [OF sample_laws]) (simp add: uint_byte_width_def div_ceil_def nat_bits.simps)

section \<open>Defaults\<close>

lemma traverse_pair:
  assumes "\<And>x. x \<in> set xs \<Longrightarrow> \<exists>y z. f x = Ok y \<and> g (x, y) = Ok z"
  shows "\<exists>ys zs. traverse f xs = Ok ys \<and> length ys = length xs \<and> traverse g (zip xs ys) = Ok zs"
  using assms
proof (induction xs)
  case (Cons x xs)
  from Cons.prems obtain y z where "f x = Ok y" "g (x, y) = Ok z" by fastforce
  moreover from Cons obtain ys zs where "traverse f xs = Ok ys" "length ys = length xs" "traverse g (zip xs ys) = Ok zs"
    by fastforce
  ultimately show ?case by fastforce
qed simp

lemma bytes_default: "fab_laws h \<Longrightarrow> \<exists>av. bytes_aligned_value h [] n = Ok av"
  by (simp add: bytes_aligned_value_def fab_lawsD(7) trim_zeros_def)

lemma zero_bytes: "fab_laws h \<Longrightarrow> \<exists>av. bytes_aligned_value h (u128_le_bytes 0) n = Ok av"
  by (simp add: bytes_aligned_value_def fab_lawsD(7) trim_zeros_def u128_le_bytes_def nat_le_bytes_zero)

lemma default_encodes:
  assumes laws: "fab_laws h"
  shows "value_type t \<Longrightarrow> \<not> holds_unknown t \<Longrightarrow>
    \<exists>v av. default_value h t = Ok v \<and> encode_typed h v t = Ok av"
proof (induction t rule: measure_induct_rule [of ty_weight])
  case (less t)
  show ?case
  proof (cases t)
    case (TyUnsigned n)
    with zero_bytes [OF laws] show ?thesis by (auto simp: value_to_u128_def check_uint_range_eq)
  next
    case (TyField f)
    then show ?thesis using fab_lawsD(9) [OF laws]
      by (cases "foreign_of f") (auto simp: foreign_encode_def foreign_decode_def foreign_zero_def)
  next
    case (TyPoint c)
    then show ?thesis using fab_lawsD(11) [OF laws] by (auto simp: point_encode_def)
  next
    case (TyTuple ts)
    have "\<exists>v av. default_value h u = Ok v \<and> (case (u, v) of (t, e) \<Rightarrow> encode_typed h e t) = Ok av" if "u \<in> set ts" for u
      using that less.IH [of u] less.prems TyTuple ty_weight_member [OF that] by (auto simp: list_all_iff list_ex_iff)
    then obtain ds avs where ds: "traverse (default_value h) ts = Ok ds" "length ds = length ts"
        "traverse (\<lambda>(t, e). encode_typed h e t) (zip ts ds) = Ok avs"
      using traverse_pair [of ts "default_value h" "\<lambda>(t, e). encode_typed h e t"] by auto
    show ?thesis
      by (rule exI [of _ "if ts = [] then VVoid else VTuple ds"]) (use TyTuple ds in simp)
  next
    case (TyVector n u)
    then obtain v av where v: "default_value h u = Ok v" "encode_typed h v u = Ok av"
      using less.IH [of u] less.prems by auto
    have "traverse (\<lambda>x. default_value h u) (replicate k ()) = Ok (replicate k v)"
      "traverse (\<lambda>e. encode_typed h e u) (replicate k v) = Ok (replicate k av)" for k
      using v by (induction k) auto
    with TyVector show ?thesis by (simp add: ir_length_def)
  next
    case (TyStruct name fs)
    define F where "F = (\<lambda>((n :: string, t), w). rmap_err (\<lambda>e. TypeError ''cannot encode field'') (encode_typed h w t))"
    have "\<exists>v av. (case f of (n, t) \<Rightarrow> default_value h t) = Ok v \<and> F (f, v) = Ok av"
      if "f \<in> set fs" for f
    proof -
      obtain n u where f: "f = (n, u)" by fastforce
      then have "ty_weight u < ty_weight t" using that ty_weight_field TyStruct by auto
      moreover have "value_type u" "\<not> holds_unknown u"
        using that f less.prems TyStruct by (auto simp: list_all_iff list_ex_iff)
      ultimately show ?thesis using less.IH f by (fastforce simp: F_def)
    qed
    then obtain ds avs where ds: "traverse (\<lambda>(n, t). default_value h t) fs = Ok ds" "length ds = length fs"
        "traverse F (zip fs ds) = Ok avs"
      using traverse_pair [of fs "\<lambda>(n, t). default_value h t" F] by blast
    show ?thesis
      by (rule exI [of _ "VAligned (fh_concat h avs)"]) (use TyStruct ds in \<open>simp add: struct_values_def F_def\<close>)
  next
    case (TyAlias nominal name u)
    with less show ?thesis by auto
  next
    case (TyContract name cs)
    have "\<exists>v av. default_value h contract_address_ty = Ok v \<and> encode_typed h v contract_address_ty = Ok av"
      by (rule less.IH) (simp_all add: TyContract contract_address_ty_def)
    then show ?thesis by (simp add: TyContract)
  next
    case (TyBytes n)
    with bytes_default [OF laws] show ?thesis by (fastforce simp: ir_length_def)
  qed (use less.prems in \<open>auto\<close>)
qed

lemma checked_default: "fab_laws h \<Longrightarrow> value_type t \<Longrightarrow> \<not> holds_unknown t \<Longrightarrow> \<exists>av. default_aligned h t = Ok av"
  using default_encodes by (fastforce simp: default_aligned_def)

text \<open>
  C38: the initial value of a ledger field never panics: \<^verbatim>\<open>default_aligned\<close>, which panics on
  a type that has no value, gives an aligned value for the element type of every field of a
  loaded contract, because the loader refuses the types without one.
\<close>

theorem loaded_elements_have_defaults:
  assumes "fab_laws h" "from_program ir = Ok info" "f \<in> set (ci_ledger info)" "lf_element_type f = Some t"
  shows "\<exists>av. default_aligned h t = Ok av"
  using loaded_field [OF assms(2,3)] assms(4)
  by (intro checked_default [OF assms(1)]) (auto simp: field_typed_def split: storage_kind.splits)

text \<open>A contract with one cell, of an unsigned type.\<close>

definition cell_ir :: analyzed_ir where
  "cell_ir = \<lparr>ir_compiler_version = ''0.35.1'', ir_language_version = ''0.25'', ir_runtime_version = ''0.17'',
     ir_exports = [], ir_contract_types = [],
     ir_elements = [PPublicLedger \<lparr>ld_fields = [\<lparr>lb_name = ''%n.0'', lb_path = [0], lb_exported = True,
         lb_ty = TyAdt ''Cell'' [AdtType (TyUnsigned 65535)]\<rparr>],
       ld_constructor = \<lparr>con_arguments = [], con_body = ETuple []\<rparr>\<rparr>]\<rparr>"

lemma cell_loads:
  "from_program cell_ir = Ok
     \<lparr>ci_circuits = [], ci_witnesses = [],
      ci_ledger = [\<lparr>lf_name = ''n'', lf_index = ISingle 0, lf_storage = KCell, lf_exported = True,
        lf_element_type = Some (TyUnsigned 65535), lf_key = None, lf_value = None, lf_depth = None\<rparr>],
      ci_constructor = None, ci_helpers = [], ci_natives = []\<rparr>"
  by (simp add: from_program_def cell_ir_def ir_circuits_def ir_natives_def ir_witnesses_def ir_ledger_def
      map_filter_simps circuit_table_def map_from_list_def load_constructor_def is_empty_constructor_def
      artifact_ledger_field_def storage_of_def fill_field_def ident_name_def all_digits_def adt_arg_ty_def)

theorem loaded_elements_have_defaults_witness:
  "\<exists>av. default_aligned sample_host (TyUnsigned 65535) = Ok av"
  by (rule loaded_elements_have_defaults [OF sample_laws cell_loads]) (simp, simp)

text \<open>
  C39: the layout gives an opaque Jubjub point two atoms, but its default has one: a struct that
  holds the default of one does not line up with its layout.
\<close>

theorem opaque_point_default_short:
  assumes "fab_laws h"
  shows "\<exists>av. default_aligned h (TyOpaque ''JubjubPoint'') = Ok av \<and> lined_up av 1 \<and>
    atom_count_for_type (TyOpaque ''JubjubPoint'') = Some 2"
  using fab_lawsD(5) [OF assms] by (simp add: default_aligned_def empty_opaque_def)

theorem opaque_point_default_short_witness:
  "\<exists>av. default_aligned sample_host (TyOpaque ''JubjubPoint'') = Ok av \<and> lined_up av 1 \<and>
    atom_count_for_type (TyOpaque ''JubjubPoint'') = Some 2"
  by (rule opaque_point_default_short [OF sample_laws])

end
