(* ===== verification/Interp.thy ===== *)
theory Interp
  imports RtDefaults RtNatives "HOL-Library.AList"
begin

text \<open>
  The pure parts of the circuit interpreter, \<^verbatim>\<open>crates/compact/interpreter/src/lib.rs\<close>: how a
  program resolves names, the static types of expressions, casts, indexing and slicing, and the
  operands of VM instructions that need no evaluation.
\<close>

section \<open>Programs\<close>

record program =
  pr_circuits :: "string \<rightharpoonup> circuit"
  pr_witnesses :: "string \<rightharpoonup> witness_decl"
  pr_natives :: "string \<rightharpoonup> native"

definition runtime_module :: string where
  "runtime_module = ''__compactRuntime.''"

definition program_new :: "circuit list \<Rightarrow> witness_decl list \<Rightarrow> native list \<Rightarrow> program" where
  "program_new cs ws ns =
     \<lparr>pr_circuits = map_from_list (map (\<lambda>c. (cir_name c, c)) cs),
      pr_witnesses = map_from_list (map (\<lambda>w. (ident_name (wit_name w), w)) ws),
      pr_natives = map_from_list (map (\<lambda>n. (nat_name n, n)) ns)\<rparr>"

datatype decl = DeclCircuit circuit | DeclNative native | DeclWitness witness_decl

datatype callee = CalleeCircuit circuit | CalleeWitness | CalleePure

definition program_declaration :: "program \<Rightarrow> ident \<Rightarrow> decl option" where
  "program_declaration p i =
     (case pr_circuits p i of Some c \<Rightarrow> Some (DeclCircuit c)
      | None \<Rightarrow>
          (case pr_natives p i of Some n \<Rightarrow> Some (DeclNative n)
           | None \<Rightarrow> map_option DeclWitness (pr_witnesses p (ident_name i))))"

definition program_callee :: "program \<Rightarrow> ident \<Rightarrow> callee" where
  "program_callee p i =
     (case program_declaration p i of
        Some (DeclCircuit c) \<Rightarrow> CalleeCircuit c
      | Some (DeclNative n) \<Rightarrow> if nat_class n = ''witness'' then CalleeWitness else CalleePure
      | Some (DeclWitness w) \<Rightarrow> CalleeWitness
      | None \<Rightarrow> CalleePure)"

definition runtime_name :: "program \<Rightarrow> ident \<Rightarrow> string" where
  "runtime_name p i =
     (case program_declaration p i of
        Some (DeclNative n) \<Rightarrow>
          (case strip_prefix runtime_module (nat_entry n) of Some s \<Rightarrow> s | None \<Rightarrow> nat_entry n)
      | _ \<Rightarrow> ident_name i)"

definition argument_types :: "program \<Rightarrow> ident \<Rightarrow> ty list" where
  "argument_types p i =
     (case program_declaration p i of Some (DeclNative n) \<Rightarrow> map arg_ty (nat_arguments n) | _ \<Rightarrow> [])"

definition program_result_type :: "program \<Rightarrow> ident \<Rightarrow> ty option" where
  "program_result_type p i =
     map_option (\<lambda>d. case d of DeclCircuit c \<Rightarrow> cir_result_type c | DeclNative n \<Rightarrow> nat_result_type n
       | DeclWitness w \<Rightarrow> wit_result_type w) (program_declaration p i)"

section \<open>Checks\<close>

definition check_run_type :: "ty \<Rightarrow> unit run" where
  "check_run_type t =
     (case unsupported_type t of None \<Rightarrow> Ok () | Some what \<Rightarrow> Err (Unsupported ''unsupported type''))"

definition refuse_foreign_cast :: "field_type \<Rightarrow> unit run" where
  "refuse_foreign_cast f =
     (case foreign_of f of Some ff \<Rightarrow> Err (TypeError ''no cast between a foreign field and Field or Uint'')
      | None \<Rightarrow> Ok ())"

definition encode_circuit_input ::
  "('fr, 'ff, 'pt) fab_host \<Rightarrow> (string \<times> runtime_value) list \<Rightarrow> argument list \<Rightarrow> aligned run" where
  "encode_circuit_input h args arguments =
     (if args = [] then Ok (fh_unit h)
      else rmap (fh_concat h)
        (traverse (\<lambda>(name, v).
           case find (\<lambda>a. ident_name (arg_name a) = name) arguments of
             Some a \<Rightarrow> encode_typed h v (arg_ty a)
           | None \<Rightarrow> try_to_aligned_value h v) args))"

section \<open>Static types\<close>

type_synonym type_env = "string \<rightharpoonup> ty"

definition byte_type :: ty where
  "byte_type = TyUnsigned 255"

text \<open>\<^verbatim>\<open>usize::try_from\<close> of an integer.\<close>

definition const_index :: "expr \<Rightarrow> nat option" where
  "const_index e =
     (case e of EQuote (LInt n) \<Rightarrow> if 0 \<le> n \<and> n < 2 ^ 64 then Some (nat n) else None | _ \<Rightarrow> None)"

definition slice_result_type :: "ty \<Rightarrow> nat option \<Rightarrow> u64 \<Rightarrow> ty option" where
  "slice_result_type operand start len =
     (case resolved operand of
        TyVector n t \<Rightarrow> Some (TyVector len t)
      | TyTuple ts \<Rightarrow>
          (case start of None \<Rightarrow> None
           | Some a \<Rightarrow>
               (case usize_checked (a + unat len) of None \<Rightarrow> None
                | Some b \<Rightarrow> if b \<le> length ts then Some (TyTuple (take (b - a) (drop a ts))) else None))
      | _ \<Rightarrow> None)"

fun collect_options :: "'a option list \<Rightarrow> 'a list option" where
  "collect_options [] = Some []"
| "collect_options (x # xs) =
     (case x of None \<Rightarrow> None | Some a \<Rightarrow> map_option (\<lambda>as. a # as) (collect_options xs))"

text \<open>What one argument of a tuple contributes to its type, given the type of its expression.\<close>

definition argument_element_types :: "(expr \<Rightarrow> ty option) \<Rightarrow> expr tuple_arg \<Rightarrow> ty list option" where
  "argument_element_types typ a =
     (case a of
        Single e \<Rightarrow> map_option (\<lambda>t. [t]) (typ e)
      | Spread len e \<Rightarrow>
          (case typ e of
             Some (TyTuple ts) \<Rightarrow> if length ts = unat len then Some ts else None
           | Some (TyVector n t) \<Rightarrow> if n = len then Some (replicate (unat n) t) else None
           | _ \<Rightarrow> None))"

lemma argument_element_types_cong [fundef_cong]:
  assumes "a = b" "\<And>e. (b = Single e \<or> (\<exists>n. b = Spread n e)) \<Longrightarrow> f e = g e"
  shows "argument_element_types f a = argument_element_types g b"
  using assms by (cases b) (simp_all add: argument_element_types_def)

lemma last_item_size: "items \<noteq> [] \<Longrightarrow> size (last items) < size (ESeq items)"
  using size_list_mem [OF last_in_set, of items size] by simp

lemma tuple_arg_sizes:
  assumes "a \<in> set as" "a = Single e \<or> (\<exists>n. a = Spread n e)"
  shows "size e < size_list (size_tuple_arg size) as"
proof -
  have "size_tuple_arg size a < size_list (size_tuple_arg size) as" using assms(1) by (rule size_list_mem)
  moreover have "size e \<le> size_tuple_arg size a" using assms(2) by auto
  ultimately show ?thesis by simp
qed

text \<open>
  \<^verbatim>\<open>infer_type_of_expr\<close>. Its first arguments are the program and the types of the locals.
\<close>

function (sequential) infer_type :: "program \<Rightarrow> type_env \<Rightarrow> expr \<Rightarrow> ty option" where
  "infer_type p \<Gamma> (EVarRef i) = \<Gamma> i"
| "infer_type p \<Gamma> (EQuote v) =
     Some (case v of LBool b \<Rightarrow> TyBoolean | LInt n \<Rightarrow> TyField FNative
       | LBytes bs \<Rightarrow> TyBytes (of_nat (length bs)))"
| "infer_type p \<Gamma> (ECall i as) = program_result_type p i"
| "infer_type p \<Gamma> (EPublicLedger i c path op t ins as) = Some t"
| "infer_type p \<Gamma> (ENew t es) = Some t"
| "infer_type p \<Gamma> (EDefault t) = Some t"
| "infer_type p \<Gamma> (EEq t l r) = Some TyBoolean"
| "infer_type p \<Gamma> (ENeq t l r) = Some TyBoolean"
| "infer_type p \<Gamma> (ELt b l r) = Some TyBoolean"
| "infer_type p \<Gamma> (ELe b l r) = Some TyBoolean"
| "infer_type p \<Gamma> (EGt b l r) = Some TyBoolean"
| "infer_type p \<Gamma> (EGe b l r) = Some TyBoolean"
| "infer_type p \<Gamma> (EAdd t l r) = Some t"
| "infer_type p \<Gamma> (ESub t l r) = Some t"
| "infer_type p \<Gamma> (EMul t l r) = Some t"
| "infer_type p \<Gamma> (EIf c t e) = infer_type p \<Gamma> t"
| "infer_type p \<Gamma> (ELetStar bs body) = infer_type p \<Gamma> body"
| "infer_type p \<Gamma> (ESeq items) = (if items = [] then None else infer_type p \<Gamma> (last items))"
| "infer_type p \<Gamma> (EReturn e) = infer_type p \<Gamma> e"
| "infer_type p \<Gamma> (ETuple as) =
     map_option (\<lambda>tss. TyTuple (concat tss)) (collect_options (map (argument_element_types (infer_type p \<Gamma>)) as))"
| "infer_type p \<Gamma> (EVectorLit as) =
     map_option (\<lambda>tss. TyTuple (concat tss)) (collect_options (map (argument_element_types (infer_type p \<Gamma>)) as))"
| "infer_type p \<Gamma> (ETupleRef e i) =
     (case infer_type p \<Gamma> e of None \<Rightarrow> None | Some t \<Rightarrow> element_type_at t (Some (unat i)))"
| "infer_type p \<Gamma> (EVectorRef t e i) =
     (case element_type_at t (const_index i) of
        Some u \<Rightarrow> Some u
      | None \<Rightarrow> (case infer_type p \<Gamma> e of None \<Rightarrow> None | Some o' \<Rightarrow> element_type_at o' (const_index i)))"
| "infer_type p \<Gamma> (EEltRef e elt n) =
     (case infer_type p \<Gamma> e of
        None \<Rightarrow> None
      | Some r \<Rightarrow> (case resolved r of TyStruct name fs \<Rightarrow> map_of fs elt | _ \<Rightarrow> None))"
| "infer_type p \<Gamma> (EAssert e m) = Some unit_ty"
| "infer_type p \<Gamma> (EEmit a b c e ins) = Some unit_ty"
| "infer_type p \<Gamma> (EFieldToBytes len f e) = Some (TyBytes len)"
| "infer_type p \<Gamma> (EVectorToBytes len e) = Some (TyBytes len)"
| "infer_type p \<Gamma> (EBytesToVector len e) = Some (TyVector len byte_type)"
| "infer_type p \<Gamma> (ECastFromBytes t len e) = Some t"
| "infer_type p \<Gamma> (ECastFromEnum t from_ty e) = Some t"
| "infer_type p \<Gamma> (ECastToEnum t from_ty e) = Some t"
| "infer_type p \<Gamma> (ESafeCast t from_ty e) = Some t"
| "infer_type p \<Gamma> (ECastToField f from_ty e) = Some (TyField FNative)"
| "infer_type p \<Gamma> (ECastFromField m f e) = Some (TyUnsigned m)"
| "infer_type p \<Gamma> (EDowncastUnsigned m k e) = Some (TyUnsigned k)"
| "infer_type p \<Gamma> (EEnumRef t elt) = Some t"
| "infer_type p \<Gamma> (ETupleSlice t e i len) = slice_result_type t (Some (unat i)) len"
| "infer_type p \<Gamma> (EVectorSlice t e i len) = slice_result_type t (const_index i) len"
| "infer_type p \<Gamma> (EBytesSlice t e i len) = Some (TyBytes len)"
| "infer_type p \<Gamma> (EBytesRef t e i) = Some byte_type"
| "infer_type p \<Gamma> (EFold len f init t as) = infer_type p \<Gamma> init"
| "infer_type p \<Gamma> (EMap len f as) =
     (case f of
        FunCircuit ps r b \<Rightarrow> Some (TyVector len r)
      | FunRef i \<Rightarrow> map_option (TyVector len) (program_result_type p i))"
| "infer_type p \<Gamma> (EContractCall circuit receiver contract as) =
     (case resolved contract of
        TyContract name cs \<Rightarrow>
          map_option (\<lambda>c. case c of ContractCircuit n pure ts r \<Rightarrow> r)
            (find (\<lambda>c. case c of ContractCircuit n pure ts r \<Rightarrow> n = circuit) cs)
      | _ \<Rightarrow> None)"
  by pat_completeness auto
termination
  by (relation "measure (\<lambda>(p, \<Gamma>, e). size e)")
    (auto dest: last_item_size tuple_arg_sizes)

section \<open>Literals and casts\<close>

definition eval_literal :: "('fr, 'ff, 'pt) fab_host \<Rightarrow> literal \<Rightarrow> runtime_value run" where
  "eval_literal h l =
     (case l of
        LBool b \<Rightarrow> Ok (VBool b)
      | LInt n \<Rightarrow>
          if 0 \<le> n \<and> n < 2 ^ 128 then Ok (VInteger (of_int n))
          else rmap (\<lambda>fr. VAligned (fh_fr_aligned h fr))
            (ok_or (TypeError ''invalid Field literal'')
              (if n < 0 then None else fh_fr_of_le h (biguint_le_bytes (nat n))))
      | LBytes bs \<Rightarrow> rmap VAligned (bytes_aligned_value h bs (length bs)))"

definition numeric_value :: "('fr, 'ff, 'pt) fab_host \<Rightarrow> runtime_value \<Rightarrow> nat run" where
  "numeric_value h v =
     (case v of
        VInteger n \<Rightarrow> Ok (unat n)
      | VBool b \<Rightarrow> Ok (if b then 1 else 0)
      | _ \<Rightarrow> rbind (try_to_aligned_value h v) (\<lambda>av.
          case al_value av of [a] \<Rightarrow> Ok (nat_of_le a) | _ \<Rightarrow> Err (TypeError ''expected a number'')))"

definition uint_above_u128 :: interp_error where
  "uint_above_u128 = Unsupported ''the Uint value is above 2^128 - 1''"

definition uint_value :: "nat \<Rightarrow> runtime_value run" where
  "uint_value n = rmap VInteger (ok_or uint_above_u128 (u128_of_nat n))"

definition value_to_byte_string :: "runtime_value \<Rightarrow> nat \<Rightarrow> bytes run" where
  "value_to_byte_string v len =
     (case v of
        VAligned av \<Rightarrow>
          (case al_value av of
             [a] \<Rightarrow> if len < length a then Err (TypeError ''byte string is wider'') else Ok a
           | _ \<Rightarrow> Err (TypeError ''expected a Bytes value''))
      | _ \<Rightarrow> Err (TypeError ''expected a Bytes value''))"

text \<open>\<^verbatim>\<open>resize\<close> of a string that is no longer than the length.\<close>

definition padded_bytes :: "runtime_value \<Rightarrow> nat \<Rightarrow> bytes run" where
  "padded_bytes v len =
     rmap (\<lambda>bs. take len bs @ replicate (len - length bs) 0) (value_to_byte_string v len)"

definition cast_to_field :: "('fr, 'ff, 'pt) fab_host \<Rightarrow> runtime_value \<Rightarrow> ty \<Rightarrow> runtime_value run" where
  "cast_to_field h v from_ty =
     rmap (\<lambda>fr. VAligned (fh_fr_aligned h fr))
       (case resolved from_ty of
          TyBytes len \<Rightarrow>
            rbind (ir_length len) (\<lambda>n. rbind (value_to_byte_string v n) (\<lambda>bs.
              ok_or (TypeError ''range error: byte string exceeds the maximum value of the Field type'')
                (fh_fr_of_le h bs)))
        | _ \<Rightarrow>
            rbind (numeric_value h v) (\<lambda>n.
              ok_or (TypeError ''exceeds the maximum value of the Field type'')
                (fh_fr_of_le h (biguint_le_bytes n))))"

definition cast_to_uint :: "('fr, 'ff, 'pt) fab_host \<Rightarrow> runtime_value \<Rightarrow> ty \<Rightarrow> nat \<Rightarrow> runtime_value run" where
  "cast_to_uint h v from_ty maxval =
     (case resolved from_ty of
        TyBytes len \<Rightarrow>
          rbind (ir_length len) (\<lambda>k. rbind (padded_bytes v k) (\<lambda>bs.
            if maxval < nat_of_le bs
            then Err (AssertionFailed ''range error: byte vector exceeds maximum value'')
            else uint_value (nat_of_le bs)))
      | _ \<Rightarrow>
          rbind (numeric_value h v) (\<lambda>n.
            if maxval < n
            then Err (AssertionFailed ''cast from Field or Uint value to smaller Uint value failed'')
            else uint_value n))"

definition cast_to_enum :: "('fr, 'ff, 'pt) fab_host \<Rightarrow> runtime_value \<Rightarrow> string list \<Rightarrow> runtime_value run" where
  "cast_to_enum h v variants =
     rbind (numeric_value h v) (\<lambda>n.
       if length variants - 1 < n
       then Err (AssertionFailed ''cast from Field or Uint value to enum failed'')
       else uint_value n)"

definition eval_cast :: "('fr, 'ff, 'pt) fab_host \<Rightarrow> runtime_value \<Rightarrow> ty \<Rightarrow> ty \<Rightarrow> runtime_value run" where
  "eval_cast h v from_ty to_ty =
     (case resolved to_ty of
        TyField f \<Rightarrow>
          (case foreign_of f of
             Some ff \<Rightarrow>
               (case resolved from_ty of
                  TyBytes len \<Rightarrow>
                    rbind (ir_length len) (\<lambda>n. rmap (foreign_from_le_bytes h ff) (value_to_byte_string v n))
                | _ \<Rightarrow> Err (TypeError ''no cast to a foreign field''))
           | None \<Rightarrow> cast_to_field h v from_ty)
      | TyUnsigned maxval \<Rightarrow> cast_to_uint h v from_ty maxval
      | TyEnum name variants \<Rightarrow> cast_to_enum h v variants
      | _ \<Rightarrow> Ok v)"

section \<open>Elements and bytes\<close>

definition byte_at :: "runtime_value \<Rightarrow> nat \<Rightarrow> nat \<Rightarrow> runtime_value run" where
  "byte_at v len i =
     (if len \<le> i then Err (TypeError ''index out of bounds'')
      else rmap (\<lambda>bs. VInteger (ucast (bs ! i))) (padded_bytes v len))"

definition indexed_element :: "runtime_value \<Rightarrow> ty option \<Rightarrow> nat \<Rightarrow> runtime_value run" where
  "indexed_element v ty i =
     (case v of
        VTuple es \<Rightarrow> ok_or (TypeError ''index out of bounds'') (nth_option es i)
      | VAligned av \<Rightarrow>
          rbind (ok_or (TypeError ''cannot index a flattened value of unknown type'') ty) (\<lambda>t.
            case resolved t of
              TyBytes len \<Rightarrow> rbind (ir_length len) (\<lambda>n. byte_at v n i)
            | _ \<Rightarrow>
                rbind (ok_or (TypeError ''cannot lay out element'') (element_atom_range t i)) (\<lambda>(a, b).
                rmap VAligned (ok_or (TypeError ''does not carry one alignment atom per value atom'')
                  (slice_atoms av a b))))
      | _ \<Rightarrow> Err (TypeError ''cannot index value''))"

definition slice_elements :: "runtime_value \<Rightarrow> ty \<Rightarrow> nat \<Rightarrow> nat \<Rightarrow> runtime_value run" where
  "slice_elements v t start len =
     rmap VTuple (traverse (\<lambda>k. indexed_element v (Some t) (start + k)) [0..<len])"

definition splice_spread :: "runtime_value \<Rightarrow> ty option \<Rightarrow> nat \<Rightarrow> runtime_value list run" where
  "splice_spread inner ty expected =
     (case inner of
        VAligned av \<Rightarrow>
          if (case ty of Some t \<Rightarrow> element_count t | None \<Rightarrow> None) = Some expected
          then traverse (\<lambda>i. indexed_element inner ty i) [0..<expected]
          else if length (al_value av) \<noteq> expected then Err (TypeError ''spread of the wrong length'')
          else traverse (\<lambda>i. rmap VAligned
            (ok_or (TypeError ''spread over a value without one alignment atom per value atom'')
              (slice_atoms av i (i + 1)))) [0..<expected]
      | VTuple es \<Rightarrow>
          if length es \<noteq> expected then Err (TypeError ''spread of the wrong length'') else Ok es
      | _ \<Rightarrow> Err (TypeError ''cannot spread non-vector value''))"

definition byte_of :: "u128 \<Rightarrow> u8 run" where
  "byte_of n = (if unat n < 256 then Ok (ucast n) else Err (TypeError ''vector-to-bytes element exceeds 255''))"

definition vector_value_to_bytes :: "('fr, 'ff, 'pt) fab_host \<Rightarrow> runtime_value \<Rightarrow> nat \<Rightarrow> bytes run" where
  "vector_value_to_bytes h v len =
     (case v of
        VTuple es \<Rightarrow>
          if length es \<noteq> len then Err (TypeError ''vector-to-bytes of the wrong length'')
          else traverse (\<lambda>e. rbind (ok_or (TypeError ''vector-to-bytes element is not an integer'') (value_to_u128 h e))
            byte_of) es
      | VAligned av \<Rightarrow>
          if length (al_value av) = len
          then traverse (\<lambda>a. if 1 < length a then Err (TypeError ''vector-to-bytes element atom exceeds 255'')
            else Ok (case a of b # bs \<Rightarrow> b | [] \<Rightarrow> 0)) (al_value av)
          else Err (TypeError ''expected a Vector of bytes'')
      | _ \<Rightarrow> Err (TypeError ''expected a Vector of bytes''))"

definition bytes_slice :: "('fr, 'ff, 'pt) fab_host \<Rightarrow> runtime_value \<Rightarrow> ty \<Rightarrow> nat \<Rightarrow> nat \<Rightarrow> runtime_value run" where
  "bytes_slice h v t start len =
     (case resolved t of
        TyBytes n \<Rightarrow>
          rbind (ir_length n) (\<lambda>width.
            if width < len \<or> width - len < start then Err (TypeError ''slice out of bounds'')
            else rbind (padded_bytes v width) (\<lambda>bs.
              rmap VAligned (bytes_aligned_value h (take len (drop start bs)) len)))
      | _ \<Rightarrow> Err (TypeError ''byte slice has non-bytes operand type''))"

definition field_to_bytes ::
  "('fr, 'ff, 'pt) fab_host \<Rightarrow> runtime_value \<Rightarrow> nat \<Rightarrow> field_type \<Rightarrow> runtime_value run" where
  "field_to_bytes h v len f =
     (case foreign_of f of
        Some ff \<Rightarrow>
          rbind (foreign_to_le_bytes h ff v) (\<lambda>bs.
            rmap VAligned (rmap_err (\<lambda>e. TypeError ''range error'') (bytes_aligned_value h bs len)))
      | None \<Rightarrow>
          rbind (ok_or (TypeError ''field-to-bytes expects a Field value'') (value_to_fr h v)) (\<lambda>fr.
            rmap VAligned (rmap_err (\<lambda>e. TypeError ''range error'') (bytes_aligned_value h (fh_fr_le h fr) len))))"

section \<open>Fields of structs\<close>

fun is_truthy :: "runtime_value \<Rightarrow> bool" where
  "is_truthy (VBool b) = b"
| "is_truthy (VInteger n) = (n \<noteq> 0)"
| "is_truthy VVoid = False"
| "is_truthy (VAligned av) = (\<not> list_all (list_all (\<lambda>b. b = 0)) (al_value av))"
| "is_truthy (VStruct fs) = True"
| "is_truthy (VTuple es) = True"

definition variant_field_slice :: "(string \<times> ty) list \<Rightarrow> aligned \<Rightarrow> string \<Rightarrow> (nat \<times> nat) option" where
  "variant_field_slice fs av f =
     (case layout_from_fields fs of None \<Rightarrow> None | Some layout \<Rightarrow>
     (case field_slice layout ''is_left'' of None \<Rightarrow> None | Some (disc, dlen) \<Rightarrow>
     (case field_slice layout ''left'' of None \<Rightarrow> None | Some (left_off, l1) \<Rightarrow>
     (case field_slice layout ''right'' of None \<Rightarrow> None | Some (right_off, l2) \<Rightarrow>
     (case slice_atoms av disc (disc + dlen) of None \<Rightarrow> None | Some d \<Rightarrow>
       (let (variant, off) = (if is_truthy (VAligned d) then (''left'', left_off) else (''right'', right_off)) in
        case map_of fs variant of None \<Rightarrow> None | Some t \<Rightarrow>
          (case resolved t of
             TyStruct name vfs \<Rightarrow>
               (case layout_from_fields vfs of None \<Rightarrow> None | Some vlayout \<Rightarrow>
                  map_option (\<lambda>(o', l). (off + o', l)) (field_slice vlayout f))
           | _ \<Rightarrow> None)))))))"

definition either_variant_field_slice :: "(string \<times> ty) list \<Rightarrow> aligned \<Rightarrow> string \<Rightarrow> (nat \<times> nat) run" where
  "either_variant_field_slice fs av f =
     ok_or (TypeError ''no such field on the live Either variant'') (variant_field_slice fs av f)"

definition field_of :: "runtime_value \<Rightarrow> ty option \<Rightarrow> string \<Rightarrow> runtime_value run" where
  "field_of v receiver elt =
     (case v of
        VStruct fs \<Rightarrow> ok_or (TypeError ''struct has no such field'') (map_of fs elt)
      | VAligned av \<Rightarrow>
          (case map_option resolved receiver of
             Some (TyStruct name fs) \<Rightarrow>
               rbind (ok_or (TypeError ''cannot compute the layout'') (layout_from_fields fs)) (\<lambda>layout.
               rbind (case field_slice layout elt of Some s \<Rightarrow> Ok s | None \<Rightarrow> either_variant_field_slice fs av elt)
                 (\<lambda>(offset, len). rmap VAligned
                   (ok_or (TypeError ''field of a value without one alignment atom per value atom'')
                     (slice_atoms av offset (offset + len)))))
           | _ \<Rightarrow> Err (TypeError ''field access on a value of unknown receiver type''))
      | _ \<Rightarrow> Err (TypeError ''field access on value''))"

section \<open>Arithmetic and comparison\<close>

definition uint_op :: "arith_op \<Rightarrow> u128 \<Rightarrow> u128 \<Rightarrow> u128 run" where
  "uint_op op l r =
     (case op of
        ArAdd \<Rightarrow> ok_or uint_above_u128 (u128_of_nat (unat l + unat r))
      | ArMul \<Rightarrow> ok_or uint_above_u128 (u128_of_nat (unat l * unat r))
      | ArSub \<Rightarrow> if unat r \<le> unat l then Ok (l - r) else Err (TypeError ''the Uint result is negative''))"

definition arith_values ::
  "('fr, 'ff, 'pt) fab_host \<Rightarrow> ty \<Rightarrow> arith_op \<Rightarrow> runtime_value \<Rightarrow> runtime_value \<Rightarrow> runtime_value run" where
  "arith_values h t op lv rv =
     (case resolved t of
        TyField f \<Rightarrow>
          (case foreign_of f of
             Some ff \<Rightarrow> foreign_arith h ff op lv rv
           | None \<Rightarrow>
               rbind (ok_or (TypeError ''expected a Field operand'') (value_to_fr h lv)) (\<lambda>l.
               rbind (ok_or (TypeError ''expected a Field operand'') (value_to_fr h rv)) (\<lambda>r.
               Ok (VAligned (fh_fr_aligned h (fh_fr_op h op l r))))))
      | TyUnsigned m \<Rightarrow>
          rbind (ok_or (TypeError ''expected a Uint operand'') (value_to_u128 h lv)) (\<lambda>l.
          rbind (ok_or (TypeError ''expected a Uint operand'') (value_to_u128 h rv)) (\<lambda>r.
          rmap VInteger (uint_op op l r)))
      | _ \<Rightarrow> Err (TypeError ''arithmetic on a value of another type''))"

definition values_equal ::
  "('fr, 'ff, 'pt) fab_host \<Rightarrow> runtime_value \<Rightarrow> runtime_value \<Rightarrow> ty \<Rightarrow> bool run" where
  "values_equal h a b t =
     rbind (encode_typed h a t) (\<lambda>x. rbind (encode_typed h b t) (\<lambda>y. Ok (al_value x = al_value y)))"

definition enum_index :: "ty \<Rightarrow> string \<Rightarrow> runtime_value run" where
  "enum_index t elt =
     (case t of
        TyEnum name variants \<Rightarrow>
          if elt \<in> set variants
          then Ok (VInteger (of_nat (length (takeWhile (\<lambda>v. v \<noteq> elt) variants))))
          else Err (TypeError ''enum has no such member'')
      | _ \<Rightarrow> Err (TypeError ''enum-member has non-enum type''))"

end
