(* ===== verification/InterpEval.thy ===== *)
theory InterpEval
  imports Interp
begin

text \<open>
  The evaluator of the circuit interpreter: the context that a run threads through its
  evaluation, the VM operations that it builds and gathers, and one equation per node of the IR.
  The evaluation of a sub-expression is an argument of each definition; \<open>eval_fuel\<close> closes the
  recursion with a bound on its depth, since a circuit of a program can call itself.
\<close>

section \<open>VM operations\<close>

datatype vm_value =
    VmNull
  | VmCell aligned
  | VmArray "vm_value list"
  | VmMap "(aligned \<times> vm_value) list"
  | VmBlankTree u8

text \<open>
  An operation carries the result of a \<^verbatim>\<open>popeq\<close>, of the type of the result mode: nothing
  when the operations are gathered, the value read when they are verified.
\<close>

datatype vm_key = KeyStack | KeyValue aligned

datatype 'r vm_op =
    VoIdx bool bool "vm_key list"
  | VoPush bool vm_value
  | VoAddi u32
  | VoSubi u32
  | VoIns bool u8
  | VoDup u8
  | VoSwap u8
  | VoPopeq bool 'r
  | VoRem bool
  | VoNoop u32
  | VoBranch u32
  | VoJmp u32
  | VoConcat bool u32
  | VoMember | VoRoot | VoEq | VoLt | VoCkpt | VoNeg | VoAdd | VoPop | VoSize | VoType | VoLog

text \<open>The events of a query; a log item is the VM's own.\<close>

datatype 'l gather_event = EvRead aligned | EvLog 'l

section \<open>The context of a run\<close>

text \<open>The parts of a contract state that a run reads: the data of the VM and the balance.\<close>

record ('d, 'b) contract_state =
  cs_data :: 'd
  cs_balance :: 'b

record 'b call_context =
  cc_own_address :: bytes
  cc_tblock :: u64
  cc_balance :: 'b

record ('d, 'b, 'l) exec_context =
  ec_state :: "('d, 'b) contract_state"
  ec_locals :: "string \<rightharpoonup> runtime_value"
  ec_local_types :: type_env
  ec_reads :: "aligned list"
  ec_gather_ops :: "unit vm_op list"
  ec_private_outputs :: "aligned list"
  ec_zswap_outputs :: "(runtime_value \<times> runtime_value) list"
  ec_zswap_inputs :: "runtime_value list"
  ec_logs :: "'l list"
  ec_private_state :: bytes

text \<open>
  What stays the same during a run: the host crates, the VM, the program, and the fields of the
  context that no step assigns.
\<close>

record ('fr, 'ff, 'pt, 'd, 'b, 'l) machine =
  mc_fab :: "('fr, 'ff, 'pt) fab_host"
  mc_crypto :: "('fr, 'ff, 'pt) crypto_host"
  mc_query :: "'d \<Rightarrow> 'b call_context \<Rightarrow> unit vm_op list \<Rightarrow> ('l gather_event list \<times> 'd) option"
  mc_program :: program
  mc_witnesses :: "witness_provider option"
  mc_call_context :: "'b call_context"
  mc_has_address :: bool
  mc_coin_public_key :: "bytes option"

type_synonym ('d, 'b, 'l, 'a) step = "(('d, 'b, 'l) exec_context, interp_error, 'a) sm"

type_synonym ('d, 'b, 'l) evaluator = "expr \<Rightarrow> ('d, 'b, 'l, runtime_value) step"

text \<open>A loop that threads a value: \<^verbatim>\<open>for x in xs { acc = f(acc, x)? }\<close>.\<close>

fun sfold :: "('a \<Rightarrow> 'x \<Rightarrow> ('s, 'e, 'a) sm) \<Rightarrow> 'x list \<Rightarrow> 'a \<Rightarrow> ('s, 'e, 'a) sm" where
  "sfold f [] acc = sret acc"
| "sfold f (x # xs) acc = sbind (f acc x) (sfold f xs)"

lemma straverse_cong [fundef_cong]:
  assumes "xs = ys" "\<And>x. x \<in> set ys \<Longrightarrow> f x = g x"
  shows "straverse f xs = straverse g ys"
  using assms by (induction xs arbitrary: ys) auto

section \<open>Operands\<close>

datatype vm_arg =
    ArgInt int
  | ArgBool bool
  | ArgStr
  | ArgNull
  | ArgLiteral nat u64
  | ArgStack
  | ArgExpr expr
  | ArgState
  | ArgVm "expr operand"
  | ArgList

fun reduce_operand :: "expr operand \<Rightarrow> vm_arg" where
  "reduce_operand (OInt n) = ArgInt n"
| "reduce_operand (OBool b) = ArgBool b"
| "reduce_operand (OStr s) = ArgStr"
| "reduce_operand (OAlign n b) = ArgLiteral n b"
| "reduce_operand OStack = ArgStack"
| "reduce_operand OVoid = ArgNull"
| "reduce_operand (OValueToInt inner) = reduce_operand inner"
| "reduce_operand (OStateValue (SvCell inner)) = reduce_operand inner"
| "reduce_operand (OStateValue (SvAdt inner t)) = reduce_operand inner"
| "reduce_operand (OStateValue SvNull) = ArgNull"
| "reduce_operand (OStateValue (SvArray es)) = ArgState"
| "reduce_operand (OStateValue (SvMap kvs)) = ArgState"
| "reduce_operand (OStateValue (SvMerkleTree d es)) = ArgState"
| "reduce_operand (ONull t) = ArgVm (ONull t)"
| "reduce_operand (OMaxSizeof t) = ArgVm (OMaxSizeof t)"
| "reduce_operand (OAdd l r) = ArgVm (OAdd l r)"
| "reduce_operand (OLeafHash x) = ArgVm (OLeafHash x)"
| "reduce_operand (OCoinCommit x y) = ArgVm (OCoinCommit x y)"
| "reduce_operand (OAlignedConcat xs) = ArgVm (OAlignedConcat xs)"
| "reduce_operand (OExpr e) = ArgExpr e"
| "reduce_operand (OList xs) = ArgList"

definition flag :: "expr operand instruction \<Rightarrow> string \<Rightarrow> bool" where
  "flag i name = (case instruction_arg i name of Some (OBool True) \<Rightarrow> True | _ \<Rightarrow> False)"

definition operand_arg :: "expr operand instruction \<Rightarrow> string \<Rightarrow> expr operand run" where
  "operand_arg i name = ok_or (TypeError ''missing operand'') (instruction_arg i name)"

definition max_sizeof :: "('fr, 'ff, 'pt) fab_host \<Rightarrow> ty \<Rightarrow> u64 run" where
  "max_sizeof h t =
     rbind (default_value h t) (\<lambda>v. rbind (encode_typed h v t) (\<lambda>av.
       let n = fh_max_aligned_size h (al_alignment av) in
       if n < 2 ^ 64 then Ok (of_nat n) else Err (TypeError ''max-sizeof does not fit a u64'')))"

fun count_operand :: "('fr, 'ff, 'pt) fab_host \<Rightarrow> expr operand \<Rightarrow> u64 run" where
  "count_operand h (OInt n) =
     (if 0 \<le> n \<and> n < 2 ^ 64 then Ok (of_int n) else Err (TypeError ''operand out of range''))"
| "count_operand h (OMaxSizeof t) = max_sizeof h t"
| "count_operand h (OAdd l r) =
     rbind (count_operand h l) (\<lambda>a. rbind (count_operand h r) (\<lambda>b.
       if unat a + unat b < 2 ^ 64 then Ok (a + b) else Err (TypeError ''operand out of range'')))"
| "count_operand h other = Err (TypeError ''operand is not a count'')"

definition u64_arg :: "('fr, 'ff, 'pt) fab_host \<Rightarrow> expr operand instruction \<Rightarrow> string \<Rightarrow> u64 run" where
  "u64_arg h i name = rbind (operand_arg i name) (count_operand h)"

definition u8_arg :: "('fr, 'ff, 'pt) fab_host \<Rightarrow> expr operand instruction \<Rightarrow> string \<Rightarrow> u8 run" where
  "u8_arg h i name =
     rbind (u64_arg h i name) (\<lambda>n.
       if unat n < 256 then Ok (ucast n) else Err (TypeError ''operand out of u8 range''))"

definition u32_arg :: "('fr, 'ff, 'pt) fab_host \<Rightarrow> expr operand instruction \<Rightarrow> string \<Rightarrow> u32 run" where
  "u32_arg h i name =
     rbind (u64_arg h i name) (\<lambda>n.
       if unat n < 2 ^ 32 then Ok (ucast n) else Err (TypeError ''operand out of u32 range''))"

text \<open>\<^verbatim>\<open>u8_arg(i, "n").unwrap_or(0)\<close>.\<close>

definition u8_arg_or_0 :: "('fr, 'ff, 'pt) fab_host \<Rightarrow> expr operand instruction \<Rightarrow> string \<Rightarrow> u8" where
  "u8_arg_or_0 h i name = (case u8_arg h i name of Ok n \<Rightarrow> n | _ \<Rightarrow> 0)"

text \<open>\<^verbatim>\<open>8 * bytes\<close> overflows for a width of \<open>2\<^sup>6\<^sup>1\<close> bytes or more: a panic of a debug build.\<close>

definition max_for_bytes :: "u64 \<Rightarrow> nat run" where
  "max_for_bytes n = (if 8 * unat n < 2 ^ 64 then Ok (2 ^ (8 * unat n) - 1) else Panic)"

definition literal_key :: "('fr, 'ff, 'pt) fab_host \<Rightarrow> nat \<Rightarrow> u64 \<Rightarrow> aligned run" where
  "literal_key h n width =
     rbind (ok_or (TypeError ''invalid integer path literal'') (u128_of_nat n)) (\<lambda>k.
     rbind (max_for_bytes width) (\<lambda>m. encode_typed h (VInteger k) (TyUnsigned m)))"

section \<open>Operands that are evaluated\<close>

definition sinfer :: "('fr, 'ff, 'pt, 'd, 'b, 'l) machine \<Rightarrow> expr \<Rightarrow> ('d, 'b, 'l, ty option) step" where
  "sinfer M e = sget (\<lambda>c. infer_type (mc_program M) (ec_local_types c) e)"

text \<open>The encoding of an expression: its type is inferred before it is evaluated.\<close>

definition expr_aligned ::
  "('fr, 'ff, 'pt, 'd, 'b, 'l) machine \<Rightarrow> ('d, 'b, 'l) evaluator \<Rightarrow> expr \<Rightarrow> ('d, 'b, 'l, aligned) step" where
  "expr_aligned M ev e =
     sbind (sinfer M e) (\<lambda>inferred.
     sbind (ev e) (\<lambda>v. slift
       (case (v, inferred) of
          (VInteger n, Some t) \<Rightarrow> encode_typed (mc_fab M) v t
        | (VStruct fs, Some t) \<Rightarrow> encode_typed (mc_fab M) v t
        | (VTuple es, Some t) \<Rightarrow> encode_typed (mc_fab M) v t
        | (VTuple es, None) \<Rightarrow> Err (Unsupported ''aligned encoding without a declared type'')
        | _ \<Rightarrow> try_to_aligned_value (mc_fab M) v)))"

text \<open>
  \<^verbatim>\<open>operand_aligned\<close> with the reduction of the wrappers (\<open>reduce_operand\<close>) as a recursive call.
\<close>

fun operand_aligned ::
  "('fr, 'ff, 'pt, 'd, 'b, 'l) machine \<Rightarrow> ('d, 'b, 'l) evaluator \<Rightarrow> expr operand \<Rightarrow> ('d, 'b, 'l, aligned) step" where
  "operand_aligned M ev (OValueToInt inner) = operand_aligned M ev inner"
| "operand_aligned M ev (OStateValue (SvCell inner)) = operand_aligned M ev inner"
| "operand_aligned M ev (OStateValue (SvAdt inner t)) = operand_aligned M ev inner"
| "operand_aligned M ev (OExpr e) = expr_aligned M ev e"
| "operand_aligned M ev (OAlign n width) = slift (literal_key (mc_fab M) n width)"
| "operand_aligned M ev (OInt n) =
     slift (if 0 \<le> n \<and> n < 2 ^ 64 then Ok (fh_u64 (mc_fab M) (of_int n))
       else Err (TypeError ''push integer out of u64 range''))"
| "operand_aligned M ev (OBool b) = sret (fh_bool (mc_fab M) b)"
| "operand_aligned M ev (ONull t) =
     slift (rbind (default_value (mc_fab M) t) (\<lambda>v. encode_typed (mc_fab M) v t))"
| "operand_aligned M ev (OLeafHash inner) =
     sbind (operand_aligned M ev inner) (\<lambda>av. sret (merkle_leaf_hash (mc_fab M) av))"
| "operand_aligned M ev (OAlignedConcat parts) =
     sbind (straverse (operand_aligned M ev) parts) (\<lambda>avs. sret (fh_concat (mc_fab M) avs))"
| "operand_aligned M ev other = sfail (Unsupported ''push of an operand'')"

definition path_key ::
  "('fr, 'ff, 'pt, 'd, 'b, 'l) machine \<Rightarrow> ('d, 'b, 'l) evaluator \<Rightarrow> expr operand \<Rightarrow> ('d, 'b, 'l, vm_key) step" where
  "path_key M ev entry =
     (case entry of
        OStack \<Rightarrow> sret KeyStack
      | OAlign n width \<Rightarrow> sbind (operand_aligned M ev entry) (\<lambda>av. sret (KeyValue av))
      | OExpr e \<Rightarrow> sbind (operand_aligned M ev entry) (\<lambda>av. sret (KeyValue av))
      | _ \<Rightarrow> sfail (Unsupported ''path element''))"

text \<open>The pushes that reduce to a scalar.\<close>

definition push_scalar ::
  "('fr, 'ff, 'pt, 'd, 'b, 'l) machine \<Rightarrow> ('d, 'b, 'l) evaluator \<Rightarrow> expr operand \<Rightarrow> ('d, 'b, 'l, vm_value) step" where
  "push_scalar M ev x =
     (case reduce_operand x of
        ArgNull \<Rightarrow> sret VmNull
      | ArgStack \<Rightarrow> sret VmNull
      | _ \<Rightarrow> sbind (operand_aligned M ev x) (\<lambda>av. sret (VmCell av)))"

text \<open>The ADT whose default an operand pushes.\<close>

definition pushed_default :: "expr operand \<Rightarrow> ty \<Rightarrow> string option" where
  "pushed_default inner t =
     (case (inner, t) of (OExpr (EDefault u), TyAdt name as) \<Rightarrow> Some name | _ \<Rightarrow> None)"

fun push_value ::
  "('fr, 'ff, 'pt, 'd, 'b, 'l) machine \<Rightarrow> ('d, 'b, 'l) evaluator \<Rightarrow> expr operand \<Rightarrow> ('d, 'b, 'l, vm_value) step" where
  "push_value M ev (OStateValue (SvArray es)) =
     sbind (straverse (push_value M ev) es) (\<lambda>vs. sret (VmArray vs))"
| "push_value M ev (OStateValue (SvMap kvs)) =
     sbind (straverse (\<lambda>(k, v). sbind (operand_aligned M ev k) (\<lambda>a.
         sbind (push_value M ev v) (\<lambda>w. sret (a, w)))) kvs)
       (\<lambda>entries. sret (VmMap (fold (\<lambda>(a, w). AList.update a w) entries [])))"
| "push_value M ev (OStateValue (SvMerkleTree depth entries)) =
     (if entries \<noteq> [] then sfail (Unsupported ''push of a Merkle tree carrying initial entries'')
      else if unat depth < 256 then sret (VmBlankTree (ucast depth))
      else sfail (TypeError ''Merkle tree depth exceeds a u8''))"
| "push_value M ev (OStateValue (SvAdt inner t)) =
     (case pushed_default inner t of
        Some name \<Rightarrow>
          if name = ''Map'' then sret (VmMap []) else sfail (Unsupported ''push of the default of ADT'')
      | None \<Rightarrow> push_scalar M ev (OStateValue (SvAdt inner t)))"
| "push_value M ev other = push_scalar M ev other"

definition resolve_immediate ::
  "('d, 'b, 'l) evaluator \<Rightarrow> expr operand \<Rightarrow> ('d, 'b, 'l, u32) step" where
  "resolve_immediate ev x =
     (case reduce_operand x of
        ArgInt n \<Rightarrow> slift (if 0 \<le> n \<and> n < 2 ^ 32 then Ok (of_int n)
          else Err (TypeError ''immediate out of u32 range''))
      | ArgExpr e \<Rightarrow> sbind (ev e) (\<lambda>v. slift (ok_or (TypeError ''immediate is not u32'') (value_as_u32 v)))
      | _ \<Rightarrow> sfail (TypeError ''cannot resolve an immediate''))"

text \<open>The instructions without an operand.\<close>

fun plain_op :: "op_name \<Rightarrow> unit vm_op option" where
  "plain_op OpMember = Some VoMember"
| "plain_op OpRoot = Some VoRoot"
| "plain_op OpEq = Some VoEq"
| "plain_op OpLt = Some VoLt"
| "plain_op OpCkpt = Some VoCkpt"
| "plain_op OpNeg = Some VoNeg"
| "plain_op OpAdd = Some VoAdd"
| "plain_op OpPop = Some VoPop"
| "plain_op OpSize = Some VoSize"
| "plain_op OpType = Some VoType"
| "plain_op OpLog = Some VoLog"
| "plain_op other = None"

definition build_op ::
  "('fr, 'ff, 'pt, 'd, 'b, 'l) machine \<Rightarrow> ('d, 'b, 'l) evaluator \<Rightarrow> expr operand instruction \<Rightarrow>
   ('d, 'b, 'l, unit vm_op) step" where
  "build_op M ev i =
     (case ins_op i of
        OpIdx \<Rightarrow>
          (case instruction_arg i ''path'' of
             Some (OList path) \<Rightarrow>
               sbind (straverse (path_key M ev) path) (\<lambda>keys.
                 sret (VoIdx (flag i ''cached'') (flag i ''pushPath'') keys))
           | _ \<Rightarrow> sfail (Unsupported ''idx without a path list''))
      | OpPush \<Rightarrow>
          sbind (slift (operand_arg i ''value'')) (\<lambda>x.
          sbind (push_value M ev x) (\<lambda>v. sret (VoPush (flag i ''storage'') v)))
      | OpAddi \<Rightarrow>
          sbind (slift (operand_arg i ''immediate'')) (\<lambda>x.
          sbind (resolve_immediate ev x) (\<lambda>n. sret (VoAddi n)))
      | OpSubi \<Rightarrow>
          sbind (slift (operand_arg i ''immediate'')) (\<lambda>x.
          sbind (resolve_immediate ev x) (\<lambda>n. sret (VoSubi n)))
      | OpIns \<Rightarrow> sbind (slift (u8_arg (mc_fab M) i ''n'')) (\<lambda>n. sret (VoIns (flag i ''cached'') n))
      | OpDup \<Rightarrow> sret (VoDup (u8_arg_or_0 (mc_fab M) i ''n''))
      | OpSwap \<Rightarrow> sret (VoSwap (u8_arg_or_0 (mc_fab M) i ''n''))
      | OpPopeq \<Rightarrow> sret (VoPopeq (flag i ''cached'') ())
      | OpRem \<Rightarrow> sret (VoRem (flag i ''cached''))
      | OpNoop \<Rightarrow> sbind (slift (u32_arg (mc_fab M) i ''n'')) (\<lambda>n. sret (VoNoop n))
      | OpBranch \<Rightarrow> sbind (slift (u32_arg (mc_fab M) i ''skip'')) (\<lambda>n. sret (VoBranch n))
      | OpJmp \<Rightarrow> sbind (slift (u32_arg (mc_fab M) i ''skip'')) (\<lambda>n. sret (VoJmp n))
      | OpConcat \<Rightarrow> sbind (slift (u32_arg (mc_fab M) i ''n'')) (\<lambda>n. sret (VoConcat (flag i ''cached'') n))
      | op \<Rightarrow> (case plain_op op of Some x \<Rightarrow> sret x | None \<Rightarrow> sfail (Unsupported ''VM instruction'')))"

section \<open>Ledger queries\<close>

definition event_reads :: "'l gather_event list \<Rightarrow> aligned list" where
  "event_reads es = List.map_filter (\<lambda>e. case e of EvRead av \<Rightarrow> Some av | EvLog l \<Rightarrow> None) es"

definition event_logs :: "'l gather_event list \<Rightarrow> 'l list" where
  "event_logs es = List.map_filter (\<lambda>e. case e of EvRead av \<Rightarrow> None | EvLog l \<Rightarrow> Some l) es"

definition run_query ::
  "('fr, 'ff, 'pt, 'd, 'b, 'l) machine \<Rightarrow> unit vm_op list \<Rightarrow> ('d, 'b, 'l, runtime_value) step" where
  "run_query M ops =
     sbind (smodify (\<lambda>c. c\<lparr>ec_gather_ops := ec_gather_ops c @ ops\<rparr>)) (\<lambda>_.
     sbind (sget (\<lambda>c. mc_query M (cs_data (ec_state c)) (mc_call_context M) ops)) (\<lambda>res.
     case res of
       None \<Rightarrow> sfail (LedgerQueryFailed ''query'')
     | Some (events, data) \<Rightarrow>
         sbind (smodify (\<lambda>c. c\<lparr>ec_logs := ec_logs c @ event_logs events,
             ec_state := (ec_state c)\<lparr>cs_data := data\<rparr>,
             ec_reads := ec_reads c @ event_reads events\<rparr>)) (\<lambda>_.
           sret (if event_reads events = [] then VVoid else VAligned (last (event_reads events))))))"

definition exec_ledger_query ::
  "('fr, 'ff, 'pt, 'd, 'b, 'l) machine \<Rightarrow> ('d, 'b, 'l) evaluator \<Rightarrow> expr operand instruction list \<Rightarrow>
   ('d, 'b, 'l, runtime_value) step" where
  "exec_ledger_query M ev ins = sbind (straverse (build_op M ev) ins) (run_query M)"

section \<open>Calls\<close>

definition bind_local :: "argument \<Rightarrow> runtime_value \<Rightarrow> ty \<Rightarrow> ('d, 'b, 'l) exec_context \<Rightarrow> ('d, 'b, 'l) exec_context" where
  "bind_local a v t c =
     c\<lparr>ec_locals := (ec_locals c)(arg_name a \<mapsto> v), ec_local_types := (ec_local_types c)(arg_name a \<mapsto> t)\<rparr>"

text \<open>The callee runs with its parameters bound over the locals, which come back on every outcome.\<close>

definition with_parameters ::
  "(argument \<times> runtime_value) list \<Rightarrow> ('d, 'b, 'l, 'a) step \<Rightarrow> ('d, 'b, 'l, 'a) step" where
  "with_parameters ps m = (\<lambda>c.
     case m (fold (\<lambda>(a, v). bind_local a v (arg_ty a)) ps c) of
       (r, c') \<Rightarrow> (r, c'\<lparr>ec_locals := ec_locals c, ec_local_types := ec_local_types c\<rparr>))"

definition call_circuit ::
  "('d, 'b, 'l) evaluator \<Rightarrow> argument list \<Rightarrow> expr \<Rightarrow> runtime_value list \<Rightarrow> ('d, 'b, 'l, runtime_value) step" where
  "call_circuit ev params body args =
     (if length params \<noteq> length args then sfail (TypeError ''callee takes another number of parameters'')
      else sbind (slift (try_each (\<lambda>p. check_run_type (arg_ty p)) params)) (\<lambda>_.
        with_parameters (zip params args) (ev body)))"

definition eval_pure_call ::
  "('fr, 'ff, 'pt, 'd, 'b, 'l) machine \<Rightarrow> ident \<Rightarrow> runtime_value list \<Rightarrow> ('d, 'b, 'l, runtime_value) step" where
  "eval_pure_call M i vs =
     slift (case try_builtin_typed (mc_fab M) (mc_crypto M) (runtime_name (mc_program M) i) vs
         (argument_types (mc_program M) i) of
       Some r \<Rightarrow> r
     | None \<Rightarrow> Err (Unsupported ''unknown pure function''))"

definition push_private :: "aligned \<Rightarrow> ('d, 'b, 'l, unit) step" where
  "push_private av = smodify (\<lambda>c. c\<lparr>ec_private_outputs := ec_private_outputs c @ [av]\<rparr>)"

definition eval_witness_native ::
  "('fr, 'ff, 'pt, 'd, 'b, 'l) machine \<Rightarrow> witness_native \<Rightarrow> runtime_value list \<Rightarrow> ('d, 'b, 'l, runtime_value) step" where
  "eval_witness_native M n vs =
     (case n of
        CreateZswapOutput \<Rightarrow>
          (case vs of
             coin # recipient # rest \<Rightarrow>
               sbind (smodify (\<lambda>c. c\<lparr>ec_zswap_outputs := ec_zswap_outputs c @ [(coin, recipient)]\<rparr>)) (\<lambda>_. sret VVoid)
           | _ \<Rightarrow> sfail (TypeError ''createZswapOutput expects (coin, recipient) arguments''))
      | CreateZswapInput \<Rightarrow>
          (case vs of
             coin # rest \<Rightarrow>
               sbind (smodify (\<lambda>c. c\<lparr>ec_zswap_inputs := ec_zswap_inputs c @ [coin]\<rparr>)) (\<lambda>_. sret VVoid)
           | [] \<Rightarrow> sfail (TypeError ''createZswapInput expects a (coin) argument''))
      | OwnPublicKey \<Rightarrow>
          (case mc_coin_public_key M of
             None \<Rightarrow> sfail (WitnessError ''ownPublicKey needs the callers coin public key'')
           | Some key \<Rightarrow>
               let av = fh_array (mc_fab M) key in
               sbind (push_private av) (\<lambda>_. sret (VAligned av))))"

text \<open>A witness call leaves the private state that the provider leaves, also when it fails.\<close>

definition call_provider ::
  "witness_provider \<Rightarrow> string \<Rightarrow> runtime_value list \<Rightarrow> ('d, 'b, 'l, runtime_value option) step" where
  "call_provider w name vs = (\<lambda>c.
     case w (ec_private_state c) name vs of
       (Inl e, st) \<Rightarrow> (Err e, c\<lparr>ec_private_state := st\<rparr>)
     | (Inr v, st) \<Rightarrow> (Ok v, c\<lparr>ec_private_state := st\<rparr>))"

definition eval_witness_call ::
  "('fr, 'ff, 'pt, 'd, 'b, 'l) machine \<Rightarrow> ident \<Rightarrow> runtime_value list \<Rightarrow> ('d, 'b, 'l, runtime_value) step" where
  "eval_witness_call M i vs =
     (let name = runtime_name (mc_program M) i in
      case witness_native_from_name name of
        Some n \<Rightarrow> eval_witness_native M n vs
      | None \<Rightarrow>
          (case mc_witnesses M of
             None \<Rightarrow> sfail (WitnessError name)
           | Some w \<Rightarrow>
               sbind (call_provider w name vs) (\<lambda>out.
                 case out of
                   Some v \<Rightarrow>
                     sbind (slift (try_to_aligned_value (mc_fab M) v)) (\<lambda>av.
                     sbind (push_private av) (\<lambda>_. sret v))
                 | None \<Rightarrow> sfail (WitnessError name))))"

definition eval_call ::
  "('fr, 'ff, 'pt, 'd, 'b, 'l) machine \<Rightarrow> ('d, 'b, 'l) evaluator \<Rightarrow> ident \<Rightarrow> expr list \<Rightarrow>
   ('d, 'b, 'l, runtime_value) step" where
  "eval_call M ev i as =
     sbind (slift (case program_result_type (mc_program M) i of Some t \<Rightarrow> check_run_type t | None \<Rightarrow> Ok ())) (\<lambda>_.
     sbind (straverse ev as) (\<lambda>vs.
     case program_callee (mc_program M) i of
       CalleeCircuit c \<Rightarrow> call_circuit ev (cir_arguments c) (cir_body c) vs
     | CalleeWitness \<Rightarrow> eval_witness_call M i vs
     | CalleePure \<Rightarrow> eval_pure_call M i vs))"

section \<open>Nodes\<close>

definition eval_tuple_arg ::
  "('fr, 'ff, 'pt, 'd, 'b, 'l) machine \<Rightarrow> ('d, 'b, 'l) evaluator \<Rightarrow> expr tuple_arg \<Rightarrow>
   ('d, 'b, 'l, runtime_value list) step" where
  "eval_tuple_arg M ev a =
     (case a of
        Single e \<Rightarrow> sbind (ev e) (\<lambda>v. sret [v])
      | Spread len e \<Rightarrow>
          sbind (slift (ir_length len)) (\<lambda>n.
          sbind (sinfer M e) (\<lambda>t.
          sbind (ev e) (\<lambda>v. slift (splice_spread v t n)))))"

definition eval_tuple ::
  "('fr, 'ff, 'pt, 'd, 'b, 'l) machine \<Rightarrow> ('d, 'b, 'l) evaluator \<Rightarrow> expr tuple_arg list \<Rightarrow>
   ('d, 'b, 'l, runtime_value) step" where
  "eval_tuple M ev as =
     sbind (straverse (eval_tuple_arg M ev) as) (\<lambda>vss.
       sret (if concat vss = [] then VVoid else VTuple (concat vss)))"

definition eval_binding ::
  "('fr, 'ff, 'pt, 'd, 'b, 'l) machine \<Rightarrow> ('d, 'b, 'l) evaluator \<Rightarrow> argument \<times> expr \<Rightarrow> ('d, 'b, 'l, unit) step" where
  "eval_binding M ev b =
     sbind (sinfer M (snd b)) (\<lambda>inferred.
     sbind (ev (snd b)) (\<lambda>v.
     smodify (bind_local (fst b) v (case inferred of Some t \<Rightarrow> t | None \<Rightarrow> arg_ty (fst b)))))"

definition eval_as_integer ::
  "('fr, 'ff, 'pt, 'd, 'b, 'l) machine \<Rightarrow> ('d, 'b, 'l) evaluator \<Rightarrow> expr \<Rightarrow> ('d, 'b, 'l, u128) step" where
  "eval_as_integer M ev e =
     sbind (ev e) (\<lambda>v. slift (ok_or (TypeError ''expected integer'') (value_to_u128 (mc_fab M) v)))"

definition eval_index ::
  "('fr, 'ff, 'pt, 'd, 'b, 'l) machine \<Rightarrow> ('d, 'b, 'l) evaluator \<Rightarrow> expr \<Rightarrow> ('d, 'b, 'l, nat) step" where
  "eval_index M ev e =
     sbind (eval_as_integer M ev e) (\<lambda>n. slift
       (ok_or (TypeError ''index does not fit in usize'') (usize_checked (unat n))))"

definition eval_compare ::
  "('fr, 'ff, 'pt, 'd, 'b, 'l) machine \<Rightarrow> ('d, 'b, 'l) evaluator \<Rightarrow> (u128 \<Rightarrow> u128 \<Rightarrow> bool) \<Rightarrow> expr \<Rightarrow> expr \<Rightarrow>
   ('d, 'b, 'l, runtime_value) step" where
  "eval_compare M ev cmp l r =
     sbind (eval_as_integer M ev l) (\<lambda>a. sbind (eval_as_integer M ev r) (\<lambda>b. sret (VBool (cmp a b))))"

definition eval_equal ::
  "('fr, 'ff, 'pt, 'd, 'b, 'l) machine \<Rightarrow> ('d, 'b, 'l) evaluator \<Rightarrow> ty \<Rightarrow> expr \<Rightarrow> expr \<Rightarrow> ('d, 'b, 'l, bool) step" where
  "eval_equal M ev t l r =
     sbind (ev l) (\<lambda>a. sbind (ev r) (\<lambda>b. slift (values_equal (mc_fab M) a b t)))"

definition eval_arith ::
  "('fr, 'ff, 'pt, 'd, 'b, 'l) machine \<Rightarrow> ('d, 'b, 'l) evaluator \<Rightarrow> ty \<Rightarrow> arith_op \<Rightarrow> expr \<Rightarrow> expr \<Rightarrow>
   ('d, 'b, 'l, runtime_value) step" where
  "eval_arith M ev t op l r =
     sbind (slift (check_run_type t)) (\<lambda>_.
     sbind (ev l) (\<lambda>a. sbind (ev r) (\<lambda>b. slift (arith_values (mc_fab M) t op a b))))"

definition apply_fun ::
  "('fr, 'ff, 'pt, 'd, 'b, 'l) machine \<Rightarrow> ('d, 'b, 'l) evaluator \<Rightarrow> expr ir_fun \<Rightarrow> runtime_value list \<Rightarrow>
   ('d, 'b, 'l, runtime_value) step" where
  "apply_fun M ev f args =
     (case f of
        FunRef i \<Rightarrow>
          (case pr_circuits (mc_program M) i of
             Some c \<Rightarrow> call_circuit ev (cir_arguments c) (cir_body c) args
           | None \<Rightarrow> sfail (TypeError ''loop calls what is not a circuit in the program''))
      | FunCircuit params t body \<Rightarrow> call_circuit ev params body args)"

text \<open>The arguments of iteration \<open>i\<close> of a loop.\<close>

definition loop_arguments :: "expr map_arg list \<Rightarrow> runtime_value list \<Rightarrow> nat \<Rightarrow> runtime_value list run" where
  "loop_arguments as vs i = traverse (\<lambda>(v, a). indexed_element v (Some (ma_ty a)) i) (zip vs as)"

definition eval_map ::
  "('fr, 'ff, 'pt, 'd, 'b, 'l) machine \<Rightarrow> ('d, 'b, 'l) evaluator \<Rightarrow> u64 \<Rightarrow> expr ir_fun \<Rightarrow> expr map_arg list \<Rightarrow>
   ('d, 'b, 'l, runtime_value) step" where
  "eval_map M ev len f as =
     sbind (straverse (\<lambda>a. ev (ma_expr a)) as) (\<lambda>vs.
     sbind (slift (ir_length len)) (\<lambda>n.
     sbind (straverse (\<lambda>i. sbind (slift (loop_arguments as vs i)) (apply_fun M ev f)) [0..<n])
       (\<lambda>out. sret (VTuple out))))"

definition eval_fold ::
  "('fr, 'ff, 'pt, 'd, 'b, 'l) machine \<Rightarrow> ('d, 'b, 'l) evaluator \<Rightarrow> u64 \<Rightarrow> expr ir_fun \<Rightarrow> expr \<Rightarrow> expr map_arg list \<Rightarrow>
   ('d, 'b, 'l, runtime_value) step" where
  "eval_fold M ev len f init as =
     sbind (ev init) (\<lambda>v0.
     sbind (straverse (\<lambda>a. ev (ma_expr a)) as) (\<lambda>vs.
     sbind (slift (ir_length len)) (\<lambda>n.
     sfold (\<lambda>acc i. sbind (slift (loop_arguments as vs i)) (\<lambda>args. apply_fun M ev f (acc # args))) [0..<n] v0)))"

definition eval_new ::
  "('fr, 'ff, 'pt, 'd, 'b, 'l) machine \<Rightarrow> ('d, 'b, 'l) evaluator \<Rightarrow> ty \<Rightarrow> expr list \<Rightarrow> ('d, 'b, 'l, runtime_value) step" where
  "eval_new M ev t es =
     sbind (slift (check_run_type t)) (\<lambda>_.
     case t of
       TyStruct name fs \<Rightarrow>
         if length fs \<noteq> length es then sfail (TypeError ''new expects another number of fields'')
         else sbind (straverse ev es) (\<lambda>vs. slift (rmap VAligned (encode_typed (mc_fab M) (VTuple vs) t)))
     | _ \<Rightarrow> sfail (TypeError ''new op with non-struct type''))"

definition eval_cast_node ::
  "('fr, 'ff, 'pt, 'd, 'b, 'l) machine \<Rightarrow> ('d, 'b, 'l) evaluator \<Rightarrow> unit run \<Rightarrow> ty \<Rightarrow> ty \<Rightarrow> expr \<Rightarrow>
   ('d, 'b, 'l, runtime_value) step" where
  "eval_cast_node M ev check from_ty to_ty e =
     sbind (slift check) (\<lambda>_. sbind (ev e) (\<lambda>v. slift (eval_cast (mc_fab M) v from_ty to_ty)))"

definition check_both :: "ty \<Rightarrow> ty \<Rightarrow> unit run" where
  "check_both to_ty from_ty = rbind (check_run_type to_ty) (\<lambda>_. check_run_type from_ty)"

definition check_to_field :: "field_type \<Rightarrow> ty \<Rightarrow> unit run" where
  "check_to_field f from_ty =
     rbind (check_run_type from_ty) (\<lambda>_.
     rbind (refuse_foreign_cast f) (\<lambda>_.
     case resolved from_ty of TyField g \<Rightarrow> refuse_foreign_cast g | _ \<Rightarrow> Ok ()))"

text \<open>An operand, then an index expression, then what is taken from the operand.\<close>

definition eval_at ::
  "('fr, 'ff, 'pt, 'd, 'b, 'l) machine \<Rightarrow> ('d, 'b, 'l) evaluator \<Rightarrow> expr \<Rightarrow> expr \<Rightarrow>
   (runtime_value \<Rightarrow> nat \<Rightarrow> runtime_value run) \<Rightarrow> ('d, 'b, 'l, runtime_value) step" where
  "eval_at M ev e i take_at =
     sbind (ev e) (\<lambda>v. sbind (eval_index M ev i) (\<lambda>n. slift (take_at v n)))"

definition eval_typed_at ::
  "('fr, 'ff, 'pt, 'd, 'b, 'l) machine \<Rightarrow> ('d, 'b, 'l) evaluator \<Rightarrow> ty \<Rightarrow> expr \<Rightarrow> expr \<Rightarrow>
   (runtime_value \<Rightarrow> nat \<Rightarrow> runtime_value run) \<Rightarrow> ('d, 'b, 'l, runtime_value) step" where
  "eval_typed_at M ev t e i take_at = sbind (slift (check_run_type t)) (\<lambda>_. eval_at M ev e i take_at)"

definition byte_reference :: "ty \<Rightarrow> runtime_value \<Rightarrow> nat \<Rightarrow> runtime_value run" where
  "byte_reference t v i =
     (case resolved t of
        TyBytes n \<Rightarrow> rbind (ir_length n) (\<lambda>width. byte_at v width i)
      | _ \<Rightarrow> Err (TypeError ''byte reference has non-bytes operand type''))"

fun eval_node ::
  "('fr, 'ff, 'pt, 'd, 'b, 'l) machine \<Rightarrow> ('d, 'b, 'l) evaluator \<Rightarrow> expr \<Rightarrow> ('d, 'b, 'l, runtime_value) step" where
  "eval_node M ev (EQuote l) = slift (eval_literal (mc_fab M) l)"
| "eval_node M ev (EVarRef i) =
     sbind (sget (\<lambda>c. ec_locals c i)) (\<lambda>v. slift (ok_or (UndefinedVariable i) v))"
| "eval_node M ev (EDefault t) =
     slift (rbind (check_run_type t) (\<lambda>_. default_value (mc_fab M) t))"
| "eval_node M ev (EAssert e msg) =
     sbind (ev e) (\<lambda>v. if is_truthy v then sret VVoid else sfail (AssertionFailed msg))"
| "eval_node M ev (EPublicLedger i class path op t ins as) =
     sbind (slift (check_run_type t)) (\<lambda>_.
       if op = ''self'' \<and> \<not> mc_has_address M then sfail NoContractAddress
       else exec_ledger_query M ev ins)"
| "eval_node M ev (EEmit a b n e ins) = sbind (exec_ledger_query M ev ins) (\<lambda>_. sret VVoid)"
| "eval_node M ev (ESeq items) = sfold (\<lambda>v e. ev e) items VVoid"
| "eval_node M ev (EReturn e) = ev e"
| "eval_node M ev (ETuple as) = eval_tuple M ev as"
| "eval_node M ev (EVectorLit as) = eval_tuple M ev as"
| "eval_node M ev (ELetStar bs body) = sbind (straverse (eval_binding M ev) bs) (\<lambda>_. ev body)"
| "eval_node M ev (ECall i as) = eval_call M ev i as"
| "eval_node M ev (EAdd t l r) = eval_arith M ev t ArAdd l r"
| "eval_node M ev (ESub t l r) = eval_arith M ev t ArSub l r"
| "eval_node M ev (EMul t l r) = eval_arith M ev t ArMul l r"
| "eval_node M ev (EEq t l r) = sbind (eval_equal M ev t l r) (\<lambda>b. sret (VBool b))"
| "eval_node M ev (ENeq t l r) = sbind (eval_equal M ev t l r) (\<lambda>b. sret (VBool (\<not> b)))"
| "eval_node M ev (ELt n l r) = eval_compare M ev (<) l r"
| "eval_node M ev (ELe n l r) = eval_compare M ev (\<le>) l r"
| "eval_node M ev (EGt n l r) = eval_compare M ev (\<lambda>a b. b < a) l r"
| "eval_node M ev (EGe n l r) = eval_compare M ev (\<lambda>a b. b \<le> a) l r"
| "eval_node M ev (EIf c t e) = sbind (ev c) (\<lambda>v. if is_truthy v then ev t else ev e)"
| "eval_node M ev (EVectorRef t e i) = eval_at M ev e i (\<lambda>v. indexed_element v (Some t))"
| "eval_node M ev (ETupleRef e i) =
     sbind (slift (ir_length i)) (\<lambda>n.
     sbind (sinfer M e) (\<lambda>t. sbind (ev e) (\<lambda>v. slift (indexed_element v t n))))"
| "eval_node M ev (ENew t es) = eval_new M ev t es"
| "eval_node M ev (ECastFromBytes t len e) = eval_cast_node M ev (check_run_type t) (TyBytes len) t e"
| "eval_node M ev (ECastFromEnum t from_ty e) = eval_cast_node M ev (check_both t from_ty) from_ty t e"
| "eval_node M ev (ECastToEnum t from_ty e) = eval_cast_node M ev (check_both t from_ty) from_ty t e"
| "eval_node M ev (ESafeCast t from_ty e) = eval_cast_node M ev (check_both t from_ty) from_ty t e"
| "eval_node M ev (ECastToField f from_ty e) =
     eval_cast_node M ev (check_to_field f from_ty) from_ty (TyField FNative) e"
| "eval_node M ev (ECastFromField m f e) =
     eval_cast_node M ev (refuse_foreign_cast f) (TyField FNative) (TyUnsigned m) e"
| "eval_node M ev (EDowncastUnsigned m k e) = eval_cast_node M ev (Ok ()) (TyUnsigned m) (TyUnsigned k) e"
| "eval_node M ev (EEltRef e elt i) =
     sbind (sinfer M e) (\<lambda>t. sbind (ev e) (\<lambda>v. slift (field_of v t elt)))"
| "eval_node M ev (EFieldToBytes len f e) =
     sbind (ev e) (\<lambda>v. slift (rbind (ir_length len) (\<lambda>n. field_to_bytes (mc_fab M) v n f)))"
| "eval_node M ev (EBytesToVector len e) =
     sbind (ev e) (\<lambda>v. slift (rbind (ir_length len) (\<lambda>n.
       rmap (\<lambda>bs. VTuple (map (\<lambda>b. VAligned (fh_u8 (mc_fab M) b)) bs)) (padded_bytes v n))))"
| "eval_node M ev (EVectorToBytes len e) =
     sbind (ev e) (\<lambda>v. slift (rbind (ir_length len) (\<lambda>n.
       rbind (vector_value_to_bytes (mc_fab M) v n) (\<lambda>bs. rmap VAligned (bytes_aligned_value (mc_fab M) bs n)))))"
| "eval_node M ev (EContractCall circuit receiver t as) =
     sbind (slift (check_run_type t)) (\<lambda>_. sfail (Unsupported ''cross-contract calls are not implemented yet''))"
| "eval_node M ev (EEnumRef t elt) = slift (rbind (check_run_type t) (\<lambda>_. enum_index t elt))"
| "eval_node M ev (EMap len f as) = eval_map M ev len f as"
| "eval_node M ev (EFold len f init t as) = eval_fold M ev len f init as"
| "eval_node M ev (EBytesRef t e i) = eval_typed_at M ev t e i (byte_reference t)"
| "eval_node M ev (ETupleSlice t e start len) =
     sbind (slift (check_run_type t)) (\<lambda>_. sbind (ev e) (\<lambda>v. slift
       (rbind (ir_length start) (\<lambda>a. rbind (ir_length len) (\<lambda>n. slice_elements v t a n)))))"
| "eval_node M ev (EVectorSlice t e i len) =
     eval_typed_at M ev t e i (\<lambda>v a. rbind (ir_length len) (slice_elements v t a))"
| "eval_node M ev (EBytesSlice t e i len) =
     eval_typed_at M ev t e i (\<lambda>v a. rbind (ir_length len) (bytes_slice (mc_fab M) v t a))"

text \<open>The evaluator: one unit of fuel per level of nesting, of expressions and of calls.\<close>

fun eval_fuel ::
  "('fr, 'ff, 'pt, 'd, 'b, 'l) machine \<Rightarrow> nat \<Rightarrow> expr \<Rightarrow> ('d, 'b, 'l, runtime_value) step" where
  "eval_fuel M 0 e = slift NoFuel"
| "eval_fuel M (Suc n) e = eval_node M (eval_fuel M n) e"

section \<open>Runs\<close>

record run_env =
  en_witnesses :: witness_provider
  en_private_state :: "bytes option"
  en_address :: "bytes option"
  en_block_time :: u64
  en_coin_public_key :: "bytes option"

definition env_new :: "u64 \<Rightarrow> run_env" where
  "env_new t = \<lparr>en_witnesses = no_witnesses, en_private_state = None, en_address = None,
     en_block_time = t, en_coin_public_key = None\<rparr>"

record ('d, 'b, 'l) execution_result =
  er_state :: "('d, 'b) contract_state"
  er_reads :: "aligned list"
  er_gather_ops :: "unit vm_op list"
  er_result :: runtime_value
  er_communication_outputs :: "aligned list"
  er_private_outputs :: "aligned list"
  er_zswap_outputs :: "(runtime_value \<times> runtime_value) list"
  er_zswap_inputs :: "runtime_value list"
  er_logs :: "'l list"

text \<open>The crates that a run uses: scalars and fields, digests and groups, and the VM.\<close>

record ('fr, 'ff, 'pt, 'd, 'b, 'l) host =
  ho_fab :: "('fr, 'ff, 'pt) fab_host"
  ho_crypto :: "('fr, 'ff, 'pt) crypto_host"
  ho_query :: "'d \<Rightarrow> 'b call_context \<Rightarrow> unit vm_op list \<Rightarrow> ('l gather_event list \<times> 'd) option"

definition run_machine ::
  "('fr, 'ff, 'pt, 'd, 'b, 'l) host \<Rightarrow> program \<Rightarrow> ('d, 'b) contract_state \<Rightarrow> run_env \<Rightarrow>
   ('fr, 'ff, 'pt, 'd, 'b, 'l) machine" where
  "run_machine h p st env =
     \<lparr>mc_fab = ho_fab h, mc_crypto = ho_crypto h, mc_query = ho_query h, mc_program = p,
      mc_witnesses = Some (en_witnesses env),
      mc_call_context = \<lparr>cc_own_address = (case en_address env of Some a \<Rightarrow> a | None \<Rightarrow> replicate 32 0),
        cc_tblock = en_block_time env, cc_balance = cs_balance st\<rparr>,
      mc_has_address = (en_address env \<noteq> None), mc_coin_public_key = en_coin_public_key env\<rparr>"

definition entry_locals :: "argument list \<Rightarrow> (string \<times> runtime_value) list \<Rightarrow> string \<rightharpoonup> runtime_value" where
  "entry_locals params args =
     map_from_list (List.map_filter (\<lambda>a.
       map_option (Pair (arg_name a)) (map_of args (ident_name (arg_name a)))) params)"

definition entry_types :: "argument list \<Rightarrow> type_env" where
  "entry_types params = map_from_list (map (\<lambda>a. (arg_name a, arg_ty a)) params)"

definition entry_context ::
  "circuit \<Rightarrow> ('d, 'b) contract_state \<Rightarrow> (string \<times> runtime_value) list \<Rightarrow> run_env \<Rightarrow>
   ('d, 'b, 'l) exec_context" where
  "entry_context circuit st args env =
     \<lparr>ec_state = st, ec_locals = entry_locals (cir_arguments circuit) args,
      ec_local_types = entry_types (cir_arguments circuit), ec_reads = [], ec_gather_ops = [],
      ec_private_outputs = [], ec_zswap_outputs = [], ec_zswap_inputs = [], ec_logs = [],
      ec_private_state = (case en_private_state env of Some s \<Rightarrow> s | None \<Rightarrow> [])\<rparr>"

definition entry_check :: "circuit \<Rightarrow> unit run" where
  "entry_check circuit =
     rbind (try_each (\<lambda>a. check_run_type (arg_ty a)) (cir_arguments circuit))
       (\<lambda>_. check_run_type (cir_result_type circuit))"

definition communication_outputs ::
  "('fr, 'ff, 'pt) fab_host \<Rightarrow> circuit \<Rightarrow> runtime_value \<Rightarrow> aligned list run" where
  "communication_outputs h circuit v =
     (case v of VVoid \<Rightarrow> Ok [] | _ \<Rightarrow> rmap (\<lambda>av. [av]) (encode_typed h v (cir_result_type circuit)))"

definition result_of :: "runtime_value \<Rightarrow> aligned list \<Rightarrow> ('d, 'b, 'l) exec_context \<Rightarrow> ('d, 'b, 'l) execution_result" where
  "result_of v outs c =
     \<lparr>er_state = ec_state c, er_reads = ec_reads c, er_gather_ops = ec_gather_ops c, er_result = v,
      er_communication_outputs = outs, er_private_outputs = ec_private_outputs c,
      er_zswap_outputs = ec_zswap_outputs c, er_zswap_inputs = ec_zswap_inputs c, er_logs = ec_logs c\<rparr>"

text \<open>
  \<^verbatim>\<open>execute\<close>: the outcome, and the bytes that the run leaves in the buffer of the private state.
\<close>

definition execute ::
  "('fr, 'ff, 'pt, 'd, 'b, 'l) host \<Rightarrow> nat \<Rightarrow> circuit \<Rightarrow> program \<Rightarrow> ('d, 'b) contract_state \<Rightarrow>
   (string \<times> runtime_value) list \<Rightarrow> run_env \<Rightarrow> ('d, 'b, 'l) execution_result run \<times> bytes" where
  "execute h n circuit p st args env =
     (let c0 = entry_context circuit st args env;
          (r, c) = sbind (slift (entry_check circuit)) (\<lambda>_.
            sbind (eval_fuel (run_machine h p st env) n (cir_body circuit)) (\<lambda>v.
            sbind (slift (communication_outputs (ho_fab h) circuit v)) (\<lambda>outs.
            sget (result_of v outs)))) c0
      in (r, ec_private_state c))"

section \<open>The result of a run\<close>

definition call_output :: "('fr, 'ff, 'pt) fab_host \<Rightarrow> ('d, 'b, 'l) execution_result \<Rightarrow> aligned" where
  "call_output h r =
     (if er_communication_outputs r = [] then fh_unit h else fh_concat h (er_communication_outputs r))"

text \<open>\<^verbatim>\<open>translate\<close> gives every \<^verbatim>\<open>popeq\<close> the next read, and the empty value past the last one.\<close>

fun fill_reads :: "('fr, 'ff, 'pt) fab_host \<Rightarrow> unit vm_op list \<Rightarrow> aligned list \<Rightarrow> aligned vm_op list" where
  "fill_reads h [] avs = []"
| "fill_reads h (VoPopeq cached u # ops) avs =
     (case avs of
        [] \<Rightarrow> VoPopeq cached (fh_unit h) # fill_reads h ops []
      | av # rest \<Rightarrow> VoPopeq cached av # fill_reads h ops rest)"
| "fill_reads h (op # ops) avs = map_vm_op (\<lambda>_. fh_unit h) op # fill_reads h ops avs"

definition public_transcript :: "('fr, 'ff, 'pt) fab_host \<Rightarrow> ('d, 'b, 'l) execution_result \<Rightarrow> aligned vm_op list" where
  "public_transcript h r = fill_reads h (er_gather_ops r) (er_reads r)"

end
