(* ===== verification/InterpPure.thy ===== *)
theory InterpPure
  imports InterpEval
begin

text \<open>
  The pure steps of the evaluator never report a lack of fuel: that outcome is of the evaluator
  alone.
\<close>

named_theorems pure_results \<open>pure computations that are no lack of fuel\<close>

definition pure_res :: "('e, 'a) res \<Rightarrow> bool" where
  "pure_res r \<longleftrightarrow> r \<noteq> NoFuel"

lemma pure_res_basics [pure_results]: "pure_res (Ok a)" "pure_res (Err e)" "pure_res Panic" "pure_res (ok_or e x)"
  by (simp_all add: pure_res_def)

lemma pure_res_rbind [pure_results]: "pure_res m \<Longrightarrow> (\<And>a. m = Ok a \<Longrightarrow> pure_res (f a)) \<Longrightarrow> pure_res (rbind m f)"
  by (auto simp: pure_res_def rbind_NoFuel_iff)

lemma pure_res_rmap [pure_results]: "pure_res m \<Longrightarrow> pure_res (rmap f m)"
  by (simp add: pure_res_def)

lemma pure_res_rmap_err [pure_results]: "pure_res m \<Longrightarrow> pure_res (rmap_err f m)"
  by (simp add: pure_res_def)

lemma pure_res_if [pure_results]: "(b \<Longrightarrow> pure_res m) \<Longrightarrow> (\<not> b \<Longrightarrow> pure_res n) \<Longrightarrow> pure_res (if b then m else n)"
  by simp

lemma pure_res_option [pure_results]:
  "(x = None \<Longrightarrow> pure_res m) \<Longrightarrow> (\<And>a. x = Some a \<Longrightarrow> pure_res (f a)) \<Longrightarrow>
   pure_res (case x of None \<Rightarrow> m | Some a \<Rightarrow> f a)"
  by (cases x) auto

lemma pure_res_pair [pure_results]: "(\<And>a b. x = (a, b) \<Longrightarrow> pure_res (f a b)) \<Longrightarrow> pure_res (case x of (a, b) \<Rightarrow> f a b)"
  by (cases x) auto

lemma pure_res_list [pure_results]:
  "(xs = [] \<Longrightarrow> pure_res m) \<Longrightarrow> (\<And>y ys. xs = y # ys \<Longrightarrow> pure_res (f y ys)) \<Longrightarrow>
   pure_res (case xs of [] \<Rightarrow> m | y # ys \<Rightarrow> f y ys)"
  by (cases xs) auto

lemma pure_res_value [pure_results]:
  assumes "\<And>b. v = VBool b \<Longrightarrow> pure_res (f1 b)" "\<And>n. v = VInteger n \<Longrightarrow> pure_res (f2 n)"
    "\<And>av. v = VAligned av \<Longrightarrow> pure_res (f3 av)" "\<And>fs. v = VStruct fs \<Longrightarrow> pure_res (f4 fs)"
    "\<And>es. v = VTuple es \<Longrightarrow> pure_res (f5 es)" "v = VVoid \<Longrightarrow> pure_res f6"
  shows "pure_res (case v of VBool b \<Rightarrow> f1 b | VInteger n \<Rightarrow> f2 n | VAligned av \<Rightarrow> f3 av | VStruct fs \<Rightarrow> f4 fs
    | VTuple es \<Rightarrow> f5 es | VVoid \<Rightarrow> f6)"
  using assms by (cases v) auto

lemma pure_res_traverse [pure_results]: "(\<And>x. x \<in> set xs \<Longrightarrow> pure_res (f x)) \<Longrightarrow> pure_res (traverse f xs)"
  by (induction xs) (auto intro!: pure_results)

lemma pure_res_try_each [pure_results]: "(\<And>x. x \<in> set xs \<Longrightarrow> pure_res (f x)) \<Longrightarrow> pure_res (try_each f xs)"
  by (induction xs) (auto intro!: pure_results)


section \<open>Encodings\<close>

lemma pure_try_to_aligned [pure_results]: "pure_res (try_to_aligned_value h v)"
  by (induction h v rule: try_to_aligned_value.induct) (auto intro!: pure_results)

lemma pure_foreign [pure_results]:
  "pure_res (foreign_decode h f v)" "pure_res (foreign_encode h f v)" "pure_res (foreign_arith h f op l r)"
  "pure_res (foreign_to_le_bytes h f v)" "pure_res (point_encode h c v)" "pure_res (point_decode h c v)"
  by (auto simp: foreign_decode_def foreign_encode_def foreign_arith_def foreign_to_le_bytes_def point_encode_def
      point_decode_def intro!: pure_results)

lemma pure_bytes [pure_results]:
  "pure_res (bytes_aligned_value h bs n)" "pure_res (check_uint_range k m)" "pure_res (ir_length w)"
  by (auto simp: bytes_aligned_value_def check_uint_range_def ir_length_def Let_def intro!: pure_results)

lemma pure_struct_values [pure_results]: "pure_res (struct_values fs v)"
  by (auto simp: struct_values_def Let_def intro!: pure_results)

lemma pure_encode_typed [pure_results]: "pure_res (encode_typed h v t)"
proof (induction t arbitrary: v rule: measure_induct_rule [of ty_weight])
  case (less t)
  show ?case
  proof (cases t)
    case (TyTuple ts)
    then show ?thesis
      using less by (auto intro!: pure_results dest!: set_zip_leftD ty_weight_member)
  next
    case (TyStruct name fs)
    then show ?thesis
      using less by (auto intro!: pure_results dest!: set_zip_leftD ty_weight_field)
  next
    case (TyContract name cs)
    then show ?thesis using less [of contract_address_ty] by (simp add: contract_address_ty_def)
  qed (use less in \<open>auto intro!: pure_results\<close>)
qed

lemma pure_default [pure_results]: "pure_res (default_value h t)"
proof (induction t rule: measure_induct_rule [of ty_weight])
  case (less t)
  show ?case
  proof (cases t)
    case (TyTuple ts)
    then show ?thesis using less by (auto intro!: pure_results dest!: ty_weight_member)
  next
    case (TyStruct name fs)
    then show ?thesis using less by (auto simp del: encode_typed.simps intro!: pure_results dest!: ty_weight_field)
  next
    case (TyContract name cs)
    then show ?thesis using less [of contract_address_ty] by (simp add: contract_address_ty_def del: encode_typed.simps)
  qed (use less in \<open>auto intro!: pure_results\<close>)
qed

section \<open>Natives\<close>

lemma pure_native_args [pure_results]:
  "pure_res (unary_arg args)" "pure_res (binary_args args)" "pure_res (native_arg args i)"
  "pure_res (field_arg h args i)" "pure_res (point_arg h args i)" "pure_res (arity args n)"
  by (auto simp: unary_arg_def binary_args_def native_arg_def field_arg_def point_arg_def arity_def intro!: pure_results)

lemma pure_hash_arg [pure_results]: "pure_res (hash_arg h args i)"
  by (auto simp: hash_arg_def value_to_hash_output_def intro!: pure_results)

lemma pure_encode_argument [pure_results]: "pure_res (encode_argument h tys i v)"
  by (auto simp: encode_argument_def intro!: pure_results)

lemma pure_hash_preimage [pure_results]: "pure_res (hash_preimage h k args tys)"
  by (auto simp: hash_preimage_def intro!: pure_results split: prod.splits)

lemma pure_curve_native:
  "curve_native h k c base scalar op args = Some r \<Longrightarrow> pure_res r"
  unfolding curve_native_def Let_def native_neg_def native_inv_def native_coordinates_def
  by (auto intro!: pure_results split: if_splits)

lemma pure_foreign_native: "foreign_native h k name args = Some r \<Longrightarrow> pure_res r"
  unfolding foreign_native_def by (auto intro: pure_curve_native split: option.splits)

lemma pure_builtin:
  assumes "builtin_value h k name args tys = Some r" shows "pure_res r"
  using assms unfolding builtin_value_def Let_def
  by (auto simp del: encode_typed.simps intro!: pure_results intro: pure_foreign_native split: if_splits prod.splits)

lemma pure_try_builtin: "try_builtin_typed h k name args tys = Some r \<Longrightarrow> pure_res r"
  unfolding try_builtin_typed_def by (auto intro!: pure_results intro: pure_builtin)

section \<open>Steps of the evaluator\<close>

lemma pure_checks [pure_results]:
  "pure_res (check_run_type t)" "pure_res (refuse_foreign_cast f)" "pure_res (check_both t u)"
  by (auto simp: check_run_type_def refuse_foreign_cast_def check_both_def intro!: pure_results)

lemma pure_check_to_field [pure_results]: "pure_res (check_to_field f t)"
  unfolding check_to_field_def by (intro pure_results) (auto intro!: pure_results split: ty.splits)

lemma pure_literal [pure_results]: "pure_res (eval_literal h l)"
  unfolding eval_literal_def by (auto intro!: pure_results split: literal.splits)

lemma pure_numbers [pure_results]:
  "pure_res (numeric_value h v)" "pure_res (uint_value n)" "pure_res (value_to_byte_string v len)"
  "pure_res (padded_bytes v len)" "pure_res (byte_of b)"
  by (auto simp: numeric_value_def uint_value_def value_to_byte_string_def padded_bytes_def byte_of_def
      intro!: pure_results)

lemma pure_cast [pure_results]: "pure_res (eval_cast h v t u)"
  unfolding eval_cast_def cast_to_field_def cast_to_uint_def cast_to_enum_def
  by (auto intro!: pure_results split: ty.splits)

lemma pure_byte_at [pure_results]: "pure_res (byte_at v len i)"
  unfolding byte_at_def by (auto intro!: pure_results)

lemma pure_indexed_element [pure_results]: "pure_res (indexed_element v ty i)"
  unfolding indexed_element_def
  by (auto intro!: pure_results split: ty.splits simp del: ok_or.simps)

lemma pure_elements [pure_results]:
  "pure_res (slice_elements v t a n)" "pure_res (splice_spread v ty n)" "pure_res (loop_arguments as vs i)"
  by (auto simp: slice_elements_def splice_spread_def loop_arguments_def intro!: pure_results)

lemma pure_vector_bytes [pure_results]: "pure_res (vector_value_to_bytes h v n)"
  unfolding vector_value_to_bytes_def by (auto intro!: pure_results)

lemma pure_byte_slices [pure_results]: "pure_res (bytes_slice h v t a n)" "pure_res (byte_reference t v i)"
  unfolding bytes_slice_def byte_reference_def by (auto intro!: pure_results split: ty.splits)

lemma pure_field_to_bytes [pure_results]: "pure_res (field_to_bytes h v n f)"
  unfolding field_to_bytes_def by (auto intro!: pure_results)

lemma pure_field_of [pure_results]: "pure_res (field_of v t elt)"
  unfolding field_of_def either_variant_field_slice_def
  by (auto intro!: pure_results split: ty.splits)

lemma pure_arith_values [pure_results]: "pure_res (arith_values h t op l r)"
  unfolding arith_values_def uint_op_def by (auto intro!: pure_results split: ty.splits arith_op.splits)

lemma pure_values_equal [pure_results]: "pure_res (values_equal h a b t)"
  unfolding values_equal_def by (intro pure_results)

lemma pure_enum_index [pure_results]: "pure_res (enum_index t elt)"
  unfolding enum_index_def by (auto intro!: pure_results split: ty.splits)

lemma pure_max_sizeof [pure_results]: "pure_res (max_sizeof h t)"
  unfolding max_sizeof_def Let_def by (intro pure_results)

lemma pure_count_operand [pure_results]: "pure_res (count_operand h x)"
  by (induction h x rule: count_operand.induct) (auto intro!: pure_results)

lemma pure_counts [pure_results]:
  "pure_res (operand_arg i name)" "pure_res (u8_arg h i name)" "pure_res (u32_arg h i name)"
  by (auto simp: operand_arg_def u64_arg_def u8_arg_def u32_arg_def intro!: pure_results)

lemma pure_literal_key [pure_results]: "pure_res (literal_key h n w)"
  unfolding literal_key_def max_for_bytes_def by (intro pure_results)

lemma pure_communication [pure_results]: "pure_res (communication_outputs h c v)" "pure_res (entry_check c)"
  by (auto simp: communication_outputs_def entry_check_def intro!: pure_results)

end
