(* ===== verification/InterpLaw.thy ===== *)
theory InterpLaw
  imports InterpPure
begin

text \<open>
  What every step of the evaluator keeps. A law relates the context before a step with the
  context after it, and may tell whether the step ran out of fuel. The locale states what a law
  must allow: the changes of the context that the code makes. Its client is the whole evaluator:
  one pass over the node equations gives both that each evaluation obeys the law and that more
  fuel under it changes no answer.
\<close>

section \<open>The sub-expressions that a node evaluates\<close>

fun operand_exprs :: "expr operand \<Rightarrow> expr list" where
  "operand_exprs (OExpr e) = [e]"
| "operand_exprs (OValueToInt x) = operand_exprs x"
| "operand_exprs (OAdd x y) = operand_exprs x @ operand_exprs y"
| "operand_exprs (OLeafHash x) = operand_exprs x"
| "operand_exprs (OCoinCommit x y) = operand_exprs x @ operand_exprs y"
| "operand_exprs (OAlignedConcat xs) = concat (map operand_exprs xs)"
| "operand_exprs (OStateValue (SvCell x)) = operand_exprs x"
| "operand_exprs (OStateValue (SvAdt x t)) = operand_exprs x"
| "operand_exprs (OStateValue (SvArray xs)) = concat (map operand_exprs xs)"
| "operand_exprs (OStateValue (SvMap kvs)) = concat (map (\<lambda>(k, v). operand_exprs k @ operand_exprs v) kvs)"
| "operand_exprs (OStateValue (SvMerkleTree d kvs)) = []"
| "operand_exprs (OList xs) = concat (map operand_exprs xs)"
| "operand_exprs other = []"

definition instruction_exprs :: "expr operand instruction \<Rightarrow> expr list" where
  "instruction_exprs i = concat (map (\<lambda>(n, x). operand_exprs x) (ins_args i))"

fun tuple_arg_expr :: "'e tuple_arg \<Rightarrow> 'e" where
  "tuple_arg_expr (Single e) = e"
| "tuple_arg_expr (Spread n e) = e"

fun fun_exprs :: "'e ir_fun \<Rightarrow> 'e list" where
  "fun_exprs (FunRef i) = []"
| "fun_exprs (FunCircuit ps t b) = [b]"

fun sub_exprs :: "expr \<Rightarrow> expr list" where
  "sub_exprs (EAssert e m) = [e]"
| "sub_exprs (EPublicLedger i c p op t ins as) = concat (map instruction_exprs ins)"
| "sub_exprs (EEmit a b n e ins) = concat (map instruction_exprs ins)"
| "sub_exprs (ESeq es) = es"
| "sub_exprs (EReturn e) = [e]"
| "sub_exprs (ETuple as) = map tuple_arg_expr as"
| "sub_exprs (EVectorLit as) = map tuple_arg_expr as"
| "sub_exprs (ELetStar bs e) = map snd bs @ [e]"
| "sub_exprs (ECall i as) = as"
| "sub_exprs (EAdd t l r) = [l, r]"
| "sub_exprs (ESub t l r) = [l, r]"
| "sub_exprs (EMul t l r) = [l, r]"
| "sub_exprs (EEq t l r) = [l, r]"
| "sub_exprs (ENeq t l r) = [l, r]"
| "sub_exprs (ELt n l r) = [l, r]"
| "sub_exprs (ELe n l r) = [l, r]"
| "sub_exprs (EGt n l r) = [l, r]"
| "sub_exprs (EGe n l r) = [l, r]"
| "sub_exprs (EIf c t e) = [c, t, e]"
| "sub_exprs (EVectorRef t e i) = [e, i]"
| "sub_exprs (ETupleRef e i) = [e]"
| "sub_exprs (ENew t es) = es"
| "sub_exprs (ECastFromBytes t n e) = [e]"
| "sub_exprs (ECastFromEnum t u e) = [e]"
| "sub_exprs (ECastToEnum t u e) = [e]"
| "sub_exprs (ESafeCast t u e) = [e]"
| "sub_exprs (ECastToField f t e) = [e]"
| "sub_exprs (ECastFromField m f e) = [e]"
| "sub_exprs (EDowncastUnsigned m k e) = [e]"
| "sub_exprs (EEltRef e elt i) = [e]"
| "sub_exprs (EFieldToBytes n f e) = [e]"
| "sub_exprs (EBytesToVector n e) = [e]"
| "sub_exprs (EVectorToBytes n e) = [e]"
| "sub_exprs (EMap n f as) = fun_exprs f @ map ma_expr as"
| "sub_exprs (EFold n f i t as) = fun_exprs f @ i # map ma_expr as"
| "sub_exprs (EBytesRef t e i) = [e, i]"
| "sub_exprs (ETupleSlice t e a n) = [e]"
| "sub_exprs (EVectorSlice t e i n) = [e, i]"
| "sub_exprs (EBytesSlice t e i n) = [e, i]"
| "sub_exprs other = []"

text \<open>The names of the circuits that a node calls.\<close>

fun called_names :: "expr \<Rightarrow> ident list" where
  "called_names (ECall i as) = [i]"
| "called_names (EMap n (FunRef i) as) = [i]"
| "called_names (EFold n (FunRef i) e t as) = [i]"
| "called_names other = []"

definition called_bodies :: "program \<Rightarrow> expr \<Rightarrow> expr list" where
  "called_bodies p e = map cir_body (List.map_filter (pr_circuits p) (called_names e))"

definition evaluated :: "program \<Rightarrow> expr \<Rightarrow> expr set" where
  "evaluated p e = set (sub_exprs e) \<union> set (called_bodies p e)"

section \<open>Laws of a step\<close>

type_synonym ('d, 'b, 'l) law = "(interp_error, unit) res \<Rightarrow> ('d, 'b, 'l) exec_context \<Rightarrow> ('d, 'b, 'l) exec_context \<Rightarrow> bool"

text \<open>
  \<open>obeys\<close>: whatever the outcome of \<open>m\<close>, the law holds between its contexts, and \<open>m'\<close> does the
  same as \<open>m\<close> unless \<open>m\<close> ran out of fuel. A law sees the outcome without its value.
\<close>

abbreviation outcome :: "(interp_error, 'a) res \<Rightarrow> (interp_error, unit) res" where
  "outcome r \<equiv> rmap (\<lambda>_. ()) r"

definition obeys :: "('d, 'b, 'l) law \<Rightarrow> ('d, 'b, 'l, 'a) step \<Rightarrow> ('d, 'b, 'l, 'a) step \<Rightarrow> bool" where
  "obeys L m m' \<longleftrightarrow>
     (\<forall>c. L (outcome (fst (m c))) c (snd (m c)) \<and> (fst (m c) = NoFuel \<or> m' c = m c))"

lemma obeysD: "obeys L m m' \<Longrightarrow> m c = (r, c') \<Longrightarrow> L (outcome r) c c' \<and> (r = NoFuel \<or> m' c = (r, c'))"
  unfolding obeys_def by (metis fst_conv snd_conv)

lemma obeysI:
  "(\<And>c r c'. m c = (r, c') \<Longrightarrow> L (outcome r) c c' \<and> (r = NoFuel \<or> m' c = (r, c'))) \<Longrightarrow> obeys L m m'"
  unfolding obeys_def by (metis prod.collapse)

named_theorems obeys_rules \<open>steps that obey the law of the locale\<close>

locale evaluation_law =
  fixes M :: "('fr, 'ff, 'pt, 'd, 'b, 'l) machine"
    and L :: "('d, 'b, 'l) law"
  assumes law_refl: "q \<noteq> NoFuel \<Longrightarrow> L q c c"
    and law_trans: "L (Ok ()) c c' \<Longrightarrow> L q c' c'' \<Longrightarrow> L q c c''"
    and law_locals: "L q c c' \<Longrightarrow> L q c (c'\<lparr>ec_locals := ls, ec_local_types := ts\<rparr>)"
    and law_query: "mc_query M (cs_data (ec_state c)) (mc_call_context M) ops = Some (events, data) \<Longrightarrow>
      L (Ok ()) c (c\<lparr>ec_gather_ops := ec_gather_ops c @ ops, ec_logs := ec_logs c @ event_logs events,
        ec_state := (ec_state c)\<lparr>cs_data := data\<rparr>, ec_reads := ec_reads c @ event_reads events\<rparr>)"
    and law_refused: "mc_query M (cs_data (ec_state c)) (mc_call_context M) ops = None \<Longrightarrow>
      L (Err (LedgerQueryFailed ''query'')) c (c\<lparr>ec_gather_ops := ec_gather_ops c @ ops\<rparr>)"
    and law_private: "L (Ok ()) c (c\<lparr>ec_private_outputs := ec_private_outputs c @ [av]\<rparr>)"
    and law_zswap_output: "L (Ok ()) c (c\<lparr>ec_zswap_outputs := ec_zswap_outputs c @ [(coin, recipient)]\<rparr>)"
    and law_zswap_input: "L (Ok ()) c (c\<lparr>ec_zswap_inputs := ec_zswap_inputs c @ [coin]\<rparr>)"
    and law_provider: "mc_witnesses M = Some w \<Longrightarrow> w (ec_private_state c) name vs = (r, st) \<Longrightarrow>
      L (case r of Inl e \<Rightarrow> Err e | Inr v \<Rightarrow> Ok ()) c (c\<lparr>ec_private_state := st\<rparr>)"
begin

lemma law_refl_Ok: "L (Ok ()) c c"
  by (rule law_refl) simp

lemma obeys_basics [obeys_rules]:
  "obeys L (sret a) (sret a)" "obeys L (sfail e) (sfail e)" "obeys L (sget g) (sget g)"
  "pure_res r \<Longrightarrow> obeys L (slift r) (slift r)"
  by (auto simp: obeys_def law_refl sm_simps pure_res_def)

lemma obeys_smodify: "(\<And>c. L (Ok ()) c (g c)) \<Longrightarrow> obeys L (smodify g) (smodify g)"
  by (simp add: obeys_def sm_simps)

lemma obeys_sbind [obeys_rules]:
  assumes m: "obeys L m m'" and f: "\<And>a. obeys L (f a) (f' a)"
  shows "obeys L (sbind m f) (sbind m' f')"
proof (rule obeysI)
  fix c r c'
  assume run: "sbind m f c = (r, c')"
  obtain q d where md: "m c = (q, d)" by fastforce
  note step = obeysD [OF m md]
  show "L (outcome r) c c' \<and> (r = NoFuel \<or> sbind m' f' c = (r, c'))"
  proof (cases q)
    case (Ok a)
    with run md have "f a d = (r, c')" by (simp add: sbind_def)
    from obeysD [OF f this] step Ok law_trans show ?thesis by (auto simp: sbind_def)
  qed (use run md step in \<open>auto simp: sbind_def\<close>)
qed

lemma obeys_straverse [obeys_rules]:
  "(\<And>x. x \<in> set xs \<Longrightarrow> obeys L (f x) (f' x)) \<Longrightarrow> obeys L (straverse f xs) (straverse f' xs)"
  by (induction xs) (auto intro!: obeys_rules)

lemma obeys_sfold [obeys_rules]:
  "(\<And>a x. x \<in> set xs \<Longrightarrow> obeys L (f a x) (f' a x)) \<Longrightarrow> obeys L (sfold f xs a) (sfold f' xs a)"
  by (induction xs arbitrary: a) (auto intro!: obeys_rules)

lemma obeys_if [obeys_rules]:
  "(b \<Longrightarrow> obeys L m m') \<Longrightarrow> (\<not> b \<Longrightarrow> obeys L n n') \<Longrightarrow> obeys L (if b then m else n) (if b then m' else n')"
  by simp

lemma obeys_option [obeys_rules]:
  "(x = None \<Longrightarrow> obeys L m m') \<Longrightarrow> (\<And>a. x = Some a \<Longrightarrow> obeys L (f a) (f' a)) \<Longrightarrow>
   obeys L (case x of None \<Rightarrow> m | Some a \<Rightarrow> f a) (case x of None \<Rightarrow> m' | Some a \<Rightarrow> f' a)"
  by (cases x) auto

lemma obeys_pair [obeys_rules]:
  "(\<And>a b. x = (a, b) \<Longrightarrow> obeys L (f a b) (f' a b)) \<Longrightarrow>
   obeys L (case x of (a, b) \<Rightarrow> f a b) (case x of (a, b) \<Rightarrow> f' a b)"
  by (cases x) auto

subsection \<open>Operands and queries\<close>

lemma obeys_sinfer [obeys_rules]: "obeys L (sinfer M e) (sinfer M e)"
  unfolding sinfer_def by (rule obeys_rules)

lemma obeys_expr_aligned:
  assumes "obeys L (ev e) (ev' e)" shows "obeys L (expr_aligned M ev e) (expr_aligned M ev' e)"
  unfolding expr_aligned_def
  by (intro obeys_rules assms) (auto intro!: pure_results split: prod.splits option.splits)

lemma obeys_operand_aligned_at:
  "N = M \<Longrightarrow> (\<And>x. x \<in> set (operand_exprs o') \<Longrightarrow> obeys L (ev x) (ev' x)) \<Longrightarrow>
   obeys L (operand_aligned N ev o') (operand_aligned N ev' o')"
  by (induction N ev o' rule: operand_aligned.induct) (auto intro!: obeys_rules pure_results obeys_expr_aligned)

lemmas obeys_operand_aligned = obeys_operand_aligned_at [OF refl]

lemma obeys_path_key:
  assumes "\<And>x. x \<in> set (operand_exprs o') \<Longrightarrow> obeys L (ev x) (ev' x)"
  shows "obeys L (path_key M ev o') (path_key M ev' o')"
  using assms unfolding path_key_def
  by (cases o') (auto simp del: operand_aligned.simps intro!: obeys_rules obeys_operand_aligned)

lemma obeys_push_scalar:
  assumes "\<And>x. x \<in> set (operand_exprs o') \<Longrightarrow> obeys L (ev x) (ev' x)"
  shows "obeys L (push_scalar M ev o') (push_scalar M ev' o')"
proof -
  have "obeys L (sbind (operand_aligned M ev o') (\<lambda>av. sret (VmCell av)))
      (sbind (operand_aligned M ev' o') (\<lambda>av. sret (VmCell av)))"
    by (intro obeys_rules obeys_operand_aligned assms)
  then show ?thesis unfolding push_scalar_def by (cases "reduce_operand o'") (simp_all add: obeys_basics)
qed

lemma obeys_push_value_at:
  "N = M \<Longrightarrow> (\<And>x. x \<in> set (operand_exprs o') \<Longrightarrow> obeys L (ev x) (ev' x)) \<Longrightarrow>
   obeys L (push_value N ev o') (push_value N ev' o')"
proof (induction N ev o' rule: push_value.induct)
  case (1 N ev es)
  then show ?case by (auto intro!: obeys_rules)
next
  case (2 N ev kvs)
  have "obeys L (operand_aligned N ev k) (operand_aligned N ev' k) \<and>
      obeys L (push_value N ev v) (push_value N ev' v)" if kv: "(k, v) \<in> set kvs" for k v
  proof
    have exprs: "obeys L (ev x) (ev' x)" if "x \<in> set (operand_exprs k @ operand_exprs v)" for x
      by (rule 2(3)) (use kv that in force)
    then show "obeys L (operand_aligned N ev k) (operand_aligned N ev' k)"
      unfolding 2(2) by (intro obeys_operand_aligned) simp
    show "obeys L (push_value N ev v) (push_value N ev' v)"
      by (rule 2(1) [OF kv _ 2(2)]) (use exprs in simp_all)
  qed
  then show ?case unfolding push_value.simps by (intro obeys_rules) auto
next
  case (3 N ev depth entries)
  show ?case by (simp add: obeys_basics)
next
  case (4 N ev inner t)
  then have "obeys L (push_scalar N ev (OStateValue (SvAdt inner t))) (push_scalar N ev' (OStateValue (SvAdt inner t)))"
    using obeys_push_scalar by blast
  then show ?case unfolding push_value.simps by (intro obeys_rules)
qed (simp_all only: push_value.simps obeys_push_scalar)

lemmas obeys_push_value = obeys_push_value_at [OF refl]

lemma operand_expr_reduced: "reduce_operand o' = ArgExpr e \<Longrightarrow> e \<in> set (operand_exprs o')"
  by (induction o' rule: reduce_operand.induct) auto

lemma obeys_resolve_immediate:
  assumes "\<And>x. x \<in> set (operand_exprs o') \<Longrightarrow> obeys L (ev x) (ev' x)"
  shows "obeys L (resolve_immediate ev o') (resolve_immediate ev' o')"
  unfolding resolve_immediate_def
  by (cases "reduce_operand o'")
    (auto intro!: obeys_rules pure_results assms dest: operand_expr_reduced simp: pure_res_basics)

lemma argument_exprs: "instruction_arg i name = Some x \<Longrightarrow> e \<in> set (operand_exprs x) \<Longrightarrow> e \<in> set (instruction_exprs i)"
  unfolding instruction_arg_def instruction_exprs_def
  by (force simp: find_Some_iff in_set_conv_nth)

lemma obeys_build_op:
  assumes "\<And>x. x \<in> set (instruction_exprs i) \<Longrightarrow> obeys L (ev x) (ev' x)"
  shows "obeys L (build_op M ev i) (build_op M ev' i)"
proof -
  have arg: "obeys L (sbind (slift (operand_arg i name)) f) (sbind (slift (operand_arg i name)) f')"
    if "\<And>x. instruction_arg i name = Some x \<Longrightarrow> obeys L (f x) (f' x)"
    for name and f f' :: "expr operand \<Rightarrow> ('d, 'b, 'l, unit vm_op) step"
    using that by (cases "instruction_arg i name") (simp_all add: operand_arg_def obeys_def sbind_def sm_simps law_refl)
  have exprs: "obeys L (ev e) (ev' e)" if "instruction_arg i name = Some x" "e \<in> set (operand_exprs x)" for name x e
    using assms argument_exprs that by blast
  have path: "obeys L (straverse (path_key M ev) path) (straverse (path_key M ev') path)"
    if "instruction_arg i ''path'' = Some (OList path)" for path
    by (intro obeys_rules obeys_path_key) (use exprs that in force)
  show ?thesis
  proof (cases "ins_op i")
    case OpIdx
    have "obeys L (sbind (straverse (path_key M ev) path) g) (sbind (straverse (path_key M ev') path) g)"
      if "instruction_arg i ''path'' = Some (OList path)" "\<And>k. obeys L (g k) (g k)"
      for path and g :: "vm_key list \<Rightarrow> ('d, 'b, 'l, unit vm_op) step"
      by (intro obeys_sbind path that)
    with OpIdx show ?thesis
      by (auto simp: build_op_def obeys_basics split: option.splits operand.splits)
  next
    case OpPush
    then show ?thesis unfolding build_op_def
      by simp (intro arg obeys_sbind obeys_push_value obeys_basics; blast intro: exprs)
  next
    case OpAddi
    then show ?thesis unfolding build_op_def
      by simp (intro arg obeys_sbind obeys_resolve_immediate obeys_basics; blast intro: exprs)
  next
    case OpSubi
    then show ?thesis unfolding build_op_def
      by simp (intro arg obeys_sbind obeys_resolve_immediate obeys_basics; blast intro: exprs)
  qed (auto simp: build_op_def intro!: obeys_rules pure_results)
qed

lemma obeys_run_query: "obeys L (run_query M ops) (run_query M ops)"
proof (rule obeysI)
  fix c c' :: "('d, 'b, 'l) exec_context" and r
  assume run: "run_query M ops c = (r, c')"
  show "L (outcome r) c c' \<and> (r = NoFuel \<or> run_query M ops c = (r, c'))"
  proof (cases "mc_query M (cs_data (ec_state c)) (mc_call_context M) ops")
    case None
    with run law_refused [OF None] show ?thesis by (auto simp: run_query_def sbind_def sm_simps)
  next
    case (Some p)
    then obtain events data where q: "mc_query M (cs_data (ec_state c)) (mc_call_context M) ops = Some (events, data)"
      by (cases p) auto
    with run law_query [OF q] show ?thesis by (auto simp: run_query_def sbind_def sm_simps)
  qed
qed

lemma obeys_exec_ledger_query:
  assumes "\<And>x. x \<in> set (concat (map instruction_exprs ins)) \<Longrightarrow> obeys L (ev x) (ev' x)"
  shows "obeys L (exec_ledger_query M ev ins) (exec_ledger_query M ev' ins)"
proof -
  have "obeys L (straverse (build_op M ev) ins) (straverse (build_op M ev') ins)"
    by (intro obeys_rules obeys_build_op) (use assms in force)
  then show ?thesis unfolding exec_ledger_query_def by (rule obeys_sbind) (rule obeys_run_query)
qed

subsection \<open>Calls\<close>

lemma law_bind_all: "L (Ok ()) c (fold (\<lambda>(a, v). bind_local a v (arg_ty a)) ps c)"
proof (induction ps arbitrary: c)
  case (Cons p ps)
  have "L (Ok ()) c (bind_local (fst p) (snd p) (arg_ty (fst p)) c)"
    unfolding bind_local_def by (rule law_locals [OF law_refl_Ok])
  with Cons law_trans show ?case by (auto simp: case_prod_beta)
qed (simp add: law_refl)

lemma obeys_with_parameters:
  assumes "obeys L m m'" shows "obeys L (with_parameters ps m) (with_parameters ps m')"
proof (rule obeysI)
  fix c c' :: "('d, 'b, 'l) exec_context" and r
  define d where "d = fold (\<lambda>(a, v). bind_local a v (arg_ty a)) ps c"
  assume "with_parameters ps m c = (r, c')"
  then obtain e where e: "m d = (r, e)" and c': "c' = e\<lparr>ec_locals := ec_locals c, ec_local_types := ec_local_types c\<rparr>"
    unfolding with_parameters_def d_def by (auto split: prod.splits)
  from obeysD [OF assms e] have step: "L (outcome r) d e" "r = NoFuel \<or> m' d = (r, e)" by auto
  have "L (Ok ()) c d" unfolding d_def by (rule law_bind_all)
  then have "L (outcome r) c e" using step(1) law_trans by blast
  then have "L (outcome r) c c'" unfolding c' by (rule law_locals)
  with step(2) c' show "L (outcome r) c c' \<and> (r = NoFuel \<or> with_parameters ps m' c = (r, c'))"
    by (auto simp: with_parameters_def d_def)
qed

lemma obeys_call_circuit:
  assumes "obeys L (ev body) (ev' body)"
  shows "obeys L (call_circuit ev params body args) (call_circuit ev' params body args)"
  unfolding call_circuit_def by (intro obeys_rules obeys_with_parameters assms pure_results)

lemma obeys_push_private [obeys_rules]: "obeys L (push_private av) (push_private av)"
  unfolding push_private_def by (intro obeys_smodify law_private)

lemma obeys_witness_native: "obeys L (eval_witness_native M n vs) (eval_witness_native M n vs)"
  unfolding eval_witness_native_def
  by (auto simp: Let_def intro!: obeys_rules obeys_smodify law_zswap_output law_zswap_input
      split: witness_native.split list.split)

lemma obeys_call_provider: "mc_witnesses M = Some w \<Longrightarrow> obeys L (call_provider w name vs) (call_provider w name vs)"
  unfolding obeys_def call_provider_def by (auto dest!: law_provider split: prod.split sum.split)

lemma obeys_pure_call: "obeys L (eval_pure_call M i vs) (eval_pure_call M i vs)"
  unfolding eval_pure_call_def by (intro obeys_rules) (auto intro!: pure_results dest: pure_try_builtin split: option.split)

lemma obeys_witness_call: "obeys L (eval_witness_call M i vs) (eval_witness_call M i vs)"
  unfolding eval_witness_call_def Let_def
  by (intro obeys_rules obeys_witness_native obeys_call_provider pure_results)

lemma called_body: "pr_circuits (mc_program M) i = Some c \<Longrightarrow> i \<in> set (called_names e) \<Longrightarrow>
    cir_body c \<in> set (called_bodies (mc_program M) e)"
  unfolding called_bodies_def by (force simp: map_filter_def)

lemma callee_circuit: "program_callee p i = CalleeCircuit c \<Longrightarrow> pr_circuits p i = Some c"
  by (auto simp: program_callee_def program_declaration_def split: option.splits decl.splits if_splits)

lemma obeys_call:
  assumes "\<And>x. x \<in> set as \<Longrightarrow> obeys L (ev x) (ev' x)"
    and "\<And>c. pr_circuits (mc_program M) i = Some c \<Longrightarrow> obeys L (ev (cir_body c)) (ev' (cir_body c))"
  shows "obeys L (eval_call M ev i as) (eval_call M ev' i as)"
proof -
  have body: "obeys L (case program_callee (mc_program M) i of
       CalleeCircuit c \<Rightarrow> call_circuit ev (cir_arguments c) (cir_body c) vs
     | CalleeWitness \<Rightarrow> eval_witness_call M i vs | CalleePure \<Rightarrow> eval_pure_call M i vs)
     (case program_callee (mc_program M) i of
       CalleeCircuit c \<Rightarrow> call_circuit ev' (cir_arguments c) (cir_body c) vs
     | CalleeWitness \<Rightarrow> eval_witness_call M i vs | CalleePure \<Rightarrow> eval_pure_call M i vs)" for vs
    by (auto intro: obeys_call_circuit obeys_witness_call obeys_pure_call assms(2) callee_circuit split: callee.split)
  show ?thesis unfolding eval_call_def
    by (intro obeys_rules body assms(1)) (auto intro: pure_results split: option.split)
qed

subsection \<open>Nodes\<close>

lemma obeys_tuple:
  assumes "\<And>x. x \<in> tuple_arg_expr ` set as \<Longrightarrow> obeys L (ev x) (ev' x)"
  shows "obeys L (eval_tuple M ev as) (eval_tuple M ev' as)"
proof -
  have arg: "obeys L (eval_tuple_arg M ev a) (eval_tuple_arg M ev' a)" if "a \<in> set as" for a
    using assms that unfolding eval_tuple_arg_def
    by (cases a) (fastforce intro!: obeys_rules pure_results)+
  show ?thesis unfolding eval_tuple_def by (intro obeys_rules arg)
qed

lemma obeys_binding:
  assumes "obeys L (ev (snd b)) (ev' (snd b))"
  shows "obeys L (eval_binding M ev b) (eval_binding M ev' b)"
  unfolding eval_binding_def
  by (intro obeys_rules obeys_smodify assms) (simp add: bind_local_def law_locals [OF law_refl_Ok])

lemma obeys_as_integer [obeys_rules]:
  "obeys L (ev e) (ev' e) \<Longrightarrow> obeys L (eval_as_integer M ev e) (eval_as_integer M ev' e)"
  unfolding eval_as_integer_def by (intro obeys_rules pure_results)

lemma obeys_index [obeys_rules]:
  "obeys L (ev e) (ev' e) \<Longrightarrow> obeys L (eval_index M ev e) (eval_index M ev' e)"
  unfolding eval_index_def by (intro obeys_rules pure_results)

lemma obeys_compare [obeys_rules]:
  "obeys L (ev l) (ev' l) \<Longrightarrow> obeys L (ev r) (ev' r) \<Longrightarrow>
   obeys L (eval_compare M ev cmp l r) (eval_compare M ev' cmp l r)"
  unfolding eval_compare_def by (intro obeys_rules)

lemma obeys_equal [obeys_rules]:
  "obeys L (ev l) (ev' l) \<Longrightarrow> obeys L (ev r) (ev' r) \<Longrightarrow> obeys L (eval_equal M ev t l r) (eval_equal M ev' t l r)"
  unfolding eval_equal_def by (intro obeys_rules pure_results)

lemma obeys_arith [obeys_rules]:
  "obeys L (ev l) (ev' l) \<Longrightarrow> obeys L (ev r) (ev' r) \<Longrightarrow>
   obeys L (eval_arith M ev t op l r) (eval_arith M ev' t op l r)"
  unfolding eval_arith_def by (intro obeys_rules pure_results)

lemma obeys_at [obeys_rules]:
  "obeys L (ev e) (ev' e) \<Longrightarrow> obeys L (ev i) (ev' i) \<Longrightarrow> (\<And>v n. pure_res (f v n)) \<Longrightarrow>
   obeys L (eval_at M ev e i f) (eval_at M ev' e i f)"
  unfolding eval_at_def by (intro obeys_rules)

lemma obeys_typed_at [obeys_rules]:
  "obeys L (ev e) (ev' e) \<Longrightarrow> obeys L (ev i) (ev' i) \<Longrightarrow> (\<And>v n. pure_res (f v n)) \<Longrightarrow>
   obeys L (eval_typed_at M ev t e i f) (eval_typed_at M ev' t e i f)"
  unfolding eval_typed_at_def by (intro obeys_rules pure_results)

lemma obeys_cast_node [obeys_rules]:
  "obeys L (ev e) (ev' e) \<Longrightarrow> pure_res check \<Longrightarrow>
   obeys L (eval_cast_node M ev check t u e) (eval_cast_node M ev' check t u e)"
  unfolding eval_cast_node_def by (intro obeys_rules pure_results)

lemma obeys_apply_fun:
  assumes "\<And>x. x \<in> set (fun_exprs f) \<Longrightarrow> obeys L (ev x) (ev' x)"
    and "\<And>i c. f = FunRef i \<Longrightarrow> pr_circuits (mc_program M) i = Some c \<Longrightarrow> obeys L (ev (cir_body c)) (ev' (cir_body c))"
  shows "obeys L (apply_fun M ev f args) (apply_fun M ev' f args)"
  using assms unfolding apply_fun_def by (cases f) (auto intro!: obeys_rules obeys_call_circuit)

lemma obeys_map:
  assumes "\<And>x. x \<in> ma_expr ` set as \<Longrightarrow> obeys L (ev x) (ev' x)"
    and "\<And>args. obeys L (apply_fun M ev f args) (apply_fun M ev' f args)"
  shows "obeys L (eval_map M ev len f as) (eval_map M ev' len f as)"
  unfolding eval_map_def by (intro obeys_rules pure_results assms) simp

lemma obeys_fold:
  assumes "obeys L (ev init) (ev' init)" "\<And>x. x \<in> ma_expr ` set as \<Longrightarrow> obeys L (ev x) (ev' x)"
    and "\<And>args. obeys L (apply_fun M ev f args) (apply_fun M ev' f args)"
  shows "obeys L (eval_fold M ev len f init as) (eval_fold M ev' len f init as)"
  unfolding eval_fold_def by (intro obeys_rules pure_results assms) simp

lemma obeys_new:
  assumes "\<And>x. x \<in> set es \<Longrightarrow> obeys L (ev x) (ev' x)"
  shows "obeys L (eval_new M ev t es) (eval_new M ev' t es)"
proof -
  have "obeys L (sbind (straverse ev es) (\<lambda>vs. slift (rmap VAligned (encode_typed (mc_fab M) (VTuple vs) u))))
      (sbind (straverse ev' es) (\<lambda>vs. slift (rmap VAligned (encode_typed (mc_fab M) (VTuple vs) u))))" for u
    by (intro obeys_rules pure_results assms)
  then show ?thesis unfolding eval_new_def
    by (intro obeys_sbind) (auto intro: obeys_basics pure_results split: ty.split simp del: encode_typed.simps)
qed

text \<open>The node equations obey the law when the evaluations that they start do.\<close>

lemma obeys_node:
  assumes "\<And>x. x \<in> evaluated (mc_program M) e \<Longrightarrow> obeys L (ev x) (ev' x)"
  shows "obeys L (eval_node M ev e) (eval_node M ev' e)"
proof -
  have sub: "obeys L (ev x) (ev' x)" if "x \<in> set (sub_exprs e)" for x
    using assms that by (simp add: evaluated_def)
  have body: "obeys L (ev (cir_body c)) (ev' (cir_body c))"
    if "i \<in> set (called_names e)" "pr_circuits (mc_program M) i = Some c" for i c
    using assms called_body [OF that(2,1)] by (simp add: evaluated_def)
  show ?thesis
  proof (cases e)
    case (ECall i as)
    then show ?thesis using sub body by (auto intro!: obeys_call)
  next
    case (EMap len f as)
    have "obeys L (apply_fun M ev f args) (apply_fun M ev' f args)" for args
      by (rule obeys_apply_fun) (use EMap sub body in auto)
    then show ?thesis using EMap sub by (auto intro!: obeys_map)
  next
    case (EFold len f init t as)
    have "obeys L (apply_fun M ev f args) (apply_fun M ev' f args)" for args
      by (rule obeys_apply_fun) (use EFold sub body in auto)
    then show ?thesis using EFold sub by (auto intro!: obeys_fold)
  next
    case (EPublicLedger i cls path op t ins as)
    have "obeys L (exec_ledger_query M ev ins) (exec_ledger_query M ev' ins)"
      by (rule obeys_exec_ledger_query) (use EPublicLedger sub in auto)
    then show ?thesis unfolding EPublicLedger eval_node.simps by (intro obeys_rules pure_results)
  next
    case (EEmit a b n x ins)
    have "obeys L (exec_ledger_query M ev ins) (exec_ledger_query M ev' ins)"
      by (rule obeys_exec_ledger_query) (use EEmit sub in auto)
    then show ?thesis unfolding EEmit eval_node.simps by (intro obeys_rules)
  next
    case (ELetStar bs body')
    have "obeys L (straverse (eval_binding M ev) bs) (straverse (eval_binding M ev') bs)"
      by (intro obeys_rules obeys_binding) (use ELetStar sub in auto)
    with ELetStar sub show ?thesis by (auto intro!: obeys_sbind)
  next
    case (ETuple as)
    with sub show ?thesis by (auto intro!: obeys_tuple)
  next
    case (EVectorLit as)
    with sub show ?thesis by (auto intro!: obeys_tuple)
  next
    case (ENew t es)
    with sub show ?thesis by (auto intro!: obeys_new)
  qed (use sub in \<open>auto intro!: obeys_rules pure_results simp del: encode_typed.simps\<close>)
qed

lemma obeys_eval:
  assumes "\<And>c. L NoFuel c c" shows "obeys L (eval_fuel M n e) (eval_fuel M (n + k) e)"
proof (induction n arbitrary: e)
  case 0
  show ?case by (simp add: obeys_def sm_simps assms)
next
  case (Suc n)
  then show ?case by (auto intro: obeys_node)
qed

end

end
