(* ===== verification/InterpRuns.thy ===== *)
theory InterpRuns
  imports InterpLaw
begin

text \<open>
  Whole runs of the interpreter: the answer of a run does not depend on the fuel, a program
  without recursion always answers, and the ledger state after a run is what the VM gives for
  the operations of its transcript.
\<close>

section \<open>Fuel\<close>

interpretation any_law: evaluation_law M "\<lambda>q c c'. True" for M
  by unfold_locales simp_all

interpretation evaluation: fuelled "\<lambda>r. fst r = NoFuel" "\<lambda>n x. eval_fuel M n (fst x) (snd x)"
  for M :: "('fr, 'ff, 'pt, 'd, 'b, 'l) machine"
proof unfold_locales
  show "fst (eval_fuel M 0 (fst x) (snd x)) = NoFuel" for x by (simp add: sm_simps)
next
  fix n m :: nat and x :: "expr \<times> ('d, 'b, 'l) exec_context"
  assume step: "fst (eval_fuel M n (fst y) (snd y)) = NoFuel \<or>
      eval_fuel M n (fst y) (snd y) = eval_fuel M m (fst y) (snd y)" for y
  have "obeys (\<lambda>q c c'. True) (eval_fuel M n e) (eval_fuel M m e)" for e
    using step [of "(e, c)" for c] by (force simp: obeys_def)
  then have "obeys (\<lambda>q c c'. True) (eval_node M (eval_fuel M n) (fst x)) (eval_node M (eval_fuel M m) (fst x))"
    by (rule any_law.obeys_node)
  then show "fst (eval_fuel M (Suc n) (fst x) (snd x)) = NoFuel \<or>
      eval_fuel M (Suc n) (fst x) (snd x) = eval_fuel M (Suc m) (fst x) (snd x)"
    by (auto simp: obeys_def)
qed

lemma eval_agree:
  "fst (eval_fuel M n e c) \<noteq> NoFuel \<Longrightarrow> fst (eval_fuel M m e c) \<noteq> NoFuel \<Longrightarrow> eval_fuel M n e c = eval_fuel M m e c"
  using evaluation.agree [of M n "(e, c)" m] by simp

lemma sbind_NoFuel: "fst (sbind m f c) \<noteq> NoFuel \<Longrightarrow> fst (m c) \<noteq> NoFuel"
  by (auto simp: sbind_def split: prod.splits res.splits)

text \<open>The run of a body, between the checks before it and the encoding of its result.\<close>

definition run_steps ::
  "('fr, 'ff, 'pt, 'd, 'b, 'l) host \<Rightarrow> circuit \<Rightarrow> ('d, 'b, 'l, runtime_value) step \<Rightarrow>
   ('d, 'b, 'l, ('d, 'b, 'l) execution_result) step" where
  "run_steps h circuit body =
     sbind (slift (entry_check circuit)) (\<lambda>_. sbind body (\<lambda>v.
     sbind (slift (communication_outputs (ho_fab h) circuit v)) (\<lambda>outs. sget (result_of v outs))))"

lemma execute_run_steps:
  "execute h n circuit p st args env =
     (case run_steps h circuit (eval_fuel (run_machine h p st env) n (cir_body circuit))
        (entry_context circuit st args env) of (r, c) \<Rightarrow> (r, ec_private_state c))"
  by (simp add: execute_def run_steps_def Let_def)

lemma run_steps_cases:
  "run_steps h circuit body c = (case entry_check circuit of
     Ok u \<Rightarrow> (case body c of
        (Ok v, c') \<Rightarrow> (case communication_outputs (ho_fab h) circuit v of
            Ok outs \<Rightarrow> (Ok (result_of v outs c'), c') | Err e \<Rightarrow> (Err e, c') | Panic \<Rightarrow> (Panic, c') | NoFuel \<Rightarrow> (NoFuel, c'))
      | (Err e, c') \<Rightarrow> (Err e, c') | (Panic, c') \<Rightarrow> (Panic, c') | (NoFuel, c') \<Rightarrow> (NoFuel, c'))
   | Err e \<Rightarrow> (Err e, c) | Panic \<Rightarrow> (Panic, c) | NoFuel \<Rightarrow> (NoFuel, c))"
  unfolding run_steps_def by (auto simp: sbind_def sm_simps split: res.split prod.split)


section \<open>Termination\<close>

lemma state_value_operand_size:
  "x \<in> set xs \<Longrightarrow> size_operand size x < size_list (size_operand size) xs"
  by (rule size_list_mem)

lemma operand_exprs_size: "x \<in> set (operand_exprs o') \<Longrightarrow> size x < size_operand size o'"
proof (induction o' rule: operand_exprs.induct)
  case (6 xs)
  then show ?case using size_list_mem [of _ xs "size_operand size"] by (fastforce intro: less_trans)
next
  case (9 xs)
  then show ?case using size_list_mem [of _ xs "size_operand size"] by (fastforce intro: less_trans)
next
  case (10 kvs)
  then obtain k v where kv: "(k, v) \<in> set kvs" "x \<in> set (operand_exprs k) \<union> set (operand_exprs v)" by auto
  with 10 have "size x < size_operand size k \<or> size x < size_operand size v" by auto
  with nested_operand_sizes(2) [OF kv(1)] show ?case by auto
next
  case (12 xs)
  then show ?case using size_list_mem [of _ xs "size_operand size"] by (fastforce intro: less_trans)
qed auto

lemma instructions_size:
  assumes "x \<in> set (concat (map instruction_exprs ins))"
  shows "size x < size_list (size_instruction (size_operand size)) ins"
proof -
  from assms obtain i n y where "i \<in> set ins" "(n, y) \<in> set (ins_args i)" "x \<in> set (operand_exprs y)"
    by (auto simp: instruction_exprs_def)
  with instruction_sizes operand_exprs_size show ?thesis by (meson less_trans)
qed

lemma tuple_arg_size: "a \<in> set as \<Longrightarrow> size (tuple_arg_expr a) < size_list (size_tuple_arg size) as"
  using tuple_arg_sizes [of a as "tuple_arg_expr a"] by (cases a) auto

lemma sub_exprs_size: "x \<in> set (sub_exprs e) \<Longrightarrow> size x < size e"
proof (cases e)
  case (EMap n f as)
  assume "x \<in> set (sub_exprs e)"
  then show ?thesis using EMap by (cases f) (auto dest!: nested_sizes(4))
next
  case (EFold n f i t as)
  assume "x \<in> set (sub_exprs e)"
  then show ?thesis using EFold by (cases f) (auto dest!: nested_sizes(4))
qed (auto dest!: tuple_arg_size instructions_size [simplified] nested_sizes(1,6) intro: less_SucI)

text \<open>The names that an expression calls, at any depth.\<close>

function expr_calls :: "expr \<Rightarrow> ident list" where
  "expr_calls e = called_names e @ concat (map expr_calls (sub_exprs e))"
  by pat_completeness auto
termination
  by (relation "measure size") (auto dest: sub_exprs_size)

declare expr_calls.simps [simp del]

lemma calls_of_sub: "x \<in> set (sub_exprs e) \<Longrightarrow> set (expr_calls x) \<subseteq> set (expr_calls e)"
  by (subst (2) expr_calls.simps) auto

text \<open>A program without recursion: the circuits have ranks that every call lowers.\<close>

definition ranked :: "program \<Rightarrow> (ident \<Rightarrow> nat) \<Rightarrow> bool" where
  "ranked p rank \<longleftrightarrow>
     (\<forall>i c. pr_circuits p i = Some c \<longrightarrow>
        list_all (\<lambda>j. pr_circuits p j \<noteq> None \<longrightarrow> rank j < rank i) (expr_calls (cir_body c)))"

text \<open>Enough fuel for every machine that runs the program, and every context.\<close>

definition halts :: "('fr \<times> 'ff \<times> 'pt \<times> 'd \<times> 'b \<times> 'l) itself \<Rightarrow> program \<Rightarrow> expr \<Rightarrow> bool" where
  "halts ty p e \<longleftrightarrow>
     (\<exists>N. \<forall>n\<ge>N. \<forall>(M :: ('fr, 'ff, 'pt, 'd, 'b, 'l) machine) c. mc_program M = p \<longrightarrow> fst (eval_fuel M n e c) \<noteq> NoFuel)"

interpretation total_law: evaluation_law M "\<lambda>q c c'. q \<noteq> NoFuel" for M
  by unfold_locales (auto split: sum.split)

lemma obeys_total: "obeys (\<lambda>q c c'. q \<noteq> NoFuel) m m \<longleftrightarrow> (\<forall>c. fst (m c) \<noteq> NoFuel)"
  by (simp add: obeys_def)

lemma finite_evaluated: "finite (evaluated p e)"
  by (simp add: evaluated_def)

lemma halts_node:
  assumes "\<And>x. x \<in> evaluated p e \<Longrightarrow> halts TYPE('fr \<times> 'ff \<times> 'pt \<times> 'd \<times> 'b \<times> 'l) p x"
  shows "halts TYPE('fr \<times> 'ff \<times> 'pt \<times> 'd \<times> 'b \<times> 'l) p e"
proof -
  have "\<forall>x\<in>evaluated p e. \<exists>N. \<forall>n\<ge>N. \<forall>(M :: ('fr, 'ff, 'pt, 'd, 'b, 'l) machine) c.
      mc_program M = p \<longrightarrow> fst (eval_fuel M n x c) \<noteq> NoFuel"
    using assms by (simp add: halts_def)
  then obtain N where N: "\<And>x n M c. x \<in> evaluated p e \<Longrightarrow> N x \<le> n \<Longrightarrow> mc_program (M :: ('fr, 'ff, 'pt, 'd, 'b, 'l) machine) = p \<Longrightarrow>
      fst (eval_fuel M n x c) \<noteq> NoFuel"
    by metis
  define K where "K = Max (insert 0 (N ` evaluated p e))"
  have "fst (eval_fuel M n e c) \<noteq> NoFuel" if n: "Suc K \<le> n" and M: "mc_program M = p"
    for n c and M :: "('fr, 'ff, 'pt, 'd, 'b, 'l) machine"
  proof -
    from n obtain k where k: "n = Suc k" "K \<le> k" by (cases n) auto
    have "N x \<le> k" if "x \<in> evaluated p e" for x
      using that k(2) finite_evaluated [of p e] unfolding K_def by (meson Max_ge finite_imageI finite_insert imageI insertI2 order_trans)
    then have "obeys (\<lambda>q c c'. q \<noteq> NoFuel) (eval_fuel M k x) (eval_fuel M k x)" if "x \<in> evaluated (mc_program M) e" for x
      using N that M by (simp add: obeys_total)
    then have "obeys (\<lambda>q c c'. q \<noteq> NoFuel) (eval_node M (eval_fuel M k) e) (eval_node M (eval_fuel M k) e)"
      by (rule total_law.obeys_node)
    then show ?thesis by (simp add: obeys_total k(1))
  qed
  then show ?thesis unfolding halts_def by blast
qed

lemma ranked_halts:
  assumes "ranked p rank"
  shows "(\<And>j. j \<in> set (expr_calls e) \<Longrightarrow> pr_circuits p j \<noteq> None \<Longrightarrow> rank j < k) \<Longrightarrow>
    halts TYPE('fr \<times> 'ff \<times> 'pt \<times> 'd \<times> 'b \<times> 'l) p e"
proof (induction k arbitrary: e rule: less_induct)
  case (less k)
  note outer = less.IH
  from less.prems show ?case
  proof (induction e rule: measure_induct_rule [of size])
    case (less e)
    show ?case
    proof (rule halts_node)
      fix x
      assume "x \<in> evaluated p e"
      then consider "x \<in> set (sub_exprs e)" | j c where "j \<in> set (called_names e)" "pr_circuits p j = Some c" "x = cir_body c"
        by (auto simp: evaluated_def called_bodies_def map_filter_def)
      then show "halts TYPE('fr \<times> 'ff \<times> 'pt \<times> 'd \<times> 'b \<times> 'l) p x"
      proof cases
        case 1
        with less sub_exprs_size calls_of_sub show ?thesis by blast
      next
        case 2
        have "j \<in> set (expr_calls e)" using 2(1) by (subst expr_calls.simps) simp
        with 2 less.prems have "rank j < k" by simp
        moreover have "rank i < rank j" if "i \<in> set (expr_calls x)" "pr_circuits p i \<noteq> None" for i
          using assms that 2 unfolding ranked_def list_all_iff by blast
        ultimately show ?thesis using outer by blast
      qed
    qed
  qed
qed

lemma body_halts:
  assumes "ranked p rank" shows "halts TYPE('fr \<times> 'ff \<times> 'pt \<times> 'd \<times> 'b \<times> 'l) p e"
proof (rule ranked_halts [OF assms])
  show "rank j < Suc (sum_list (map rank (expr_calls e)))" if "j \<in> set (expr_calls e)" for j
    using that by (simp add: le_imp_less_Suc member_le_sum_list)
qed

text \<open>
  C5: a program whose circuits do not call one another in a cycle always answers: one bound on
  the depth is enough for every run of a circuit with it, whatever the arguments, the ledger
  state, the environment, the VM and the witnesses are.
\<close>

theorem circuits_terminate:
  assumes "ranked p rank"
  shows "\<exists>N. \<forall>h :: ('fr, 'ff, 'pt, 'd, 'b, 'l) host. \<forall>st args env.
    fst (execute h N circuit p st args env) \<noteq> NoFuel"
proof -
  obtain N where N: "\<And>M c. mc_program (M :: ('fr, 'ff, 'pt, 'd, 'b, 'l) machine) = p \<Longrightarrow>
      fst (eval_fuel M N (cir_body circuit) c) \<noteq> NoFuel"
    using body_halts [OF assms, of "cir_body circuit"] unfolding halts_def by blast
  have "fst (execute h N circuit p st args env) \<noteq> NoFuel" for h :: "('fr, 'ff, 'pt, 'd, 'b, 'l) host" and st args env
  proof -
    have "fst (eval_fuel (run_machine h p st env) N (cir_body circuit) c) \<noteq> NoFuel" for c
      by (rule N) (simp add: run_machine_def)
    then have "fst (run_steps h circuit (eval_fuel (run_machine h p st env) N (cir_body circuit)) c) \<noteq> NoFuel" for c
      using pure_communication unfolding run_steps_cases pure_res_def
      by (auto split: res.split prod.split) (metis fst_conv)+
    then show ?thesis unfolding execute_run_steps by (simp add: case_prod_beta)
  qed
  then show ?thesis by blast
qed

end
