(* ===== verification/InterpReplay.thy ===== *)
theory InterpReplay
  imports InterpRuns
begin

text \<open>
  What a successful run leaves behind: the ledger state, the reads and the logs are what the VM
  gives for the operations that the run gathered, and the public transcript pairs these
  operations with the reads.
\<close>

section \<open>Replaying the gathered operations\<close>

text \<open>The VM on batches of operations, each batch a query of its own.\<close>

fun run_batches ::
  "('d \<Rightarrow> unit vm_op list \<Rightarrow> ('l gather_event list \<times> 'd) option) \<Rightarrow> 'd \<Rightarrow> unit vm_op list list \<Rightarrow>
   ('l gather_event list \<times> 'd) option" where
  "run_batches query data [] = Some ([], data)"
| "run_batches query data (ops # batches) =
     (case query data ops of
        None \<Rightarrow> None
      | Some (events, data') \<Rightarrow>
          map_option (\<lambda>(events', data''). (events @ events', data'')) (run_batches query data' batches))"

lemma run_batches_append:
  "run_batches query data bs = Some (events, data') \<Longrightarrow>
   run_batches query data (bs @ cs) = map_option (\<lambda>(events', d). (events @ events', d)) (run_batches query data' cs)"
proof (induction bs arbitrary: data events)
  case (Cons ops bs)
  then obtain es d es' where "query data ops = Some (es, d)" "run_batches query d bs = Some (es', data')" "events = es @ es'"
    by (auto split: option.splits)
  with Cons.IH [of d es'] show ?case by (cases "run_batches query data' cs") auto
qed (simp add: option.map_id)

lemma event_reads_append [simp]: "event_reads (es @ es') = event_reads es @ event_reads es'"
  by (simp add: event_reads_def map_filter_def)

lemma event_logs_append [simp]: "event_logs (es @ es') = event_logs es @ event_logs es'"
  by (simp add: event_logs_def map_filter_def)

lemma event_empty [simp]: "event_reads [] = []" "event_logs [] = []"
  by (simp_all add: event_reads_def event_logs_def map_filter_def)

definition machine_query :: "('fr, 'ff, 'pt, 'd, 'b, 'l) machine \<Rightarrow> 'd \<Rightarrow> unit vm_op list \<Rightarrow> ('l gather_event list \<times> 'd) option" where
  "machine_query M d ops = mc_query M d (mc_call_context M) ops"

text \<open>
  From context \<open>c\<close> to context \<open>c'\<close> the VM ran \<open>batches\<close>; the operations \<open>refused\<close> were
  gathered and the VM refused them.
\<close>

definition replays ::
  "('fr, 'ff, 'pt, 'd, 'b, 'l) machine \<Rightarrow> unit vm_op list list \<Rightarrow> unit vm_op list \<Rightarrow>
   ('d, 'b, 'l) exec_context \<Rightarrow> ('d, 'b, 'l) exec_context \<Rightarrow> bool" where
  "replays M batches refused c c' \<longleftrightarrow>
     (\<exists>events. run_batches (machine_query M) (cs_data (ec_state c)) batches = Some (events, cs_data (ec_state c')) \<and>
        ec_gather_ops c' = ec_gather_ops c @ concat batches @ refused \<and>
        ec_reads c' = ec_reads c @ event_reads events \<and> ec_logs c' = ec_logs c @ event_logs events \<and>
        cs_balance (ec_state c') = cs_balance (ec_state c))"

definition replay_law :: "('fr, 'ff, 'pt, 'd, 'b, 'l) machine \<Rightarrow> ('d, 'b, 'l) law" where
  "replay_law M q c c' \<longleftrightarrow> (\<exists>batches refused. replays M batches refused c c' \<and> (q = Ok () \<longrightarrow> refused = []))"

lemma replays_none: "replays M [] [] c c' \<longleftrightarrow>
    ec_state c' = ec_state c \<and> ec_gather_ops c' = ec_gather_ops c \<and> ec_reads c' = ec_reads c \<and> ec_logs c' = ec_logs c"
  by (cases "ec_state c"; cases "ec_state c'") (auto simp: replays_def)

lemma replays_trans:
  assumes "replays M bs [] c c'" "replays M bs' rest c' c''"
  shows "replays M (bs @ bs') rest c c''"
  using assms run_batches_append [of "machine_query M" "cs_data (ec_state c)" bs _ "cs_data (ec_state c')" bs']
  unfolding replays_def by fastforce

lemma replay_unchanged:
  "ec_state c' = ec_state c \<Longrightarrow> ec_gather_ops c' = ec_gather_ops c \<Longrightarrow> ec_reads c' = ec_reads c \<Longrightarrow>
   ec_logs c' = ec_logs c \<Longrightarrow> replay_law M q c c'"
  unfolding replay_law_def by (intro exI [of _ "[]"]) (simp add: replays_none)

interpretation replay: evaluation_law M "replay_law M" for M
proof unfold_locales
  show "replay_law M q c c''" if "replay_law M (Ok ()) c c'" "replay_law M q c' c''" for q c c' c''
    using that replays_trans unfolding replay_law_def by blast
  show "replay_law M q c (c'\<lparr>ec_locals := ls, ec_local_types := ts\<rparr>)" if "replay_law M q c c'" for q c c' ls ts
    using that by (simp add: replay_law_def replays_def)
  show "replay_law M (Ok ()) c (c\<lparr>ec_gather_ops := ec_gather_ops c @ ops, ec_logs := ec_logs c @ event_logs events,
      ec_state := (ec_state c)\<lparr>cs_data := data\<rparr>, ec_reads := ec_reads c @ event_reads events\<rparr>)"
    if "mc_query M (cs_data (ec_state c)) (mc_call_context M) ops = Some (events, data)" for c ops events data
    unfolding replay_law_def
    by (rule exI [of _ "[ops]"], rule exI [of _ "[]"]) (simp add: replays_def machine_query_def that)
  show "replay_law M (Err (LedgerQueryFailed ''query'')) c (c\<lparr>ec_gather_ops := ec_gather_ops c @ ops\<rparr>)" for c ops
    unfolding replay_law_def by (rule exI [of _ "[]"], rule exI [of _ ops]) (simp add: replays_def)
qed (simp_all add: replay_unchanged)

text \<open>
  C4: the ledger state after a successful run is the one that the gathered operations lead to:
  they fall into batches that the VM accepts one after the other, starting from the state before
  the run; the reads and the logs of the run are the events of these batches, in order, and the
  balance is untouched.
\<close>

theorem run_replays_transcript:
  assumes "execute h n circuit p st args env = (Ok r, private)"
  shows "\<exists>batches events.
    run_batches (machine_query (run_machine h p st env)) (cs_data st) batches = Some (events, cs_data (er_state r)) \<and>
    er_gather_ops r = concat batches \<and> er_reads r = event_reads events \<and> er_logs r = event_logs events \<and>
    cs_balance (er_state r) = cs_balance st"
proof -
  let ?M = "run_machine h p st env" and ?c = "entry_context circuit st args env"
  obtain v c outs where run: "eval_fuel ?M n (cir_body circuit) ?c = (Ok v, c)" and r: "r = result_of v outs c"
    using assms unfolding execute_run_steps run_steps_cases
    by (auto split: res.splits prod.splits)
  have "obeys (replay_law ?M) (eval_fuel ?M n (cir_body circuit)) (eval_fuel ?M (n + 0) (cir_body circuit))"
    by (rule replay.obeys_eval) (simp add: replay_unchanged)
  from obeysD [OF this run] have "replay_law ?M (Ok ()) ?c c" by simp
  then obtain batches where "replays ?M batches [] ?c c" unfolding replay_law_def by blast
  then show ?thesis unfolding replays_def r result_of_def entry_context_def by auto
qed

section \<open>The public transcript\<close>

fun popeq_results :: "'r vm_op list \<Rightarrow> 'r list" where
  "popeq_results [] = []"
| "popeq_results (VoPopeq cached x # ops) = x # popeq_results ops"
| "popeq_results (op # ops) = popeq_results ops"

lemma fill_reads_ops: "map (map_vm_op (\<lambda>_. ())) (fill_reads h ops avs) = ops"
proof (induction ops arbitrary: avs)
  case (Cons op ops)
  then show ?case by (cases op) (auto split: list.split)
qed simp

lemma fill_reads_results:
  "popeq_results (fill_reads h ops avs) =
   take (length (popeq_results ops)) avs @ replicate (length (popeq_results ops) - length avs) (fh_unit h)"
proof (induction ops arbitrary: avs)
  case (Cons op ops)
  then show ?case by (cases op) (auto split: list.split)
qed simp

text \<open>
  C7: the public transcript is the list of the gathered operations, none dropped and none moved,
  and its \<^verbatim>\<open>popeq\<close> results are the reads in order, followed by the empty value where there
  are no more reads.
\<close>

theorem public_transcript_fills_reads:
  "map (map_vm_op (\<lambda>_. ())) (public_transcript h r) = er_gather_ops r \<and>
   popeq_results (public_transcript h r) =
     (let k = length (popeq_results (er_gather_ops r)) in
      take k (er_reads r) @ replicate (k - length (er_reads r)) (fh_unit h))"
  by (simp add: public_transcript_def fill_reads_ops fill_reads_results Let_def)

end
