(* ===== verification/InterpSamples.thy ===== *)
theory InterpSamples
  imports InterpReplay
begin

text \<open>
  A sample host for whole runs, with a VM that counts, and the runs of a small program on it: the
  properties of runs at work.
\<close>

section \<open>Sample runs\<close>

definition sample_crypto :: "(u128, u128, u128 \<times> u128) crypto_host" where
  "sample_crypto =
     \<lparr>ch_binary_repr = (\<lambda>av. concat (al_value av)), ch_field_vec = (\<lambda>av. map (\<lambda>a. of_nat (nat_of_le a)) (al_value av)),
      ch_persistent_commit = (\<lambda>av op. op), ch_transient_commit = (\<lambda>av x. x), ch_persistent_hash = (\<lambda>bs. bs),
      ch_keccak256 = (\<lambda>bs. bs), ch_sha512 = (\<lambda>bs. bs), ch_transient_hash = sum_list,
      ch_degrade = (\<lambda>bs. of_nat (nat_of_le bs)), ch_upgrade = u128_le_bytes, ch_hash_to_curve = (\<lambda>av. (0, 1)),
      ch_ec_generator = (0, 1), ch_ec_mul = (\<lambda>p x. p), ch_ec_neg = (\<lambda>p. p), ch_ec_new = (\<lambda>x y. Some (x, y)),
      ch_ec_x = (\<lambda>p. Some (fst p)), ch_ec_y = (\<lambda>p. Some (snd p)), ch_group_add = (\<lambda>c p q. p),
      ch_group_mul = (\<lambda>c p x. p), ch_group_generator = (\<lambda>c. (0, 1)), ch_coordinates = (\<lambda>c p. Some p),
      ch_ff_neg = (\<lambda>f x. - x), ch_ff_inv = (\<lambda>f x. if x = 0 then None else Some x)\<rparr>"

text \<open>
  The VM of the sample: the data is a counter that an \<open>addi\<close> raises, and a \<open>popeq\<close> reads it; it
  refuses a \<open>rem\<close>.
\<close>

fun sample_op :: "nat \<Rightarrow> unit vm_op \<Rightarrow> (unit gather_event list \<times> nat) option" where
  "sample_op d (VoAddi n) = Some ([], d + unat n)"
| "sample_op d (VoPopeq cached u) = Some ([EvRead (fh_u64 sample_host (of_nat d))], d)"
| "sample_op d (VoRem cached) = None"
| "sample_op d VoLog = Some ([EvLog ()], d)"
| "sample_op d op = Some ([], d)"

fun sample_query :: "nat \<Rightarrow> unit call_context \<Rightarrow> unit vm_op list \<Rightarrow> (unit gather_event list \<times> nat) option" where
  "sample_query d cc [] = Some ([], d)"
| "sample_query d cc (op # ops) =
     (case sample_op d op of
        None \<Rightarrow> None
      | Some (es, d') \<Rightarrow> map_option (\<lambda>(es', d''). (es @ es', d'')) (sample_query d' cc ops))"

definition sample_run :: "(u128, u128, u128 \<times> u128, nat, unit, unit) host" where
  "sample_run = \<lparr>ho_fab = sample_host, ho_crypto = sample_crypto, ho_query = sample_query\<rparr>"

definition sample_state :: "(nat, unit) contract_state" where
  "sample_state = \<lparr>cs_data = 5, cs_balance = ()\<rparr>"

text \<open>A circuit that raises the counter twice through a helper circuit, reads it, and returns nothing.\<close>

definition raise_circuit :: circuit where
  "raise_circuit = \<lparr>cir_name = ''%raise.1'', cir_exported = False, cir_pure = False, cir_proof = True,
     cir_arguments = [\<lparr>arg_name = ''%by.2'', arg_ty = TyUnsigned 65535\<rparr>], cir_result_type = TyTuple [],
     cir_body = EPublicLedger ''%n.0'' (Plain ''update'') [] ''increment'' (TyTuple [])
       [Instruction OpAddi [(''immediate'', OValueToInt (OExpr (EVarRef ''%by.2'')))]] []\<rparr>"

definition total_circuit :: circuit where
  "total_circuit = \<lparr>cir_name = ''%total.3'', cir_exported = True, cir_pure = False, cir_proof = True,
     cir_arguments = [], cir_result_type = TyTuple [],
     cir_body = ESeq [ECall ''%raise.1'' [EQuote (LInt 2)], ECall ''%raise.1'' [EQuote (LInt 3)],
       EPublicLedger ''%n.0'' (Plain ''read'') [] ''read'' (TyUnsigned 65535) [Instruction OpPopeq []] [],
       ETuple []]\<rparr>"

definition sample_program :: program where
  "sample_program = program_new [raise_circuit, total_circuit] [] []"

lemma sample_program_circuits:
  "pr_circuits sample_program = [''%raise.1'' \<mapsto> raise_circuit, ''%total.3'' \<mapsto> total_circuit]"
  by (rule ext) (simp add: sample_program_def program_new_def map_from_list_def raise_circuit_def total_circuit_def)

lemma sample_ranked: "ranked sample_program (\<lambda>i. if i = ''%total.3'' then 1 else 0)"
  by (auto simp: ranked_def sample_program_circuits raise_circuit_def total_circuit_def expr_calls.simps
      instruction_exprs_def split: if_splits)

theorem circuits_terminate_witness:
  "\<exists>N. \<forall>h :: (u128, u128, u128 \<times> u128, nat, unit, unit) host. \<forall>st args env.
    fst (execute h N total_circuit sample_program st args env) \<noteq> NoFuel"
  by (rule circuits_terminate [OF sample_ranked])

abbreviation "sample_machine \<equiv> run_machine sample_run sample_program sample_state (env_new 0)"

lemma raise_step:
  "eval_fuel sample_machine (Suc (Suc n)) (cir_body raise_circuit) c =
     (case ec_locals c ''%by.2'' of
        Some v \<Rightarrow> (case value_as_u32 v of
            Some k \<Rightarrow> (Ok VVoid, c\<lparr>ec_gather_ops := ec_gather_ops c @ [VoAddi k],
                ec_state := (ec_state c)\<lparr>cs_data := cs_data (ec_state c) + unat k\<rparr>\<rparr>)
          | None \<Rightarrow> (Err (TypeError ''immediate is not u32''), c))
      | None \<Rightarrow> (Err (UndefinedVariable ''%by.2''), c))"
  by (simp add: raise_circuit_def check_run_type_def exec_ledger_query_def build_op_def operand_arg_def
      instruction_arg_def resolve_immediate_def run_query_def run_machine_def sample_run_def sbind_def sm_simps
      split: option.split)

lemma sample_callee: "program_callee sample_program ''%raise.1'' = CalleeCircuit raise_circuit"
  "program_result_type sample_program ''%raise.1'' = Some (TyTuple [])"
  by (simp_all add: program_callee_def program_declaration_def sample_program_circuits program_result_type_def
      raise_circuit_def)

lemma call_raise:
  assumes "k < 100"
  shows "eval_fuel sample_machine (Suc (Suc (Suc n))) (ECall ''%raise.1'' [EQuote (LInt (int k))]) c =
     (Ok VVoid, c\<lparr>ec_gather_ops := ec_gather_ops c @ [VoAddi (of_nat k)],
        ec_state := (ec_state c)\<lparr>cs_data := cs_data (ec_state c) + k\<rparr>\<rparr>)"
proof -
  have k: "unat (word_of_nat k :: u128) = k" "unat (word_of_nat k :: u32) = k"
    "ucast (word_of_nat k :: u128) = (word_of_nat k :: u32)"
    using assms by (simp_all add: unsigned_of_nat take_bit_nat_def)
  have body: "eval_fuel sample_machine (Suc (Suc n)) (EPublicLedger ''%n.0'' (Plain ''update'') [] ''increment'' (TyTuple [])
       [Instruction OpAddi [(''immediate'', OValueToInt (OExpr (EVarRef ''%by.2'')))]] []) c = (Ok VVoid,
      c\<lparr>ec_gather_ops := ec_gather_ops c @ [VoAddi (of_nat k)],
        ec_state := (ec_state c)\<lparr>cs_data := cs_data (ec_state c) + k\<rparr>\<rparr>)"
    if "ec_locals c ''%by.2'' = Some (VInteger (of_nat k))" for c
    using raise_step [of n c] that assms by (simp add: raise_circuit_def value_as_u32_def k del: eval_fuel.simps)
  have arg: "eval_fuel sample_machine (Suc (Suc n)) (EQuote (LInt (int k))) = sret (VInteger (of_nat k))"
    using assms by (intro ext) (simp add: eval_literal_def sm_simps)
  have program: "mc_program sample_machine = sample_program" by (simp add: run_machine_def)
  show ?thesis
    unfolding eval_fuel.simps(2) [of _ "Suc (Suc n)"] eval_node.simps eval_call_def
    by (simp add: program sample_callee check_run_type_def arg call_circuit_def
      with_parameters_def bind_local_def sbind_apply sm_simps raise_circuit_def body del: eval_fuel.simps)
qed

definition sample_result :: "(nat, unit, unit) execution_result" where
  "sample_result =
     \<lparr>er_state = \<lparr>cs_data = 10, cs_balance = ()\<rparr>, er_reads = [fh_u64 sample_host 10],
      er_gather_ops = [VoAddi 2, VoAddi 3, VoPopeq False ()], er_result = VVoid, er_communication_outputs = [],
      er_private_outputs = [], er_zswap_outputs = [], er_zswap_inputs = [], er_logs = []\<rparr>"

lemma sample_execution:
  "execute sample_run (Suc (Suc (Suc (Suc n)))) total_circuit sample_program sample_state [] (env_new 0) = (Ok sample_result, [])"
proof -
  let ?c = "entry_context total_circuit sample_state [] (env_new 0) :: (nat, unit, unit) exec_context"
  define c where "c = ?c\<lparr>ec_gather_ops := [VoAddi 2, VoAddi 3], ec_state := \<lparr>cs_data = 10, cs_balance = ()\<rparr>\<rparr>"
  have calls: "sfold (\<lambda>v. eval_fuel sample_machine (Suc (Suc (Suc n))))
      (ECall ''%raise.1'' [EQuote (LInt 2)] # ECall ''%raise.1'' [EQuote (LInt 3)] # es) VVoid ?c =
      sfold (\<lambda>v. eval_fuel sample_machine (Suc (Suc (Suc n)))) es VVoid c" for es
    using call_raise [of 2 n ?c] call_raise [of 3 n "?c\<lparr>ec_gather_ops := [VoAddi 2], ec_state := \<lparr>cs_data = 7, cs_balance = ()\<rparr>\<rparr>"]
    by (simp add: c_def entry_context_def sample_state_def sbind_apply del: eval_fuel.simps)
  have read: "eval_fuel sample_machine (Suc (Suc (Suc n)))
      (EPublicLedger ''%n.0'' (Plain ''read'') [] ''read'' (TyUnsigned 65535) [Instruction OpPopeq []] []) c =
      (Ok (VAligned (fh_u64 sample_host 10)), c\<lparr>ec_gather_ops := [VoAddi 2, VoAddi 3, VoPopeq False ()],
        ec_reads := [fh_u64 sample_host 10]\<rparr>)"
    by (simp add: c_def entry_context_def check_run_type_def exec_ledger_query_def build_op_def flag_def
      instruction_arg_def run_query_def run_machine_def sample_run_def sbind_apply sm_simps event_reads_def event_logs_def
      map_filter_def)
  have unit: "eval_fuel sample_machine (Suc (Suc (Suc n))) (ETuple []) = sret VVoid"
    by (simp add: eval_tuple_def)
  have body: "cir_body total_circuit = ESeq [ECall ''%raise.1'' [EQuote (LInt 2)], ECall ''%raise.1'' [EQuote (LInt 3)],
       EPublicLedger ''%n.0'' (Plain ''read'') [] ''read'' (TyUnsigned 65535) [Instruction OpPopeq []] [], ETuple []]"
    by (simp add: total_circuit_def)
  have "eval_fuel sample_machine (Suc (Suc (Suc (Suc n)))) (cir_body total_circuit) ?c =
      (Ok VVoid, c\<lparr>ec_gather_ops := [VoAddi 2, VoAddi 3, VoPopeq False ()], ec_reads := [fh_u64 sample_host 10]\<rparr>)"
    unfolding eval_fuel.simps(2) [of _ "Suc (Suc (Suc n))"] body eval_node.simps calls
    by (simp add: read unit sbind_apply sm_simps del: eval_fuel.simps)
  moreover have "entry_check total_circuit = Ok ()"
    by (simp add: entry_check_def check_run_type_def total_circuit_def)
  ultimately show ?thesis
    unfolding execute_run_steps run_steps_cases
    by (simp add: communication_outputs_def sample_result_def result_of_def c_def entry_context_def env_new_def
        del: eval_fuel.simps)
qed


theorem run_replays_transcript_witness:
  "\<exists>batches events.
    run_batches (machine_query sample_machine) 5 batches = Some (events, 10) \<and>
    [VoAddi 2, VoAddi 3, VoPopeq False ()] = concat batches \<and> [fh_u64 sample_host 10] = event_reads events \<and>
    [] = event_logs events \<and> () = ()"
  using run_replays_transcript [OF sample_execution [of 0]] by (simp add: sample_result_def sample_state_def)

end
