(* ===== verification/InterpNodes.thy ===== *)
theory InterpNodes
  imports InterpSamples
begin

text \<open>
  The properties of single nodes of the interpreter: arithmetic, casts, bytes as vectors, and
  the casts that the loader admits and the interpreter refuses.
\<close>

section \<open>Arithmetic on Uint\<close>

text \<open>The result of an operation on the integers, where it has no width.\<close>

fun int_op :: "arith_op \<Rightarrow> int \<Rightarrow> int \<Rightarrow> int" where
  "int_op ArAdd a b = a + b"
| "int_op ArSub a b = a - b"
| "int_op ArMul a b = a * b"

lemma u128_of_nat_int: "u128_of_nat n = (if int n < 2 ^ 128 then Some (of_int (int n)) else None)"
proof -
  have "n < 2 ^ 128 \<longleftrightarrow> int n < int (2 ^ 128)" by (simp only: of_nat_less_iff)
  also have "int (2 ^ 128) = 2 ^ 128" by (simp only: of_nat_power of_nat_numeral)
  finally show ?thesis by (simp only: u128_of_nat_def of_int_of_nat_eq)
qed

text \<open>
  C34: arithmetic on Uint operands never wraps: the result is the one of the integers, without the
  reduction to 128 bits, and where it does not fit a Uint the step fails.
\<close>

theorem uint_arith_exact:
  "arith_values h (TyUnsigned m) op (VInteger a) (VInteger b) =
   (let z = int_op op (uint a) (uint b) in
    if z < 0 then Err (TypeError ''the Uint result is negative'')
    else if z < 2 ^ 128 then Ok (VInteger (of_int z)) else Err uint_above_u128)"
proof -
  have eq: "arith_values h (TyUnsigned m) op (VInteger a) (VInteger b) = rmap VInteger (uint_op op a b)"
    by (simp add: arith_values_def value_to_u128_def)
  show ?thesis
  proof (cases op)
    case ArAdd
    have "int (unat a + unat b) = uint a + uint b" by simp
    moreover have "\<not> uint a + uint b < 0" using uint_ge_0 [of a] uint_ge_0 [of b] by linarith
    ultimately show ?thesis unfolding ArAdd eq [unfolded ArAdd]
      by (simp only: uint_op_def arith_op.case u128_of_nat_int int_op.simps Let_def) simp
  next
    case ArMul
    have "int (unat a * unat b) = uint a * uint b" "\<not> uint a * uint b < 0" by (simp_all add: not_less)
    then show ?thesis unfolding ArMul eq [unfolded ArMul]
      by (simp only: uint_op_def arith_op.case u128_of_nat_int int_op.simps Let_def) simp
  next
    case ArSub
    have "unat b \<le> unat a \<longleftrightarrow> uint b \<le> uint a" by (simp only: uint_nat of_nat_le_iff)
    then have "unat b \<le> unat a \<longleftrightarrow> \<not> uint a - uint b < 0" by linarith
    moreover have "uint a < 2 ^ 128" using uint_bounded [of a] by simp
    then have "uint a - uint b < 2 ^ 128" using uint_ge_0 [of b] by linarith
    moreover have "of_int (uint a - uint b) = a - b" by simp
    ultimately show ?thesis unfolding ArSub eq [unfolded ArSub]
      by (simp only: uint_op_def arith_op.case int_op.simps Let_def) simp
  qed
qed

section \<open>Casts to Uint\<close>

definition number_of :: "('fr, 'ff, 'pt) fab_host \<Rightarrow> runtime_value \<Rightarrow> ty \<Rightarrow> nat run" where
  "number_of h v from_ty =
     (case resolved from_ty of
        TyBytes len \<Rightarrow> rbind (ir_length len) (\<lambda>k. rmap nat_of_le (padded_bytes v k))
      | _ \<Rightarrow> numeric_value h v)"

text \<open>
  C35: a cast to a Uint, of a Field, a Uint, an enum or a byte string, either fails or leaves the
  number of the operand unchanged and below the bound of the target; it never truncates.
\<close>

theorem uint_cast_exact:
  assumes "eval_cast h v from_ty (TyUnsigned m) = Ok w"
  shows "\<exists>n. w = VInteger n \<and> number_of h v from_ty = Ok (unat n) \<and> unat n \<le> m"
proof -
  have bound: "\<exists>n. w = VInteger n \<and> unat n = k \<and> unat n \<le> m"
    if "(if m < k then Err err else uint_value k) = Ok w" for k err
  proof -
    have "unat (of_nat k :: u128) = k" if "k < 2 ^ 128" using that by (simp add: unsigned_of_nat take_bit_nat_def)
    with that show ?thesis by (auto simp: uint_value_def u128_of_nat_def split: if_splits)
  qed
  have cast: "cast_to_uint h v from_ty m = Ok w" using assms by (simp add: eval_cast_def)
  show ?thesis
  proof (cases "\<exists>len. resolved from_ty = TyBytes len")
    case True
    with cast show ?thesis
      by (auto simp: cast_to_uint_def number_of_def dest!: bound)
  next
    case False
    then have "cast_to_uint h v from_ty m = rbind (numeric_value h v) (\<lambda>n. if m < n
        then Err (AssertionFailed ''cast from Field or Uint value to smaller Uint value failed'') else uint_value n)"
      and "number_of h v from_ty = numeric_value h v"
      by (auto simp: cast_to_uint_def number_of_def split: ty.split)
    with cast show ?thesis by (auto dest!: bound)
  qed
qed

theorem uint_cast_exact_witness:
  "\<exists>n. VInteger 200 = VInteger n \<and> number_of sample_host (VInteger 200) (TyUnsigned 1000) = Ok (unat n) \<and> unat n \<le> 255"
  by (rule uint_cast_exact)
    (simp add: eval_cast_def cast_to_uint_def numeric_value_def uint_value_def u128_of_nat_def)

section \<open>Bytes as vectors\<close>

lemma bytes_of_elements:
  assumes "\<And>b. aligned_atom_to_u128 h (fh_u8 h b) = Some (ucast b)"
  shows "vector_value_to_bytes h (VTuple (map (\<lambda>b. VAligned (fh_u8 h b)) bs)) (length bs) = Ok bs"
proof -
  have "byte_of (ucast b) = Ok b" for b :: u8
    using unsigned_less [of b, where ?'a = nat] by (simp add: byte_of_def unsigned_ucast_eq take_bit_word_eq_self take_bit_nat_def)
  then have "traverse (\<lambda>e. rbind (ok_or err (value_to_u128 h e)) byte_of) (map (\<lambda>b. VAligned (fh_u8 h b)) bs) = Ok bs" for err
    by (induction bs) (simp_all add: value_to_u128_def assms)
  then show ?thesis by (simp add: vector_value_to_bytes_def)
qed

lemma padded_length: "padded_bytes v n = Ok bs \<Longrightarrow> length bs = n"
  by (auto simp: padded_bytes_def value_to_byte_string_def split: runtime_value.splits list.splits if_splits)

text \<open>
  C36: turning a byte string into a vector of bytes and back gives the string of the same bytes,
  padded with zeros to its length, provided that the first atom of an encoded \<^verbatim>\<open>u8\<close> is the
  byte; the state of the run is the one that the operand leaves.
\<close>

theorem bytes_vector_roundtrip:
  assumes "\<And>b. aligned_atom_to_u128 (mc_fab M) (fh_u8 (mc_fab M) b) = Some (ucast b)"
    and "eval_fuel M n e c = (Ok v, c')" and "padded_bytes v (unat len) = Ok bs"
  shows "eval_fuel M (Suc (Suc n)) (EVectorToBytes len (EBytesToVector len e)) c =
    (rmap VAligned (bytes_aligned_value (mc_fab M) bs (unat len)), c')"
proof -
  have "ir_length len = Ok (unat len)"
    by (simp add: ir_length_def)
  then show ?thesis
    using assms(2,3) padded_length [OF assms(3)] bytes_of_elements [of "mc_fab M" bs, OF assms(1)]
    by (simp add: sbind_apply sm_simps)
qed

lemma sample_u8: "aligned_atom_to_u128 sample_host (fh_u8 sample_host b) = Some (ucast b)"
proof -
  have "unat (of_nat (nat_of_le (trim_zeros [b])) :: u128) = unat b"
    using unsigned_less [of b, where ?'a = nat] by (simp add: trim_zeros_def unsigned_of_nat take_bit_nat_def)
  then have "(of_nat (nat_of_le (trim_zeros [b])) :: u128) = ucast b"
    using unsigned_less [of b, where ?'a = nat]
    by (simp add: trim_zeros_def)
  moreover have "length (trim_zeros [b]) \<le> 16" using trim_length [of "[b]"] by simp
  ultimately show ?thesis
    by (simp add: aligned_atom_to_u128_def sample_host_def one_atom_def u128_of_le_def)
qed

theorem bytes_vector_roundtrip_witness:
  "eval_fuel sample_machine (Suc (Suc 1)) (EVectorToBytes 4 (EBytesToVector 4 (EQuote (LBytes [7, 0, 9]))))
      (entry_context total_circuit sample_state [] (env_new 0)) =
    (rmap VAligned (bytes_aligned_value (mc_fab sample_machine) [7, 0, 9, 0] (unat (4 :: u64))),
     entry_context total_circuit sample_state [] (env_new 0))"
proof (rule bytes_vector_roundtrip)
  have fab: "mc_fab sample_machine = sample_host" by (simp add: run_machine_def sample_run_def)
  show "aligned_atom_to_u128 (mc_fab sample_machine) (fh_u8 (mc_fab sample_machine) b) = Some (ucast b)" for b
    unfolding fab by (rule sample_u8)
  show "eval_fuel sample_machine 1 (EQuote (LBytes [7, 0, 9])) (entry_context total_circuit sample_state [] (env_new 0)) =
    (Ok (VAligned \<lparr>al_value = [[7, 0, 9]], al_alignment = [SegAtom (AlBytes 3)]\<rparr>),
     entry_context total_circuit sample_state [] (env_new 0))"
    by (simp add: eval_literal_def fab bytes_aligned_value_def fab_lawsD(7) [OF sample_laws] trim_zeros_def sm_simps)
  show "padded_bytes (VAligned \<lparr>al_value = [[7, 0, 9]], al_alignment = [SegAtom (AlBytes 3)]\<rparr>) (unat (4 :: u64)) = Ok [7, 0, 9, 0]"
    by (simp add: padded_bytes_def value_to_byte_string_def)
qed

section \<open>Casts between the loader and the interpreter\<close>

text \<open>
  C37: the check of an artifact admits a safe cast from a type that holds no value, a ledger ADT,
  and every evaluation of the node fails with \<^verbatim>\<open>Unsupported\<close>, before it evaluates the operand.
\<close>

theorem admitted_cast_refused:
  assumes "check_type t = Ok ()" and "check_expr e = Ok ()"
  shows "check_expr (ESafeCast t (TyAdt name as) e) = Ok () \<and>
    eval_fuel M (Suc n) (ESafeCast t (TyAdt name as) e) c = (Err (Unsupported ''unsupported type''), c)"
proof -
  have "unsupported_type t = None" using assms(1) by (simp add: check_type_def split: option.splits)
  then show ?thesis using assms
    by (simp add: eval_cast_node_def check_both_def check_run_type_def sbind_apply sm_simps)
qed

theorem admitted_cast_refused_witness:
  "check_expr (ESafeCast TyBoolean (TyAdt ''Map'' []) (EQuote (LBool True))) = Ok () \<and>
    eval_fuel sample_machine (Suc 0) (ESafeCast TyBoolean (TyAdt ''Map'' []) (EQuote (LBool True)))
      (entry_context total_circuit sample_state [] (env_new 0)) =
      (Err (Unsupported ''unsupported type''), entry_context total_circuit sample_state [] (env_new 0))"
  by (rule admitted_cast_refused) (simp_all add: check_type_def)

end
