(* ===== verification/WalletReplay.thy ===== *)
theory WalletReplay
  imports Prelude
begin

text \<open>
  The replay loops of a wallet's sync, \<^verbatim>\<open>crates/midnight-wallet/src/replay.rs\<close>: the loop
  that reads the zswap and Dust event streams of the indexer, and the one that reads the
  unshielded transactions of an address.

  The indexer is an argument: for each attempt and each resume id it gives a connection, which
  refuses or delivers finitely many messages and then drops, ends or falls silent. It is bound by
  nothing, so it can repeat, skip and reorder events. The client of the WebSocket subscriptions
  and the \<^verbatim>\<open>hex\<close> and tagged codecs are parameters.
\<close>

section \<open>Shared types\<close>

type_synonym i64 = "64 word"

text \<open>An \<^verbatim>\<open>i64\<close> is read with \<^term>\<open>sint\<close>.\<close>

abbreviation i64_max :: int where
  "i64_max \<equiv> 2 ^ 63 - 1"

datatype ledger_version = V8 | V9

text \<open>The derived order of the generations: the one declared later is the larger one.\<close>

instantiation ledger_version :: linorder
begin

definition less_eq_ledger_version :: "ledger_version \<Rightarrow> ledger_version \<Rightarrow> bool" where
  "a \<le> b \<longleftrightarrow> a = V8 \<or> b = V9"

definition less_ledger_version :: "ledger_version \<Rightarrow> ledger_version \<Rightarrow> bool" where
  "a < b \<longleftrightarrow> a = V8 \<and> b = V9"

instance
proof
  show "x \<le> y \<or> y \<le> x" for x y :: ledger_version by (cases x; cases y) (simp_all add: less_eq_ledger_version_def)
qed (use ledger_version.exhaust in \<open>auto simp: less_eq_ledger_version_def less_ledger_version_def\<close>)

end

text \<open>
  An HTTP error keeps what \<^verbatim>\<open>is_retryable\<close> asks of it: whether it is an error of the request,
  whether it is a timeout, and the status.
\<close>

datatype indexer_error =
    Config string
  | Http bool bool "nat option"
  | GraphQL string
  | Transport string
  | Protocol string
  | Deserialization string
  | MissingData

fun is_retryable :: "indexer_error \<Rightarrow> bool" where
  "is_retryable (Transport s) = True"
| "is_retryable (Http is_request is_timeout status) =
     ((is_request \<and> \<not> is_timeout) \<or> (case status of Some n \<Rightarrow> 500 \<le> n \<and> n < 600 | None \<Rightarrow> False))"
| "is_retryable other = False"

text \<open>
  The errors of a wallet. A message keeps its fixed text, and \<open>MalformedUtxo\<close> and
  \<open>CorruptParameters\<close> the field they name.
\<close>

datatype wallet_error =
    Sync string
  | SyncCancelled
  | SyncTaskJoin string
  | ChainMismatch string u64 string string
  | EventOrder string i64 i64
  | MalformedUtxo string "i64 option"
  | CorruptParameters string
  | Indexer bool indexer_error
  | Transfer string
  | InsufficientDust u128 u128
  | InsufficientShielded bytes u128 u128
  | InsufficientUnshielded bytes u128 u128
  | InputsReserved string
  | DuplicateInput string
  | TtlOutOfRange nat nat
  | TtlWithoutIntent
  | Proving string
  | Storage string
  | UnknownLedger
  | LedgerMismatch ledger_version ledger_version
  | LedgerRegression string ledger_version ledger_version
  | InvalidAddress string
  | AddressNetworkMismatch string string
  | NetworkMismatch string string
  | NetworkUnknown

datatype sync_progress =
    Resuming i64 i64
  | ZswapEvents i64 i64
  | ZswapComplete nat
  | DustEvents i64 i64
  | DustComplete nat
  | UnshieldedCaughtUp nat

text \<open>What the wallet takes from other crates: the \<^verbatim>\<open>hex\<close> codec and the tags of the encodings.\<close>

record wallet_host =
  wh_hex_decode :: "string \<Rightarrow> bytes option"
  wh_hex_encode :: "bytes \<Rightarrow> string"
  wh_peek_tag :: "bytes \<Rightarrow> string option"
  wh_event_tags :: "string \<times> string"
  wh_parameter_tags :: "string \<times> string"

definition of_tagged :: "wallet_host \<Rightarrow> string \<times> string \<Rightarrow> bytes \<Rightarrow> (wallet_error, ledger_version) res" where
  "of_tagged W tags bs =
     rbind (ok_or UnknownLedger (wh_peek_tag W bs)) (\<lambda>tag.
       if tag = fst tags then Ok V8 else if tag = snd tags then Ok V9 else Err UnknownLedger)"

definition of_event :: "wallet_host \<Rightarrow> bytes \<Rightarrow> (wallet_error, ledger_version) res" where
  "of_event W bs = of_tagged W (wh_event_tags W) bs"

definition of_ledger_parameters :: "wallet_host \<Rightarrow> bytes \<Rightarrow> (wallet_error, ledger_version) res" where
  "of_ledger_parameters W bs = of_tagged W (wh_parameter_tags W) bs"

section \<open>The reconnect policy\<close>

definition reconnect_max_retries :: nat where
  "reconnect_max_retries = 4"

text \<open>Milliseconds; \<^verbatim>\<open>saturating_pow\<close> of a \<^verbatim>\<open>u32\<close>.\<close>

definition reconnect_delay :: "nat \<Rightarrow> nat" where
  "reconnect_delay retry = 250 * min (2 ^ (retry - 1)) (2 ^ 32 - 1)"

text \<open>\<^verbatim>\<open>last_id + 1\<close> overflows at the largest id: a panic of a debug build.\<close>

definition resume_id :: "nat \<Rightarrow> i64 \<Rightarrow> (wallet_error, i64) res" where
  "resume_id count last_id =
     (if 0 < count then if sint last_id = i64_max then Panic else Ok (last_id + 1) else Ok last_id)"

text \<open>\<^verbatim>\<open>saturating_sub(1).max(0)\<close>.\<close>

definition last_applied_before :: "i64 \<Rightarrow> i64" where
  "last_applied_before start = (if 0 < sint start then start - 1 else 0)"

definition already_applied :: "i64 \<Rightarrow> i64 \<Rightarrow> i64 \<Rightarrow> bool \<Rightarrow> bool" where
  "already_applied msg_id last_id start applied_any \<longleftrightarrow>
     (applied_any \<or> 0 < sint start) \<and> sint msg_id \<le> sint last_id"

definition order_regression :: "i64 \<Rightarrow> i64 option \<Rightarrow> i64 option" where
  "order_regression msg_id high =
     (case high of Some h \<Rightarrow> if sint msg_id < sint h then Some h else None | None \<Rightarrow> None)"

definition gave_up :: "indexer_error \<Rightarrow> wallet_error" where
  "gave_up e = Indexer (is_retryable e) e"

section \<open>The latest block\<close>

record ix_block =
  bk_timestamp :: "i64 option"
  bk_parameters :: "string option"

text \<open>The queries for the latest block: what attempt \<open>k\<close> gives, unless no client can be made.\<close>

datatype block_query = NoClient indexer_error | Answers "nat \<Rightarrow> indexer_error + ix_block option"

function query_block :: "(nat \<Rightarrow> indexer_error + ix_block option) \<Rightarrow> nat \<Rightarrow> (wallet_error, ix_block) res" where
  "query_block answers retries =
     (case answers retries of
        Inr b \<Rightarrow> ok_or (Sync ''no blocks available from indexer'') b
      | Inl e \<Rightarrow>
          if is_retryable e \<and> retries < reconnect_max_retries then query_block answers (retries + 1)
          else Err (gave_up e))"
  by pat_completeness auto
termination
  by (relation "measure (\<lambda>(answers, retries). reconnect_max_retries - retries)") auto

declare query_block.simps [simp del]

fun latest_block :: "block_query \<Rightarrow> (wallet_error, ix_block) res" where
  "latest_block (NoClient e) = Err (gave_up e)"
| "latest_block (Answers answers) = query_block answers 0"

definition encoded_ledger_parameters :: "wallet_host \<Rightarrow> ix_block \<Rightarrow> (wallet_error, bytes) res" where
  "encoded_ledger_parameters W b =
     rbind (ok_or (Sync ''latest block has no ledger_parameters'') (bk_parameters b)) (\<lambda>hex.
     ok_or (Sync ''decode ledger params hex'') (wh_hex_decode W hex))"

definition ledger_of :: "wallet_host \<Rightarrow> ix_block \<Rightarrow> (wallet_error, ledger_version) res" where
  "ledger_of W b = rbind (encoded_ledger_parameters W b) (of_ledger_parameters W)"

section \<open>Connections\<close>

text \<open>
  What the environment gives with each message: the time at which it is handled, in
  milliseconds, and the state of the progress channel then.
\<close>

datatype channel = ChOpen | ChFull | ChClosed

datatype 'm frame = Frame 'm nat channel

text \<open>How a connection ends: the subscription yields an error, ends, or says nothing in time.\<close>

datatype ending = Dropped indexer_error | Ended | Silent

datatype 'm connection = Refused indexer_error | Delivers "'m frame list" ending

text \<open>An indexer: the connection that attempt \<open>k\<close> gets when it asks for an id.\<close>

type_synonym 'm indexer = "nat \<Rightarrow> i64 \<Rightarrow> 'm connection"

text \<open>Progress is lossy: only a closed channel is reported back.\<close>

definition send_progress :: "bool \<Rightarrow> channel \<Rightarrow> bool" where
  "send_progress has_sender ch = (\<not> has_sender \<or> ch \<noteq> ChClosed)"

text \<open>\<^verbatim>\<open>ProgressPacer::due\<close>: whether to report at \<open>now\<close>, and the time of the last report.\<close>

definition progress_interval :: nat where
  "progress_interval = 1000"

definition pacer_due :: "nat option \<Rightarrow> nat \<Rightarrow> bool \<times> nat option" where
  "pacer_due previous now =
     (case previous of
        Some t \<Rightarrow> if now - t < progress_interval then (False, previous) else (True, Some now)
      | None \<Rightarrow> (True, Some now))"

text \<open>
  What a message or a whole connection does to a loop with state \<open>'s\<close> and result \<open>'r\<close>: a
  message lets the loop go on or ends it, a connection makes it reconnect or ends it.
\<close>

type_synonym ('s, 'r) step_flow = "'s + (wallet_error, 'r) res"

datatype ('s, 'r) flow = Reconnect 's | Stop "(wallet_error, 'r) res"

section \<open>The ledger-event streams\<close>

record ledger_msg =
  lm_id :: i64
  lm_raw :: string
  lm_max_id :: i64

datatype ledger_stream = ZswapStream | DustStream

fun stream_kind :: "ledger_stream \<Rightarrow> string" where
  "stream_kind ZswapStream = ''zswap''"
| "stream_kind DustStream = ''dust''"

fun stream_events :: "ledger_stream \<Rightarrow> i64 \<Rightarrow> i64 \<Rightarrow> sync_progress" where
  "stream_events ZswapStream = ZswapEvents"
| "stream_events DustStream = DustEvents"

fun stream_complete :: "ledger_stream \<Rightarrow> nat \<Rightarrow> sync_progress" where
  "stream_complete ZswapStream = ZswapComplete"
| "stream_complete DustStream = DustComplete"

text \<open>The arguments of a replay; \<open>'a\<close> is the state that its \<^verbatim>\<open>apply\<close> closure captures.\<close>

record 'a replay_args =
  ra_host :: wallet_host
  ra_stream :: ledger_stream
  ra_ledger :: ledger_version
  ra_start :: i64
  ra_resuming :: bool
  ra_sender :: bool
  ra_apply :: "i64 \<Rightarrow> bytes \<Rightarrow> ledger_version \<Rightarrow> 'a \<Rightarrow> (wallet_error, 'a) res"

text \<open>
  The variables of the loop. A \<^verbatim>\<open>u64\<close> counter of applied events cannot overflow, since the
  applied ids increase, so it is a natural number. \<open>lr_sent\<close> lists the progress that the loop
  handed to the channel.
\<close>

record 'a replay_state =
  lr_last_id :: i64
  lr_count :: nat
  lr_pacer :: "nat option"
  lr_retries :: nat
  lr_high :: "i64 option"
  lr_acc :: 'a
  lr_sent :: "sync_progress list"

record 'a ledger_replay =
  le_last_id :: i64
  le_later :: "(i64 \<times> ledger_version) option"
  le_acc :: 'a
  le_sent :: "sync_progress list"

definition event_bytes :: "wallet_host \<Rightarrow> ledger_msg \<Rightarrow> (wallet_error, bytes) res" where
  "event_bytes W msg = ok_or (Sync ''decode event hex'') (wh_hex_decode W (lm_raw msg))"

definition replay_result :: "(i64 \<times> ledger_version) option \<Rightarrow> 'a replay_state \<Rightarrow> 'a ledger_replay" where
  "replay_result later st =
     \<lparr>le_last_id = lr_last_id st, le_later = later, le_acc = lr_acc st, le_sent = lr_sent st\<rparr>"

definition report :: "'a replay_args \<Rightarrow> sync_progress \<Rightarrow> 'a replay_state \<Rightarrow> 'a replay_state" where
  "report A msg st = (if ra_sender A then st\<lparr>lr_sent := lr_sent st @ [msg]\<rparr> else st)"

definition complete :: "'a replay_args \<Rightarrow> 'a replay_state \<Rightarrow> 'a ledger_replay" where
  "complete A st = replay_result None (report A (stream_complete (ra_stream A) (lr_count st)) st)"

text \<open>The bookkeeping after an event was applied.\<close>

definition count_event :: "ledger_msg \<Rightarrow> 'a \<Rightarrow> 'a replay_state \<Rightarrow> 'a replay_state" where
  "count_event msg acc st =
     st\<lparr>lr_retries := 0, lr_last_id := lm_id msg, lr_count := lr_count st + 1, lr_acc := acc\<rparr>"

text \<open>An event that is new: it is decoded, and applied unless a later generation wrote it.\<close>

definition apply_event :: "'a replay_args \<Rightarrow> ledger_msg \<Rightarrow> 'a replay_state \<Rightarrow> (wallet_error, ledger_version + 'a) res" where
  "apply_event A msg st =
     rbind (event_bytes (ra_host A) msg) (\<lambda>raw.
     rbind (of_event (ra_host A) raw) (\<lambda>v.
       if ra_ledger A < v then Ok (Inl v) else rmap Inr (ra_apply A (lm_id msg) raw v (lr_acc st))))"

definition after_event ::
  "'a replay_args \<Rightarrow> ledger_msg \<Rightarrow> nat \<Rightarrow> channel \<Rightarrow> 'a replay_state \<Rightarrow> ('a replay_state, 'a ledger_replay) step_flow" where
  "after_event A msg now ch counted =
     (let (due, pacer) = pacer_due (lr_pacer counted) now;
          paced = counted\<lparr>lr_pacer := pacer\<rparr> in
      if due \<and> \<not> send_progress (ra_sender A) ch then Inr (Err (Sync ''replay cancelled: progress receiver dropped''))
      else
        let st = (if due then report A (stream_events (ra_stream A) (lm_id msg) (lm_max_id msg)) paced else paced)
        in if sint (lm_max_id msg) \<le> sint (lm_id msg) then Inr (Ok (complete A st)) else Inl st)"

definition ledger_event ::
  "'a replay_args \<Rightarrow> ledger_msg \<Rightarrow> nat \<Rightarrow> channel \<Rightarrow> 'a replay_state \<Rightarrow> ('a replay_state, 'a ledger_replay) step_flow" where
  "ledger_event A msg now ch st =
     (case apply_event A msg st of
        Ok (Inl v) \<Rightarrow> Inr (Ok (replay_result (Some (lm_id msg, v)) st))
      | Ok (Inr acc) \<Rightarrow> after_event A msg now ch (count_event msg acc st)
      | Err e \<Rightarrow> Inr (Err e) | Panic \<Rightarrow> Inr Panic | NoFuel \<Rightarrow> Inr NoFuel)"

definition ledger_frame ::
  "'a replay_args \<Rightarrow> ledger_msg frame \<Rightarrow> 'a replay_state \<Rightarrow> ('a replay_state, 'a ledger_replay) step_flow" where
  "ledger_frame A frame st0 =
     (case frame of Frame msg now ch \<Rightarrow>
        case order_regression (lm_id msg) (lr_high st0) of
          Some previous \<Rightarrow> Inr (Err (EventOrder (stream_kind (ra_stream A)) (lm_id msg) previous))
        | None \<Rightarrow>
            let st = st0\<lparr>lr_high := Some (lm_id msg)\<rparr> in
            if lm_max_id msg = 0 then Inr (Ok (replay_result None st))
            else if already_applied (lm_id msg) (lr_last_id st) (ra_start A) (0 < lr_count st) then
              if sint (lm_max_id msg) \<le> sint (lm_id msg) then Inr (Ok (complete A st)) else Inl st
            else ledger_event A msg now ch st)"

text \<open>A failure that a retry can follow: the loop reconnects while the bound allows it.\<close>

definition retry_or :: "bool \<Rightarrow> wallet_error \<Rightarrow> 'a replay_state \<Rightarrow> ('a replay_state, 'r) flow" where
  "retry_or retryable e st =
     (if retryable \<and> lr_retries st < reconnect_max_retries
      then Reconnect (st\<lparr>lr_retries := lr_retries st + 1\<rparr>) else Stop (Err e))"

definition ledger_ending :: "'a replay_args \<Rightarrow> ending \<Rightarrow> 'a replay_state \<Rightarrow> ('a replay_state, 'a ledger_replay) flow" where
  "ledger_ending A ending st =
     (case ending of
        Dropped e \<Rightarrow> retry_or (is_retryable e) (gave_up e) st
      | Ended \<Rightarrow>
          if ra_resuming A \<and> lr_count st = 0 then Stop (Ok (complete A st))
          else retry_or True (gave_up (Transport ''subscription ended before replay completed'')) st
      | Silent \<Rightarrow>
          if ra_resuming A \<and> lr_count st = 0 then Stop (Ok (complete A st))
          else Stop (Err (gave_up (Transport ''timeout waiting for events''))))"

fun ledger_frames ::
  "'a replay_args \<Rightarrow> ledger_msg frame list \<Rightarrow> ending \<Rightarrow> 'a replay_state \<Rightarrow> ('a replay_state, 'a ledger_replay) flow" where
  "ledger_frames A [] ending st = ledger_ending A ending st"
| "ledger_frames A (f # fs) ending st =
     (case ledger_frame A f st of Inl st' \<Rightarrow> ledger_frames A fs ending st' | Inr out \<Rightarrow> Stop out)"

definition ledger_connection ::
  "'a replay_args \<Rightarrow> ledger_msg connection \<Rightarrow> 'a replay_state \<Rightarrow> ('a replay_state, 'a ledger_replay) flow" where
  "ledger_connection A conn st =
     (case conn of
        Refused e \<Rightarrow> retry_or (is_retryable e) (gave_up e) st
      | Delivers fs ending \<Rightarrow> ledger_frames A fs ending (st\<lparr>lr_high := None\<rparr>))"

section \<open>How a replay advances\<close>

type_synonym ledger_event = "i64 \<times> bytes \<times> ledger_version"

fun consume :: "'a replay_args \<Rightarrow> ledger_event list \<Rightarrow> 'a \<Rightarrow> (wallet_error, 'a) res" where
  "consume A [] acc = Ok acc"
| "consume A ((i, raw, v) # es) acc = rbind (ra_apply A i raw v acc) (consume A es)"

lemma consume_append: "consume A (es @ es') acc = rbind (consume A es acc) (consume A es')"
proof (induction es arbitrary: acc)
  case (Cons e es)
  obtain i raw v where "e = (i, raw, v)" by (cases e)
  with Cons show ?case by (cases "ra_apply A i raw v acc") simp_all
qed simp

text \<open>The events are new for a state: their ids increase, from the last applied one on.\<close>

definition fresh_after :: "'a replay_args \<Rightarrow> 'a replay_state \<Rightarrow> ledger_event list \<Rightarrow> bool" where
  "fresh_after A st es \<longleftrightarrow>
     sorted_wrt (\<lambda>a b. sint (fst a) < sint (fst b)) es \<and>
     (0 < lr_count st \<or> 0 < sint (ra_start A) \<longrightarrow> list_all (\<lambda>e. sint (lr_last_id st) < sint (fst e)) es)"

definition advances :: "'a replay_args \<Rightarrow> 'a replay_state \<Rightarrow> ledger_event list \<Rightarrow> 'a replay_state \<Rightarrow> bool" where
  "advances A st es st' \<longleftrightarrow>
     consume A es (lr_acc st) = Ok (lr_acc st') \<and> fresh_after A st es \<and>
     list_all (\<lambda>e. snd (snd e) \<le> ra_ledger A) es \<and>
     lr_count st' = lr_count st + length es \<and>
     lr_last_id st' = (if es = [] then lr_last_id st else fst (last es)) \<and>
     (es = [] \<longrightarrow> lr_retries st' = lr_retries st) \<and> (es \<noteq> [] \<longrightarrow> lr_retries st' = 0)"

lemma advances_refl: 
  "lr_acc st' = lr_acc st \<Longrightarrow> lr_count st' = lr_count st \<Longrightarrow> lr_last_id st' = lr_last_id st \<Longrightarrow>
   lr_retries st' = lr_retries st \<Longrightarrow> advances A st [] st'"
  by (simp add: advances_def fresh_after_def)

lemma increasing_bounded:
  "sorted_wrt (\<lambda>a b. sint (fst a) < sint (fst b)) es \<Longrightarrow> es \<noteq> [] \<Longrightarrow> e \<in> set es \<Longrightarrow>
   sint (fst e) \<le> sint (fst (last es) :: i64)"
  by (induction es) (auto simp: less_imp_le)

lemma advances_trans:
  assumes "advances A st es st'" "advances A st' es' st''"
  shows "advances A st (es @ es') st''"
proof -
  have fresh: "fresh_after A st (es @ es')"
  proof (cases "es = []")
    case True
    then show ?thesis using assms by (simp add: advances_def fresh_after_def)
  next
    case False
    then have new: "list_all (\<lambda>e. sint (fst (last es)) < sint (fst e)) es'"
      using assms by (simp add: advances_def fresh_after_def)
    have "sorted_wrt (\<lambda>a b. sint (fst a) < sint (fst b)) (es @ es')"
      using assms False new increasing_bounded [of es]
      unfolding sorted_wrt_append advances_def fresh_after_def list_all_iff by fastforce
    moreover have "list_all (\<lambda>e. sint (lr_last_id st) < sint (fst e)) es'"
      if "list_all (\<lambda>e. sint (lr_last_id st) < sint (fst e)) es"
      using that False new last_in_set [OF False] unfolding list_all_iff by fastforce
    ultimately show ?thesis using assms by (auto simp: advances_def fresh_after_def)
  qed
  show ?thesis
    using assms fresh by (auto simp: advances_def consume_append)
qed

lemma report_state [simp]:
  "lr_acc (report A m st) = lr_acc st" "lr_count (report A m st) = lr_count st"
  "lr_last_id (report A m st) = lr_last_id st" "lr_retries (report A m st) = lr_retries st"
  "lr_high (report A m st) = lr_high st"
  by (simp_all add: report_def)

text \<open>A stop at an event of a later generation, which is new for the state.\<close>

definition stops_at :: "'a replay_args \<Rightarrow> 'a replay_state \<Rightarrow> 'a ledger_replay \<Rightarrow> bool" where
  "stops_at A st r \<longleftrightarrow> (case le_later r of None \<Rightarrow> True
     | Some (i, v) \<Rightarrow> ra_ledger A < v \<and> (0 < lr_count st \<or> 0 < sint (ra_start A) \<longrightarrow> sint (lr_last_id st) < sint i))"

text \<open>How a result relates to the state that gives it.\<close>

definition results_in :: "'a replay_args \<Rightarrow> 'a replay_state \<Rightarrow> 'a ledger_replay \<Rightarrow> bool" where
  "results_in A st r \<longleftrightarrow> le_acc r = lr_acc st \<and> le_last_id r = lr_last_id st \<and> stops_at A st r"

lemma results_in_result [simp]: "results_in A st (replay_result None st)" "results_in A st (complete A st)"
  by (simp_all add: results_in_def replay_result_def complete_def stops_at_def)

lemma results_in_later:
  assumes "\<not> already_applied (lm_id msg) (lr_last_id st) (ra_start A) (0 < lr_count st)" "apply_event A msg st = Ok (Inl v)"
  shows "results_in A st (replay_result (Some (lm_id msg, v)) st)"
  using assms by (auto simp: results_in_def replay_result_def stops_at_def already_applied_def apply_event_def split: if_splits)

lemma apply_event_advances:
  assumes new: "\<not> already_applied (lm_id msg) (lr_last_id st) (ra_start A) (0 < lr_count st)"
    and "apply_event A msg st = Ok (Inr acc)"
  shows "\<exists>e. advances A st [e] (count_event msg acc st)"
proof -
  obtain raw v where "ra_apply A (lm_id msg) raw v (lr_acc st) = Ok acc" "\<not> ra_ledger A < v"
    using assms(2) by (auto simp: apply_event_def split: if_splits)
  moreover have "fresh_after A st [(lm_id msg, raw, v)]"
    using new by (auto simp: fresh_after_def already_applied_def)
  ultimately have "advances A st [(lm_id msg, raw, v)] (count_event msg acc st)"
    by (simp add: advances_def count_event_def not_less)
  then show ?thesis ..
qed

text \<open>Two states that differ only in the pacer, the order check and the progress sent.\<close>

definition same_replay :: "'a replay_state \<Rightarrow> 'a replay_state \<Rightarrow> bool" where
  "same_replay st st' \<longleftrightarrow> lr_acc st' = lr_acc st \<and> lr_count st' = lr_count st \<and> lr_last_id st' = lr_last_id st \<and>
     lr_retries st' = lr_retries st"

lemma advances_same:
  "same_replay st0 st \<Longrightarrow> advances A st es st' \<Longrightarrow> advances A st0 es st'"
  "advances A st es st' \<Longrightarrow> same_replay st' st'' \<Longrightarrow> advances A st es st''"
  "same_replay st st' \<Longrightarrow> advances A st [] st'"
  by (simp_all add: same_replay_def advances_def fresh_after_def)

lemma after_event_same:
  "after_event A msg now ch st = Inl st' \<Longrightarrow> same_replay st st'"
  "after_event A msg now ch st = Inr (Ok r) \<Longrightarrow> results_in A st r"
  by (auto simp: after_event_def Let_def same_replay_def results_in_def complete_def replay_result_def stops_at_def
      split: prod.splits if_splits)

lemma ledger_event_advances:
  assumes new: "\<not> already_applied (lm_id msg) (lr_last_id st) (ra_start A) (0 < lr_count st)"
  shows "ledger_event A msg now ch st = Inl st' \<Longrightarrow> \<exists>es. advances A st es st'"
    and "ledger_event A msg now ch st = Inr (Ok r) \<Longrightarrow> \<exists>es st'. advances A st es st' \<and> results_in A st' r"
  using apply_event_advances [OF new] after_event_same advances_same(2) advances_same(3) [of st st] results_in_later [OF new]
  unfolding ledger_event_def same_replay_def
  by (fastforce split: res.splits sum.splits)+

lemma ledger_frame_advances:
  "ledger_frame A f st = Inl st' \<Longrightarrow> \<exists>es. advances A st es st'"
  "ledger_frame A f st = Inr (Ok r) \<Longrightarrow> \<exists>es st'. advances A st es st' \<and> results_in A st' r"
proof -
  obtain msg now ch where f: "f = Frame msg now ch" by (cases f)
  let ?st = "st\<lparr>lr_high := Some (lm_id msg)\<rparr>"
  have same: "same_replay st ?st" by (simp add: same_replay_def)
  note ev = ledger_event_advances [of msg ?st A now ch]
  show "\<exists>es. advances A st es st'" if "ledger_frame A f st = Inl st'"
    using that ev advances_same(1,3) [OF same]
    unfolding ledger_frame_def f Let_def by (fastforce split: option.splits if_splits)
  show "\<exists>es st'. advances A st es st' \<and> results_in A st' r" if "ledger_frame A f st = Inr (Ok r)"
    using that ev(2) advances_same(1,3) [OF same] results_in_result
    unfolding ledger_frame_def f Let_def by (fastforce split: option.splits if_splits)
qed

text \<open>A connection that makes the loop reconnect, or that gives the result of the replay.\<close>

definition retried :: "'a replay_state \<Rightarrow> 'a replay_state \<Rightarrow> bool" where
  "retried st st' \<longleftrightarrow> lr_retries st < reconnect_max_retries \<and> st' = st\<lparr>lr_retries := lr_retries st + 1\<rparr>"

lemma retry_or_cases [simp]:
  "retry_or b e st = Reconnect st' \<longleftrightarrow> b \<and> retried st st'"
  "retry_or b e st \<noteq> Stop (Ok r)"
  by (auto simp: retry_or_def retried_def)

lemma ledger_frames_advance:
  "ledger_frames A fs ending st = Reconnect st' \<Longrightarrow> \<exists>es st1. advances A st es st1 \<and> retried st1 st'"
  "ledger_frames A fs ending st = Stop (Ok r) \<Longrightarrow> \<exists>es st'. advances A st es st' \<and> results_in A st' r"
proof (induction fs arbitrary: st)
  case Nil
  have refl: "advances A st [] st" for st by (simp add: advances_refl)
  { case 1 with refl show ?case by (fastforce simp: ledger_ending_def split: ending.splits if_splits) }
  { case 2 with refl show ?case by (fastforce simp: ledger_ending_def split: ending.splits if_splits) }
next
  case (Cons f fs)
  have step: "\<exists>es st1. advances A st es st1 \<and> P st1"
    if "ledger_frame A f st = Inl st'" "\<exists>es st1. advances A st' es st1 \<and> P st1" for st st' P
  proof -
    from ledger_frame_advances(1) [OF that(1)] obtain es where "advances A st es st'" ..
    moreover from that(2) obtain es' st1 where "advances A st' es' st1" "P st1" by blast
    ultimately show ?thesis using advances_trans by blast
  qed
  { case 1 with Cons.IH(1) step show ?case by (simp split: sum.splits) }
  { case 2 with Cons.IH(2) step ledger_frame_advances(2) [of A f st] show ?case by (simp split: sum.splits) }
qed

lemma ledger_connection_advances:
  "ledger_connection A conn st = Reconnect st' \<Longrightarrow> \<exists>es st1. advances A st es st1 \<and> retried st1 st'"
  "ledger_connection A conn st = Stop (Ok r) \<Longrightarrow> \<exists>es st'. advances A st es st' \<and> results_in A st' r"
proof -
  have same: "same_replay st (st\<lparr>lr_high := None\<rparr>)" by (simp add: same_replay_def)
  note frames = ledger_frames_advance [of A _ _ "st\<lparr>lr_high := None\<rparr>"]
  show "\<exists>es st1. advances A st es st1 \<and> retried st1 st'" if "ledger_connection A conn st = Reconnect st'"
    using that frames(1) advances_same(1) [OF same] advances_same(3) [of st st]
    unfolding ledger_connection_def by (fastforce simp: same_replay_def split: connection.splits)
  show "\<exists>es st'. advances A st es st' \<and> results_in A st' r" if "ledger_connection A conn st = Stop (Ok r)"
    using that frames(2) advances_same(1) [OF same]
    unfolding ledger_connection_def by (fastforce split: connection.splits)
qed

section \<open>The loop over connections\<close>

text \<open>
  The attempts a loop can still make: applied events use up ids, and retries the bound.
\<close>

definition id_room :: "'a replay_state \<Rightarrow> nat" where
  "id_room st = (if lr_count st = 0 then 2 ^ 64 else nat (i64_max - sint (lr_last_id st)))"

lemma advance_uses_room:
  assumes "advances A st es st'" "es \<noteq> []"
  shows "id_room st' < id_room st"
proof -
  have "sint (lr_last_id st') \<le> i64_max" "- (2 ^ 63) \<le> sint (lr_last_id st')"
    using sint_lt [of "lr_last_id st'"] sint_ge [of "lr_last_id st'"] by simp_all
  moreover have "sint (lr_last_id st) < sint (lr_last_id st')" if "0 < lr_count st"
    using assms that last_in_set [OF assms(2)] by (auto simp: advances_def fresh_after_def list_all_iff)
  ultimately show ?thesis
    using assms by (auto simp: id_room_def advances_def)
qed

function ledger_loop ::
  "'a replay_args \<Rightarrow> ledger_msg indexer \<Rightarrow> nat \<Rightarrow> 'a replay_state \<Rightarrow>
   (wallet_error, 'a ledger_replay) res \<times> nat \<times> 'a replay_state" where
  "ledger_loop A server k st =
     (case resume_id (lr_count st) (lr_last_id st) of
        Ok from_id \<Rightarrow>
          (case ledger_connection A (server k from_id) st of
             Reconnect st' \<Rightarrow> ledger_loop A server (Suc k) st'
           | Stop r \<Rightarrow> (r, k, st))
      | Err e \<Rightarrow> (Err e, k, st) | Panic \<Rightarrow> (Panic, k, st) | NoFuel \<Rightarrow> (NoFuel, k, st))"
  by pat_completeness auto
termination
proof (relation "inv_image (less_than <*lex*> less_than)
    (\<lambda>(A, server, k, st). (id_room st, reconnect_max_retries - lr_retries st))")
  fix A :: "'a replay_args" and server :: "ledger_msg indexer" and k st from_id st'
  assume "ledger_connection A (server k from_id) st = Reconnect st'"
  then obtain es st1 where adv: "advances A st es st1" and ret: "retried st1 st'"
    using ledger_connection_advances(1) by blast
  have room: "id_room st' = id_room st1" using ret by (simp add: retried_def id_room_def)
  have "id_room st1 < id_room st \<or> id_room st1 = id_room st \<and>
      reconnect_max_retries - lr_retries st' < reconnect_max_retries - lr_retries st"
  proof (cases "es = []")
    case True
    with adv have "lr_retries st1 = lr_retries st" "id_room st1 = id_room st"
      by (simp_all add: advances_def id_room_def)
    with ret show ?thesis by (auto simp: retried_def)
  next
    case False
    with adv advance_uses_room show ?thesis by blast
  qed
  with room show "((A, server, Suc k, st'), (A, server, k, st)) \<in> inv_image (less_than <*lex*> less_than)
    (\<lambda>(A, server, k, st). (id_room st, reconnect_max_retries - lr_retries st))" by auto
qed (rule wf_inv_image, blast intro: wf_lex_prod)

declare ledger_loop.simps [simp del]

text \<open>The variables before the first connection.\<close>

definition replay_init :: "'a replay_args \<Rightarrow> 'a \<Rightarrow> 'a replay_state" where
  "replay_init A acc =
     \<lparr>lr_last_id = last_applied_before (ra_start A), lr_count = 0, lr_pacer = None, lr_retries = 0,
      lr_high = None, lr_acc = acc, lr_sent = []\<rparr>"

definition replay_ledger_events ::
  "'a replay_args \<Rightarrow> ledger_msg indexer \<Rightarrow> 'a \<Rightarrow> (wallet_error, 'a ledger_replay) res \<times> nat \<times> 'a replay_state" where
  "replay_ledger_events A server acc = ledger_loop A server 0 (replay_init A acc)"

lemma replay_init_simps [simp]:
  "lr_last_id (replay_init A acc) = last_applied_before (ra_start A)" "lr_count (replay_init A acc) = 0"
  "lr_retries (replay_init A acc) = 0" "lr_acc (replay_init A acc) = acc"
  by (simp_all add: replay_init_def)

section \<open>What any indexer can make a replay do\<close>

lemma ledger_loop_result:
  "fst (ledger_loop A server k st) = Ok r \<Longrightarrow> \<exists>es st'. advances A st es st' \<and> results_in A st' r"
proof (induction A server k st rule: ledger_loop.induct)
  case (1 A server k st)
  obtain from_id where id: "resume_id (lr_count st) (lr_last_id st) = Ok from_id"
    using 1(2) by (subst (asm) ledger_loop.simps) (auto split: res.splits)
  show ?case
  proof (cases "ledger_connection A (server k from_id) st")
    case (Reconnect st')
    then obtain es st1 where adv: "advances A st es st1" "retried st1 st'"
      using ledger_connection_advances(1) by blast
    have "fst (ledger_loop A server (Suc k) st') = Ok r"
      using 1(2) id Reconnect by (subst (asm) ledger_loop.simps) simp
    from 1(1) [OF id Reconnect this] obtain es' st'' where "advances A st' es' st''" "results_in A st'' r" by blast
    moreover have "lr_acc st' = lr_acc st1" "lr_count st' = lr_count st1" "lr_last_id st' = lr_last_id st1"
      using adv(2) by (simp_all add: retried_def)
    ultimately have "advances A st1 es' (st''\<lparr>lr_retries := if es' = [] then lr_retries st1 else 0\<rparr>)"
      by (auto simp: advances_def fresh_after_def)
    with adv(1) have "advances A st (es @ es') (st''\<lparr>lr_retries := if es' = [] then lr_retries st1 else 0\<rparr>)"
      by (rule advances_trans)
    moreover have "results_in A (st''\<lparr>lr_retries := n\<rparr>) r" for n
      using \<open>results_in A st'' r\<close> by (auto simp: results_in_def stops_at_def split: option.splits)
    ultimately show ?thesis by blast
  next
    case (Stop q)
    then show ?thesis using 1(2) id ledger_connection_advances(2)
      by (subst (asm) ledger_loop.simps) auto
  qed
qed

lemma sint_minus_1: "0 < sint x \<Longrightarrow> sint (x - 1 :: i64) = sint x - 1"
  using sint_lt [of x] by (simp add: sint_word_ariths signed_take_bit_int_eq_self)

lemma sint_plus_1: "sint x < i64_max \<Longrightarrow> sint (x + 1 :: i64) = sint x + 1"
  using sint_ge [of x] by (simp add: sint_word_ariths signed_take_bit_int_eq_self)

lemma replay_in_order:
  assumes "fst (replay_ledger_events A server acc) = Ok r"
  obtains es where "consume A es acc = Ok (le_acc r)" "sorted_wrt (\<lambda>a b. sint (fst a) < sint (fst b)) es"
    "0 < sint (ra_start A) \<Longrightarrow> list_all (\<lambda>e. sint (ra_start A) \<le> sint (fst e)) es"
    "list_all (\<lambda>e. snd (snd e) \<le> ra_ledger A) es"
    "le_last_id r = (if es = [] then last_applied_before (ra_start A) else fst (last es))"
    "\<And>i v. le_later r = Some (i, v) \<Longrightarrow> ra_ledger A < v \<and> (es \<noteq> [] \<longrightarrow> sint (fst (last es)) < sint i) \<and>
      (0 < sint (ra_start A) \<longrightarrow> sint (ra_start A) \<le> sint i)"
proof -
  obtain es st' where adv: "advances A (replay_init A acc) es st'" and res: "results_in A st' r"
    using assms ledger_loop_result unfolding replay_ledger_events_def by blast
  have start: "sint (last_applied_before (ra_start A)) = sint (ra_start A) - 1" if "0 < sint (ra_start A)"
    using that sint_minus_1 [OF that] by (simp add: last_applied_before_def)
  have from_start: "list_all (\<lambda>e. sint (ra_start A) \<le> sint (fst e)) es" if "0 < sint (ra_start A)"
    using adv that start [OF that] by (auto simp: advances_def fresh_after_def list_all_iff)
  have last: "lr_last_id st' = (if es = [] then last_applied_before (ra_start A) else fst (last es))"
    "lr_count st' = length es" "le_last_id r = lr_last_id st'"
    using adv res by (simp_all add: advances_def results_in_def)
  have later: "ra_ledger A < v \<and> (es \<noteq> [] \<longrightarrow> sint (fst (last es)) < sint i) \<and>
      (0 < sint (ra_start A) \<longrightarrow> sint (ra_start A) \<le> sint i)" if "le_later r = Some (i, v)" for i v
  proof -
    have new: "ra_ledger A < v" "es \<noteq> [] \<or> 0 < sint (ra_start A) \<Longrightarrow> sint (lr_last_id st') < sint i"
      using res that last(2) by (auto simp: results_in_def stops_at_def)
    have "sint (ra_start A) \<le> sint (lr_last_id st') + 1" if "0 < sint (ra_start A)"
      using from_start [OF that] start [OF that] last_in_set [of es] unfolding last(1) by (fastforce simp: list_all_iff)
    with new last show ?thesis by fastforce
  qed
  show ?thesis
    by (rule that [of es]) (use adv res last from_start later in \<open>auto simp: advances_def fresh_after_def results_in_def\<close>)
qed

text \<open>
  C0: whatever the indexer delivers, repeats, skips or reorders, a replay that returns has applied
  events with increasing ids, none before the start and none twice, of no later generation, and
  its cursor is the id of the last one.
\<close>

theorem replay_applies_in_order:
  assumes "fst (replay_ledger_events A server acc) = Ok r"
  shows "\<exists>es. consume A es acc = Ok (le_acc r) \<and> sorted_wrt (\<lambda>a b. sint (fst a) < sint (fst b)) es \<and>
    (0 < sint (ra_start A) \<longrightarrow> list_all (\<lambda>e. sint (ra_start A) \<le> sint (fst e)) es) \<and>
    list_all (\<lambda>e. snd (snd e) \<le> ra_ledger A) es \<and>
    le_last_id r = (if es = [] then last_applied_before (ra_start A) else fst (last es))"
proof (rule replay_in_order [OF assms], goal_cases)
  case (1 es)
  show ?case by (intro exI [of _ es] conjI impI 1)
qed

lemma ledger_loop_attempts:
  "ledger_loop A server k st = (q, n, st') \<Longrightarrow> k \<le> 5 * lr_count st + lr_retries st \<Longrightarrow> lr_retries st \<le> reconnect_max_retries \<Longrightarrow>
   n \<le> 5 * lr_count st' + reconnect_max_retries"
proof (induction A server k st arbitrary: q n st' rule: ledger_loop.induct)
  case (1 A server k st)
  show ?case
  proof (cases "\<exists>from_id st1. resume_id (lr_count st) (lr_last_id st) = Ok from_id \<and>
      ledger_connection A (server k from_id) st = Reconnect st1")
    case True
    then obtain from_id st1 where id: "resume_id (lr_count st) (lr_last_id st) = Ok from_id"
      and re: "ledger_connection A (server k from_id) st = Reconnect st1" by blast
    obtain es st0 where adv: "advances A st es st0" "retried st0 st1"
      using ledger_connection_advances(1) [OF re] by blast
    have "Suc k \<le> 5 * lr_count st1 + lr_retries st1 \<and> lr_retries st1 \<le> reconnect_max_retries"
      using adv 1(3,4) by (cases "es = []") (auto simp: advances_def retried_def reconnect_max_retries_def neq_Nil_conv)
    moreover have "ledger_loop A server (Suc k) st1 = (q, n, st')"
      using 1(2) id re by (subst (asm) ledger_loop.simps) simp
    ultimately show ?thesis using 1(1) [OF id re] by blast
  next
    case False
    then have "n = k \<and> st' = st"
      using 1(2) by (subst (asm) ledger_loop.simps) (auto split: res.splits flow.splits)
    with 1(3,4) show ?thesis by simp
  qed
qed

text \<open>
  C0: a replay always returns, also on an indexer that never stops delivering, dropping or
  repeating: the number of its connections is at most five, and five more for each event that it
  had applied when it opened the last one.
\<close>

theorem replay_attempts_bounded:
  "Suc (fst (snd (replay_ledger_events A server acc))) \<le> 5 * Suc (lr_count (snd (snd (replay_ledger_events A server acc))))"
  using ledger_loop_attempts [of A server 0 "replay_init A acc" "fst (replay_ledger_events A server acc)"
      "fst (snd (replay_ledger_events A server acc))" "snd (snd (replay_ledger_events A server acc))"]
  by (simp add: replay_ledger_events_def reconnect_max_retries_def)

section \<open>What a faithful indexer makes a replay do\<close>

definition decode_msg :: "'a replay_args \<Rightarrow> ledger_msg \<Rightarrow> (wallet_error, bytes \<times> ledger_version) res" where
  "decode_msg A msg =
     rbind (event_bytes (ra_host A) msg) (\<lambda>raw. rbind (of_event (ra_host A) raw) (\<lambda>v. Ok (raw, v)))"

text \<open>The events applied one after the other, without connections, cursors and retries.\<close>

fun apply_all :: "'a replay_args \<Rightarrow> ledger_msg list \<Rightarrow> 'a \<Rightarrow> (wallet_error, 'a) res" where
  "apply_all A [] acc = Ok acc"
| "apply_all A (msg # ms) acc =
     rbind (decode_msg A msg) (\<lambda>(raw, v). rbind (ra_apply A (lm_id msg) raw v acc) (apply_all A ms))"

lemma apply_event_all: "apply_event A msg st = Ok (Inr acc) \<Longrightarrow> apply_all A (msg # ms) (lr_acc st) = apply_all A ms acc"
  by (auto simp: apply_event_def decode_msg_def split: if_splits)

text \<open>
  A chain: its events with increasing positive ids, each message with the id of the last one. The
  indexer serves it when a connection that asks for an id delivers a part of the events from that
  id on, without a gap; where it stops, and how, is open.
\<close>

definition chain_events :: "ledger_msg list \<Rightarrow> bool" where
  "chain_events chain \<longleftrightarrow>
     sorted_wrt (\<lambda>a b. sint (lm_id a) < sint (lm_id b)) chain \<and>
     list_all (\<lambda>m. 1 \<le> sint (lm_id m) \<and> lm_max_id m = lm_id (last chain)) chain"

fun frame_msg :: "'m frame \<Rightarrow> 'm" where
  "frame_msg (Frame msg now ch) = msg"

definition events_from :: "ledger_msg list \<Rightarrow> int \<Rightarrow> ledger_msg list" where
  "events_from chain i = filter (\<lambda>m. i \<le> sint (lm_id m)) chain"

definition serves :: "ledger_msg list \<Rightarrow> ledger_msg indexer \<Rightarrow> bool" where
  "serves chain server \<longleftrightarrow>
     (\<forall>k i. case server k i of
        Refused e \<Rightarrow> True
      | Delivers fs ending \<Rightarrow> (\<exists>n. map frame_msg fs = take n (events_from chain (sint i))))"

lemma servesD:
  "serves chain server \<Longrightarrow> server k i = Delivers fs ending \<Longrightarrow> \<exists>n. map frame_msg fs = take n (events_from chain (sint i))"
  unfolding serves_def by (drule spec [of _ k], drule spec [of _ i]) simp

text \<open>What a state still has to apply.\<close>

definition todo :: "ledger_msg list \<Rightarrow> 'a replay_state \<Rightarrow> ledger_msg list" where
  "todo chain st = events_from chain (sint (lr_last_id st) + 1)"

text \<open>
  What the frames of a connection leave: \<open>xs\<close> are the events that it was asked for and has not
  delivered yet.
\<close>

definition in_step :: "'a replay_args \<Rightarrow> ledger_msg list \<Rightarrow> ledger_msg list \<Rightarrow> 'a replay_state \<Rightarrow> bool" where
  "in_step A chain xs st \<longleftrightarrow>
     todo chain st = events_from xs (sint (lr_last_id st) + 1) \<and>
     set xs \<subseteq> set chain \<and> sorted_wrt (\<lambda>a b. sint (lm_id a) < sint (lm_id b)) xs \<and>
     (case lr_high st of Some h \<Rightarrow> list_all (\<lambda>m. sint h < sint (lm_id m)) xs | None \<Rightarrow> True) \<and>
     (lr_count st = 0 \<longrightarrow> lr_last_id st = last_applied_before (ra_start A))"

text \<open>The rest of the work is the same before and after.\<close>

definition same_rest :: "'a replay_args \<Rightarrow> ledger_msg list \<Rightarrow> 'a replay_state \<Rightarrow> 'a replay_state \<Rightarrow> bool" where
  "same_rest A chain st st' \<longleftrightarrow>
     apply_all A (todo chain st) (lr_acc st) = apply_all A (todo chain st') (lr_acc st') \<and>
     (lr_count st' = 0 \<longrightarrow> lr_count st = 0 \<and> lr_acc st' = lr_acc st)"

lemma events_from_nil: "events_from xs i = [] \<longleftrightarrow> list_all (\<lambda>m. sint (lm_id m) < i) xs"
  by (auto simp: events_from_def filter_empty_conv list_all_iff not_le)

lemma chain_events_last:
  assumes "chain_events chain" "m \<in> set chain"
  shows "sint (lm_id m) \<le> sint (lm_max_id m)" "lm_max_id m \<noteq> 0" "1 \<le> sint (lm_id m)"
    and "m' \<in> set chain \<Longrightarrow> sint (lm_id m') \<le> sint (lm_max_id m)"
proof -
  have ne: "chain \<noteq> []" using assms(2) by auto
  have max: "lm_max_id m = lm_id (last chain)" "1 \<le> sint (lm_id m)" if "m \<in> set chain" for m
    using assms(1) that by (auto simp: chain_events_def list_all_iff)
  have sorted: "sorted_wrt (\<lambda>a b. sint (lm_id a) < sint (lm_id b)) chain"
    using assms(1) by (simp add: chain_events_def)
  have le: "sint (lm_id m') \<le> sint (lm_id (last chain))" if "m' \<in> set chain" for m'
    using sorted ne that by (induction chain) (auto simp: less_imp_le)
  show "sint (lm_id m) \<le> sint (lm_max_id m)" using le [OF assms(2)] max [OF assms(2)] by simp
  show "m' \<in> set chain \<Longrightarrow> sint (lm_id m') \<le> sint (lm_max_id m)" using le max [OF assms(2)] by simp
  show "1 \<le> sint (lm_id m)" using max [OF assms(2)] by simp
  then have "0 < sint (lm_max_id m)" using le [OF assms(2)] max [OF assms(2)] by simp
  then show "lm_max_id m \<noteq> 0" by auto
qed

lemma events_from_twice: "i \<le> j \<Longrightarrow> events_from (events_from xs i) j = events_from xs j"
  by (auto simp: events_from_def intro: filter_cong)

lemma events_from_all: "list_all (\<lambda>m. i \<le> sint (lm_id m)) xs \<Longrightarrow> events_from xs i = xs"
  by (simp add: events_from_def list_all_iff)

lemma events_from_Cons: "events_from (m # xs) i = (if i \<le> sint (lm_id m) then m # events_from xs i else events_from xs i)"
  by (simp add: events_from_def)

lemma after_event_high: "after_event A msg now ch st = Inl st' \<Longrightarrow> lr_high st' = lr_high st"
  by (auto simp: after_event_def Let_def split: prod.splits if_splits)

lemma after_event_done:
  "after_event A msg now ch st = Inr (Ok r) \<Longrightarrow> sint (lm_max_id msg) \<le> sint (lm_id msg)"
  by (auto simp: after_event_def Let_def split: prod.splits if_splits)

lemma new_frame:
  assumes chain: "chain_events chain" and step: "in_step A chain (msg # xs) st"
    and new: "\<not> already_applied (lm_id msg) (lr_last_id st) (ra_start A) (0 < lr_count st)"
    and applied: "apply_event A msg st = Ok (Inr acc)"
    and same: "same_replay (count_event msg acc st) st'" "lr_high st' = Some (lm_id msg)"
  shows "in_step A chain xs st'" "same_rest A chain st st'"
    and "sint (lm_max_id msg) \<le> sint (lm_id msg) \<Longrightarrow> apply_all A (todo chain st) (lr_acc st) = Ok acc"
proof -
  have m: "msg \<in> set chain" "set xs \<subseteq> set chain" using step by (auto simp: in_step_def)
  have xs: "list_all (\<lambda>m. sint (lm_id msg) < sint (lm_id m)) xs" "sorted_wrt (\<lambda>a b. sint (lm_id a) < sint (lm_id b)) xs"
    using step by (auto simp: in_step_def list_all_iff)
  have lt: "sint (lr_last_id st) < sint (lm_id msg)"
    using new step chain_events_last(3) [OF chain m(1)]
    by (auto simp: already_applied_def in_step_def last_applied_before_def)
  have "events_from xs (sint (lr_last_id st) + 1) = xs"
    using xs(1) lt by (intro events_from_all) (auto simp: list_all_iff)
  then have todo: "todo chain st = msg # xs"
    using step lt by (simp add: in_step_def events_from_Cons)
  have last: "lr_last_id st' = lm_id msg" "lr_acc st' = acc" "lr_count st' = lr_count st + 1"
    using same(1) by (simp_all add: same_replay_def count_event_def)
  have "todo chain st' = events_from (todo chain st) (sint (lm_id msg) + 1)"
    using lt by (simp add: todo_def last events_from_twice)
  moreover have all: "events_from xs (sint (lm_id msg) + 1) = xs"
    using xs(1) by (intro events_from_all) (auto simp: list_all_iff)
  ultimately have rest: "todo chain st' = xs" by (simp add: todo events_from_Cons)
  with all show "in_step A chain xs st'"
    using m xs same(2) by (simp add: in_step_def last)
  show "same_rest A chain st st'"
    using apply_event_all [OF applied, of xs] by (simp add: same_rest_def todo rest last)
  show "apply_all A (todo chain st) (lr_acc st) = Ok acc" if "sint (lm_max_id msg) \<le> sint (lm_id msg)"
  proof -
    have "xs = []"
      using that m xs(1) chain_events_last(4) [OF chain m(1)] by (cases xs) fastforce+
    then show ?thesis using apply_event_all [OF applied, of "[]"] todo by simp
  qed
qed

lemma old_frame:
  assumes chain: "chain_events chain" and step: "in_step A chain (msg # xs) st"
    and old: "sint (lm_id msg) \<le> sint (lr_last_id st)"
  shows "in_step A chain xs (st\<lparr>lr_high := Some (lm_id msg)\<rparr>)"
    and "sint (lm_max_id msg) \<le> sint (lm_id msg) \<Longrightarrow> todo chain st = []"
proof -
  show "in_step A chain xs (st\<lparr>lr_high := Some (lm_id msg)\<rparr>)"
    using step old by (auto simp: in_step_def events_from_Cons todo_def list_all_iff)
  have "msg \<in> set chain" using step by (auto simp: in_step_def)
  with chain_events_last(4) [OF chain this] show "todo chain st = []" if "sint (lm_max_id msg) \<le> sint (lm_id msg)"
    using that old by (fastforce simp: todo_def events_from_nil list_all_iff)
qed

lemma same_rest_refl: "same_replay st st' \<Longrightarrow> same_rest A chain st st'"
  by (simp add: same_rest_def same_replay_def todo_def)

lemma same_rest_trans: "same_rest A chain st st' \<Longrightarrow> same_rest A chain st' st'' \<Longrightarrow> same_rest A chain st st''"
  by (auto simp: same_rest_def)

lemma served_frame:
  assumes chain: "chain_events chain" and step: "in_step A chain (msg # xs) st"
  shows "ledger_frame A (Frame msg now ch) st = Inl st' \<Longrightarrow> in_step A chain xs st' \<and> same_rest A chain st st'"
    and "ledger_frame A (Frame msg now ch) st = Inr (Ok r) \<Longrightarrow> le_later r = None \<Longrightarrow>
      apply_all A (todo chain st) (lr_acc st) = Ok (le_acc r)"
proof -
  let ?st = "st\<lparr>lr_high := Some (lm_id msg)\<rparr>"
  have m: "msg \<in> set chain" using step by (auto simp: in_step_def)
  have order: "order_regression (lm_id msg) (lr_high st) = None"
    using step by (auto simp: order_regression_def in_step_def split: option.splits)
  have same: "same_replay st ?st" by (simp add: same_replay_def)
  have frame: "ledger_frame A (Frame msg now ch) st =
      (if already_applied (lm_id msg) (lr_last_id st) (ra_start A) (0 < lr_count st)
       then if sint (lm_max_id msg) \<le> sint (lm_id msg) then Inr (Ok (complete A ?st)) else Inl ?st
       else ledger_event A msg now ch ?st)"
    using chain_events_last(2) [OF chain m] by (simp add: ledger_frame_def order)
  have "(ledger_frame A (Frame msg now ch) st = Inl st' \<longrightarrow> in_step A chain xs st' \<and> same_rest A chain st st') \<and>
      (ledger_frame A (Frame msg now ch) st = Inr (Ok r) \<longrightarrow> le_later r = None \<longrightarrow>
        apply_all A (todo chain st) (lr_acc st) = Ok (le_acc r))"
  proof (cases "already_applied (lm_id msg) (lr_last_id st) (ra_start A) (0 < lr_count st)")
    case True
    then have "sint (lm_id msg) \<le> sint (lr_last_id st)" by (simp add: already_applied_def)
    from old_frame [OF chain step this] True show ?thesis
      by (auto simp: frame complete_def replay_result_def same_rest_refl [OF same])
  next
    case False
    show ?thesis
    proof (cases "\<exists>acc. apply_event A msg ?st = Ok (Inr acc)")
      case True
      then obtain acc where "apply_event A msg ?st = Ok (Inr acc)" ..
      moreover have "lr_acc ?st = lr_acc st" by simp
      then have "apply_event A msg ?st = apply_event A msg st" by (simp only: apply_event_def)
      ultimately have applied: "apply_event A msg st = Ok (Inr acc)" and
        ev: "ledger_frame A (Frame msg now ch) st = after_event A msg now ch (count_event msg acc ?st)"
        using False by (simp_all add: frame ledger_event_def)
      have cst: "same_replay (count_event msg acc st) (count_event msg acc ?st)"
        by (simp add: same_replay_def count_event_def)
      note new = new_frame [OF chain step False applied]
      show ?thesis
      proof (intro conjI impI)
        assume out: "ledger_frame A (Frame msg now ch) st = Inl st'"
        then have "same_replay (count_event msg acc st) st'" "lr_high st' = Some (lm_id msg)"
          using after_event_same(1) [of A msg now ch "count_event msg acc ?st" st'] cst
            after_event_high [of A msg now ch "count_event msg acc ?st" st']
          by (auto simp: ev same_replay_def count_event_def)
        with new show "in_step A chain xs st'" "same_rest A chain st st'" by blast+
      next
        assume out: "ledger_frame A (Frame msg now ch) st = Inr (Ok r)"
        then have "le_acc r = acc" "sint (lm_max_id msg) \<le> sint (lm_id msg)"
          using after_event_same(2) [of A msg now ch "count_event msg acc ?st" r] after_event_done
          by (auto simp: ev results_in_def count_event_def)
        moreover have "same_replay (count_event msg acc st) (count_event msg acc ?st)"
          "lr_high (count_event msg acc ?st) = Some (lm_id msg)"
          by (simp_all add: same_replay_def count_event_def)
        ultimately show "apply_all A (todo chain st) (lr_acc st) = Ok (le_acc r)" using new(3) by blast
      qed
    next
      case no: False
      then have "le_later r \<noteq> None" if "ledger_event A msg now ch ?st = Inr (Ok r)"
        using that by (auto simp: ledger_event_def replay_result_def split: res.splits sum.splits)
      moreover have "ledger_event A msg now ch ?st \<noteq> Inl st'"
        using no by (auto simp: ledger_event_def split: res.splits sum.splits)
      ultimately show ?thesis using False by (auto simp: frame)
    qed
  qed
  then show "ledger_frame A (Frame msg now ch) st = Inl st' \<Longrightarrow> in_step A chain xs st' \<and> same_rest A chain st st'"
    and "ledger_frame A (Frame msg now ch) st = Inr (Ok r) \<Longrightarrow> le_later r = None \<Longrightarrow>
      apply_all A (todo chain st) (lr_acc st) = Ok (le_acc r)" by blast+
qed

lemma in_step_kept:
  "in_step A chain xs st \<Longrightarrow> same_replay st st' \<Longrightarrow> lr_high st' = lr_high st \<Longrightarrow> in_step A chain xs st'"
  by (simp add: in_step_def same_replay_def todo_def)

lemma served_ending:
  "ledger_ending A ending st = Reconnect st' \<Longrightarrow> same_rest A chain st st'"
  "ledger_ending A ending st = Stop (Ok r) \<Longrightarrow> ra_resuming A \<and> lr_count st = 0 \<and> le_acc r = lr_acc st"
  by (auto simp: ledger_ending_def retried_def same_rest_def todo_def complete_def replay_result_def
      split: ending.splits if_splits)

lemma served_frames:
  assumes chain: "chain_events chain"
  shows "in_step A chain xs st \<Longrightarrow> map frame_msg fs = take n xs \<Longrightarrow>
      ledger_frames A fs ending st = Reconnect st' \<Longrightarrow> same_rest A chain st st'"
    and "in_step A chain xs st \<Longrightarrow> map frame_msg fs = take n xs \<Longrightarrow>
      ledger_frames A fs ending st = Stop (Ok r) \<Longrightarrow> le_later r = None \<Longrightarrow>
      apply_all A (todo chain st) (lr_acc st) = Ok (le_acc r) \<or> ra_resuming A \<and> lr_count st = 0 \<and> le_acc r = lr_acc st"
proof (induction fs arbitrary: xs n st)
  case Nil
  { case 1 then show ?case using served_ending(1) by simp }
  { case 2 then show ?case using served_ending(2) by fastforce }
next
  case (Cons f fs)
  obtain msg now ch where f: "f = Frame msg now ch" by (cases f)
  have xs: "\<exists>ys m. xs = msg # ys \<and> map frame_msg fs = take m ys" if "map frame_msg (f # fs) = take n xs" for xs n
    using that by (cases xs; cases n) (auto simp: f)
  { case 1
    from xs [OF 1(2)] obtain ys m where ys: "xs = msg # ys" "map frame_msg fs = take m ys" by blast
    note frame = served_frame [OF chain 1(1) [unfolded ys]]
    from 1(3) obtain st1 where "ledger_frame A f st = Inl st1" "ledger_frames A fs ending st1 = Reconnect st'"
      by (auto split: sum.splits)
    with frame(1) Cons.IH(1) ys(2) f show ?case using same_rest_trans by blast }
  { case 2
    from xs [OF 2(2)] obtain ys m where ys: "xs = msg # ys" "map frame_msg fs = take m ys" by blast
    note frame = served_frame [OF chain 2(1) [unfolded ys]]
    show ?case
    proof (cases "ledger_frame A f st")
      case (Inl st1)
      then have rest: "in_step A chain ys st1" "same_rest A chain st st1" using frame(1) f by blast+
      with 2(3,4) Inl Cons.IH(2) [OF rest(1) ys(2)] show ?thesis by (auto simp: same_rest_def)
    next
      case (Inr q)
      with 2(3,4) frame(2) f show ?thesis by auto
    qed }
qed

text \<open>A loop state between connections.\<close>

definition between :: "'a replay_args \<Rightarrow> 'a replay_state \<Rightarrow> bool" where
  "between A st \<longleftrightarrow> (lr_count st = 0 \<longrightarrow> lr_last_id st = last_applied_before (ra_start A))"

lemma between_advances: "between A st \<Longrightarrow> advances A st es st' \<Longrightarrow> between A st'"
  by (auto simp: between_def advances_def)

lemma served_start:
  assumes chain: "chain_events chain" and "between A st" and "resume_id (lr_count st) (lr_last_id st) = Ok i"
  shows "in_step A chain (events_from chain (sint i)) (st\<lparr>lr_high := None\<rparr>)"
proof -
  have i: "sint i \<le> sint (lr_last_id st) + 1"
    using assms(3) sint_plus_1 [of "lr_last_id st"] sint_lt [of "lr_last_id st"]
    by (auto simp: resume_id_def split: if_splits)
  have "todo chain st = events_from (events_from chain (sint i)) (sint (lr_last_id st) + 1)"
    using i by (simp add: todo_def events_from_twice)
  moreover have "sorted_wrt (\<lambda>a b. sint (lm_id a) < sint (lm_id b)) (events_from chain (sint i))"
    using chain by (simp add: events_from_def chain_events_def sorted_wrt_filter)
  ultimately show ?thesis
    using assms(2) by (auto simp: in_step_def todo_def between_def events_from_def)
qed

lemma served_connection:
  assumes chain: "chain_events chain" and serves: "serves chain server" and btw: "between A st"
    and id: "resume_id (lr_count st) (lr_last_id st) = Ok i"
  shows "ledger_connection A (server k i) st = Reconnect st' \<Longrightarrow> same_rest A chain st st'"
    and "ledger_connection A (server k i) st = Stop (Ok r) \<Longrightarrow> le_later r = None \<Longrightarrow>
      apply_all A (todo chain st) (lr_acc st) = Ok (le_acc r) \<or> ra_resuming A \<and> lr_count st = 0 \<and> le_acc r = lr_acc st"
proof -
  note start = served_start [OF chain btw id]
  have rest: "same_rest A chain st st''" if "same_rest A chain (st\<lparr>lr_high := None\<rparr>) st''" for st''
    using that by (simp add: same_rest_def todo_def)
  show "same_rest A chain st st'" if out: "ledger_connection A (server k i) st = Reconnect st'"
  proof (cases "server k i")
    case (Refused e)
    with out show ?thesis by (simp add: ledger_connection_def retried_def same_rest_def todo_def)
  next
    case (Delivers fs ending)
    then obtain n where n: "map frame_msg fs = take n (events_from chain (sint i))"
      using servesD [OF serves] by blast
    have "ledger_frames A fs ending (st\<lparr>lr_high := None\<rparr>) = Reconnect st'"
      using out Delivers by (simp add: ledger_connection_def)
    then show ?thesis by (rule rest [OF served_frames(1) [OF chain start n]])
  qed
  show "apply_all A (todo chain st) (lr_acc st) = Ok (le_acc r) \<or> ra_resuming A \<and> lr_count st = 0 \<and> le_acc r = lr_acc st"
    if out: "ledger_connection A (server k i) st = Stop (Ok r)" and later: "le_later r = None"
  proof (cases "server k i")
    case (Refused e)
    with out show ?thesis by (simp add: ledger_connection_def)
  next
    case (Delivers fs ending)
    then obtain n where n: "map frame_msg fs = take n (events_from chain (sint i))"
      using servesD [OF serves] by blast
    have "ledger_frames A fs ending (st\<lparr>lr_high := None\<rparr>) = Stop (Ok r)"
      using out Delivers by (simp add: ledger_connection_def)
    from served_frames(2) [OF chain start n this later] show ?thesis by (simp add: todo_def)
  qed
qed

lemma served_loop:
  assumes chain: "chain_events chain"
  shows "serves chain server \<Longrightarrow> between A st \<Longrightarrow> fst (ledger_loop A server k st) = Ok r \<Longrightarrow> le_later r = None \<Longrightarrow>
    apply_all A (todo chain st) (lr_acc st) = Ok (le_acc r) \<or> ra_resuming A \<and> lr_count st = 0 \<and> le_acc r = lr_acc st"
proof (induction A server k st rule: ledger_loop.induct)
  case (1 A server k st)
  obtain i where id: "resume_id (lr_count st) (lr_last_id st) = Ok i"
    using 1(4) by (subst (asm) ledger_loop.simps) (auto split: res.splits)
  note conn = served_connection [OF chain 1(2,3) id]
  show ?case
  proof (cases "ledger_connection A (server k i) st")
    case (Reconnect st')
    then obtain es st1 where adv: "advances A st es st1" "retried st1 st'"
      using ledger_connection_advances(1) by blast
    then have btw: "between A st'" using between_advances [OF 1(3) adv(1)] by (simp add: between_def retried_def)
    have "fst (ledger_loop A server (Suc k) st') = Ok r"
      using 1(4) id Reconnect by (subst (asm) ledger_loop.simps) simp
    with 1(1) [OF id Reconnect 1(2) btw] 1(5) conn(1) [OF Reconnect] show ?thesis
      by (auto simp: same_rest_def)
  next
    case (Stop q)
    then have "ledger_connection A (server k i) st = Stop (Ok r)"
      using 1(4) id by (subst (asm) ledger_loop.simps) simp
    with conn(2) 1(5) show ?thesis by blast
  qed
qed

text \<open>
  C0: when the indexer serves a chain, however it cuts its answers into connections, a replay that
  returns has applied exactly the events of the chain from the start on, each once and in order,
  as an uninterrupted run over them does; only a resume can return before that, and then it
  applied none of them.
\<close>

theorem replay_is_uninterrupted:
  assumes "chain_events chain" and "serves chain server"
    and "fst (replay_ledger_events A server acc) = Ok r" and "le_later r = None"
  shows "apply_all A (events_from chain (sint (ra_start A))) acc = Ok (le_acc r) \<or>
    ra_resuming A \<and> le_acc r = acc"
proof -
  have "between A (replay_init A acc)" by (simp add: between_def)
  from served_loop [OF assms(1,2) this assms(3) [unfolded replay_ledger_events_def] assms(4)]
  have "apply_all A (todo chain (replay_init A acc)) acc = Ok (le_acc r) \<or> ra_resuming A \<and> le_acc r = acc" by auto
  moreover have "todo chain (replay_init A acc) = events_from chain (sint (ra_start A))"
  proof (cases "0 < sint (ra_start A)")
    case True
    then show ?thesis by (simp add: todo_def last_applied_before_def sint_minus_1)
  next
    case False
    then have "events_from chain (sint (ra_start A)) = chain" "events_from chain (0 + 1) = chain"
      using chain_events_last(3) [OF assms(1)]
      by (intro events_from_all, fastforce simp: list_all_iff)+
    with False show ?thesis by (simp add: todo_def last_applied_before_def)
  qed
  ultimately show ?thesis by simp
qed

section \<open>A replay over a dropped connection\<close>

definition sample_wallet_host :: wallet_host where
  "sample_wallet_host =
     \<lparr>wh_hex_decode = (\<lambda>s. Some (map (\<lambda>c. of_nat (of_char c)) s)), wh_hex_encode = map (\<lambda>b. char_of (unat b)),
      wh_peek_tag = (\<lambda>bs. Some (if bs = [] then ''event-v8'' else ''event-v9'')),
      wh_event_tags = (''event-v8'', ''event-v9''), wh_parameter_tags = (''event-v8'', ''event-v9'')\<rparr>"

text \<open>A replay that collects the ids of the events it applies.\<close>

definition sample_args :: "i64 list replay_args" where
  "sample_args =
     \<lparr>ra_host = sample_wallet_host, ra_stream = ZswapStream, ra_ledger = V9, ra_start = 0, ra_resuming = False,
      ra_sender = False, ra_apply = (\<lambda>i raw v acc. Ok (acc @ [i]))\<rparr>"

definition sample_chain :: "ledger_msg list" where
  "sample_chain =
     [\<lparr>lm_id = 1, lm_raw = ''a'', lm_max_id = 3\<rparr>, \<lparr>lm_id = 2, lm_raw = ''b'', lm_max_id = 3\<rparr>,
      \<lparr>lm_id = 3, lm_raw = ''c'', lm_max_id = 3\<rparr>]"

text \<open>An indexer that serves one event more on each connection, and then drops it.\<close>

definition sample_indexer :: "ledger_msg indexer" where
  "sample_indexer k i =
     Delivers (map (\<lambda>m. Frame m 0 ChOpen) (take (Suc k) (events_from sample_chain (sint i)))) (Dropped (Transport ''reset''))"

lemma sample_serves: "chain_events sample_chain" "serves sample_chain sample_indexer"
proof -
  show "chain_events sample_chain"
    by (simp add: chain_events_def sample_chain_def)
  show "serves sample_chain sample_indexer"
    by (auto simp: serves_def sample_indexer_def take_map comp_def)
qed

definition sample_replayed :: "i64 list ledger_replay" where
  "sample_replayed = \<lparr>le_last_id = 3, le_later = None, le_acc = [1, 2, 3], le_sent = []\<rparr>"

lemma sample_run: "fst (replay_ledger_events sample_args sample_indexer []) = Ok sample_replayed"
  by (simp add: replay_ledger_events_def ledger_loop.simps resume_id_def replay_init_def
     last_applied_before_def sample_args_def sample_indexer_def sample_chain_def events_from_def ledger_connection_def
     ledger_frame_def order_regression_def already_applied_def ledger_event_def apply_event_def event_bytes_def of_event_def
     of_tagged_def sample_wallet_host_def after_event_def pacer_due_def count_event_def send_progress_def report_def
     ledger_ending_def retry_or_def reconnect_max_retries_def gave_up_def complete_def replay_result_def
     sample_replayed_def Let_def less_ledger_version_def)

theorem replay_applies_in_order_witness:
  "\<exists>es. consume sample_args es [] = Ok (le_acc sample_replayed) \<and> sorted_wrt (\<lambda>a b. sint (fst a) < sint (fst b)) es \<and>
    list_all (\<lambda>e. snd (snd e) \<le> ra_ledger sample_args) es \<and>
    le_last_id sample_replayed = (if es = [] then last_applied_before (ra_start sample_args) else fst (last es))"
  using replay_applies_in_order [OF sample_run] by blast

theorem replay_is_uninterrupted_witness:
  "apply_all sample_args (events_from sample_chain 0) [] = Ok [1, 2, 3]"
proof -
  have "le_later sample_replayed = None" "\<not> ra_resuming sample_args" "sint (ra_start sample_args) = 0"
    "le_acc sample_replayed = [1, 2, 3]"
    by (simp_all add: sample_replayed_def sample_args_def)
  with replay_is_uninterrupted [OF sample_serves sample_run] show ?thesis by simp
qed

end
