(* ===== verification/WalletUnshielded.thy ===== *)
theory WalletUnshielded
  imports WalletReplay
begin

text \<open>
  The unshielded half of \<^verbatim>\<open>crates/midnight-wallet/src/replay.rs\<close>: the UTXOs that a wallet
  tracks (\<^verbatim>\<open>crates/midnight-types/src/sync.rs\<close>), a transaction of the indexer applied to
  them, and the loop that reads the transactions of an address. The loop has a bound on the
  connections it opens: a server that keeps sending progress and dropping holds it forever.
\<close>

section \<open>UTXOs\<close>

record spent_key =
  sk_intent :: bytes
  sk_output :: u32

record tracked_utxo =
  tu_owner :: string
  tu_token :: bytes
  tu_value :: u128
  tu_intent :: bytes
  tu_output :: u32
  tu_ctime :: "i64 option"
  tu_registered :: "bool option"

definition spent_key_of :: "tracked_utxo \<Rightarrow> spent_key" where
  "spent_key_of u = \<lparr>sk_intent = tu_intent u, sk_output = tu_output u\<rparr>"

definition night :: bytes where
  "night = replicate 32 0"

definition is_night :: "tracked_utxo \<Rightarrow> bool" where
  "is_night u \<longleftrightarrow> tu_token u = night"

definition is_registered_for_dust :: "tracked_utxo \<Rightarrow> bool" where
  "is_registered_for_dust u \<longleftrightarrow> tu_registered u = Some True"

record subscription_utxo =
  su_owner :: string
  su_token_type :: string
  su_value :: string
  su_intent_hash :: string
  su_output_index :: i64
  su_ctime :: "i64 option"
  su_registered :: "bool option"

record unshielded_tx =
  ut_id :: "i64 option"
  ut_height :: "i64 option"
  ut_created :: "subscription_utxo list"
  ut_spent :: "subscription_utxo list"

text \<open>A transaction event with its block, or the highest transaction id that the indexer knows.\<close>

datatype unshielded_msg = UnshieldedTx unshielded_tx | UnshieldedProgress i64

section \<open>Parsing\<close>

text \<open>\<^verbatim>\<open>str::parse::<u128>\<close>: an optional plus sign, then digits, without overflow.\<close>

definition digit_of :: "char \<Rightarrow> nat option" where
  "digit_of c = (let n = of_char c in if 48 \<le> n \<and> n \<le> (57 :: nat) then Some (n - 48) else None)"

fun parse_digits :: "nat \<Rightarrow> string \<Rightarrow> nat option" where
  "parse_digits n [] = Some n"
| "parse_digits n (c # cs) =
     (case digit_of c of None \<Rightarrow> None | Some d \<Rightarrow>
       if 10 * n + d < 2 ^ 128 then parse_digits (10 * n + d) cs else None)"

definition parse_u128 :: "string \<Rightarrow> u128 option" where
  "parse_u128 s =
     (let digits = (case s of c # cs \<Rightarrow> if c = CHR ''+'' then cs else s | [] \<Rightarrow> []) in
      if digits = [] then None else map_option of_nat (parse_digits 0 digits))"

text \<open>\<^verbatim>\<open><[u8; 32]>::from_hex\<close>.\<close>

definition hash_from_hex :: "wallet_host \<Rightarrow> string \<Rightarrow> bytes option" where
  "hash_from_hex W s =
     (case wh_hex_decode W s of Some bs \<Rightarrow> if length bs = 32 then Some bs else None | None \<Rightarrow> None)"

definition parse_utxo :: "wallet_host \<Rightarrow> subscription_utxo \<Rightarrow> (wallet_error, tracked_utxo) res" where
  "parse_utxo W u =
     rbind (ok_or (MalformedUtxo ''token_type'' None) (hash_from_hex W (su_token_type u))) (\<lambda>token.
     rbind (ok_or (MalformedUtxo ''value'' None) (parse_u128 (su_value u))) (\<lambda>v.
     rbind (ok_or (MalformedUtxo ''intent_hash'' None) (hash_from_hex W (su_intent_hash u))) (\<lambda>intent.
     rbind (if 0 \<le> sint (su_output_index u) \<and> sint (su_output_index u) < 2 ^ 32 then Ok (ucast (su_output_index u))
         else Err (MalformedUtxo ''output_index'' None)) (\<lambda>output.
     Ok \<lparr>tu_owner = su_owner u, tu_token = token, tu_value = v, tu_intent = intent, tu_output = output,
         tu_ctime = su_ctime u, tu_registered = su_registered u\<rparr>))))"

text \<open>The UTXO set after a transaction, and the keys that it spent.\<close>

definition apply_unshielded_tx ::
  "wallet_host \<Rightarrow> tracked_utxo list \<Rightarrow> unshielded_tx \<Rightarrow> (wallet_error, tracked_utxo list \<times> spent_key list) res" where
  "apply_unshielded_tx W utxos tx =
     rbind (traverse (parse_utxo W) (ut_spent tx)) (\<lambda>spent.
     rbind (traverse (parse_utxo W) (ut_created tx)) (\<lambda>created.
     let keys = map spent_key_of spent in
     Ok (filter (\<lambda>u. spent_key_of u \<notin> set keys) utxos @ created, keys)))"

text \<open>The error of a transaction event names the transaction.\<close>

fun name_tx :: "i64 option \<Rightarrow> wallet_error \<Rightarrow> wallet_error" where
  "name_tx tx_id (MalformedUtxo field None) = MalformedUtxo field tx_id"
| "name_tx tx_id other = other"

section \<open>The replay loop\<close>

record unshielded_state =
  us_utxos :: "tracked_utxo list"
  us_height :: i64
  us_last :: i64
  us_spent :: "spent_key list"
  us_target :: "i64 option"
  us_applied :: nat
  us_retries :: nat
  us_high :: "i64 option"
  us_sent :: "sync_progress list"

record unshielded_replay =
  ur_utxos :: "tracked_utxo list"
  ur_last_tx_id :: i64
  ur_last_block_height :: i64
  ur_spent :: "spent_key list"
  ur_sent :: "sync_progress list"

record unshielded_args =
  ua_host :: wallet_host
  ua_start :: i64
  ua_resuming :: bool
  ua_sender :: bool

definition smax_word :: "i64 \<Rightarrow> i64 \<Rightarrow> i64" where
  "smax_word a b = (if sint a \<le> sint b then b else a)"

definition unshielded_result :: "unshielded_state \<Rightarrow> unshielded_replay" where
  "unshielded_result st =
     \<lparr>ur_utxos = us_utxos st, ur_last_tx_id = us_last st, ur_last_block_height = us_height st,
      ur_spent = us_spent st, ur_sent = us_sent st\<rparr>"

definition caught_up :: "unshielded_args \<Rightarrow> unshielded_state \<Rightarrow> unshielded_replay" where
  "caught_up A st =
     (let msg = UnshieldedCaughtUp (length (us_utxos st)) in
      unshielded_result (if ua_sender A then st\<lparr>us_sent := us_sent st @ [msg]\<rparr> else st))"

definition add_tx ::
  "unshielded_tx \<Rightarrow> tracked_utxo list \<Rightarrow> spent_key list \<Rightarrow> unshielded_state \<Rightarrow> unshielded_state" where
  "add_tx tx utxos keys st =
     st\<lparr>us_retries := 0, us_applied := us_applied st + 1, us_utxos := utxos, us_spent := us_spent st @ keys,
        us_last := (case ut_id tx of Some i \<Rightarrow> smax_word (us_last st) i | None \<Rightarrow> us_last st),
        us_height := (case ut_height tx of Some h \<Rightarrow> smax_word (us_height st) h | None \<Rightarrow> us_height st)\<rparr>"

definition unshielded_apply ::
  "unshielded_args \<Rightarrow> unshielded_tx \<Rightarrow> unshielded_state \<Rightarrow> (unshielded_state, unshielded_replay) step_flow" where
  "unshielded_apply A tx st =
     (case rmap_err (name_tx (ut_id tx)) (apply_unshielded_tx (ua_host A) (us_utxos st) tx) of
        Ok (utxos, keys) \<Rightarrow>
          let st' = add_tx tx utxos keys st in
          (case us_target st' of
             Some target \<Rightarrow> if sint target \<le> sint (us_last st') then Inr (Ok (caught_up A st')) else Inl st'
           | None \<Rightarrow> Inl st')
      | Err e \<Rightarrow> Inr (Err e) | Panic \<Rightarrow> Inr Panic | NoFuel \<Rightarrow> Inr NoFuel)"

definition unshielded_transaction ::
  "unshielded_args \<Rightarrow> unshielded_tx \<Rightarrow> unshielded_state \<Rightarrow> (unshielded_state, unshielded_replay) step_flow" where
  "unshielded_transaction A tx st =
     (case ut_id tx of
        None \<Rightarrow> unshielded_apply A tx st
      | Some i \<Rightarrow>
          (case order_regression i (us_high st) of
             Some previous \<Rightarrow> Inr (Err (EventOrder ''unshielded'' i previous))
           | None \<Rightarrow>
               let st' = st\<lparr>us_high := Some i\<rparr> in
               if already_applied i (us_last st') (ua_start A) (0 < us_applied st') then Inl st'
               else unshielded_apply A tx st'))"

definition unshielded_progress ::
  "unshielded_args \<Rightarrow> i64 \<Rightarrow> unshielded_state \<Rightarrow> (unshielded_state, unshielded_replay) step_flow" where
  "unshielded_progress A target st0 =
     (let st = st0\<lparr>us_retries := 0\<rparr> in
      if target = 0 \<or> sint target \<le> sint (us_last st)
      then Inr (Ok ((caught_up A st)\<lparr>ur_last_tx_id := smax_word (us_last st) target\<rparr>))
      else Inl (st\<lparr>us_target := Some target\<rparr>))"

fun unshielded_frame ::
  "unshielded_args \<Rightarrow> unshielded_msg \<Rightarrow> unshielded_state \<Rightarrow> (unshielded_state, unshielded_replay) step_flow" where
  "unshielded_frame A (UnshieldedTx tx) st = unshielded_transaction A tx st"
| "unshielded_frame A (UnshieldedProgress target) st = unshielded_progress A target st"

definition unshielded_retry ::
  "bool \<Rightarrow> wallet_error \<Rightarrow> unshielded_state \<Rightarrow> (unshielded_state, unshielded_replay) flow" where
  "unshielded_retry retryable e st =
     (if retryable \<and> us_retries st < reconnect_max_retries
      then Reconnect (st\<lparr>us_retries := us_retries st + 1\<rparr>) else Stop (Err e))"

definition unshielded_ending ::
  "unshielded_args \<Rightarrow> ending \<Rightarrow> unshielded_state \<Rightarrow> (unshielded_state, unshielded_replay) flow" where
  "unshielded_ending A ending st =
     (case ending of
        Dropped e \<Rightarrow> unshielded_retry (is_retryable e) (gave_up e) st
      | Ended \<Rightarrow> unshielded_retry True (gave_up (Transport ''subscription ended before sync completed'')) st
      | Silent \<Rightarrow>
          if ua_resuming A then Stop (Ok (unshielded_result st))
          else Stop (Err (gave_up (Transport ''timeout waiting for unshielded sync''))))"

fun unshielded_frames ::
  "unshielded_args \<Rightarrow> unshielded_msg frame list \<Rightarrow> ending \<Rightarrow> unshielded_state \<Rightarrow>
   (unshielded_state, unshielded_replay) flow" where
  "unshielded_frames A [] ending st = unshielded_ending A ending st"
| "unshielded_frames A (f # fs) ending st =
     (case unshielded_frame A (frame_msg f) st of Inl st' \<Rightarrow> unshielded_frames A fs ending st' | Inr out \<Rightarrow> Stop out)"

definition unshielded_connection ::
  "unshielded_args \<Rightarrow> unshielded_msg connection \<Rightarrow> unshielded_state \<Rightarrow> (unshielded_state, unshielded_replay) flow" where
  "unshielded_connection A conn st =
     (case conn of
        Refused e \<Rightarrow> unshielded_retry (is_retryable e) (gave_up e) st
      | Delivers fs ending \<Rightarrow> unshielded_frames A fs ending (st\<lparr>us_high := None\<rparr>))"

definition resume_tx_id :: "unshielded_args \<Rightarrow> unshielded_state \<Rightarrow> (wallet_error, i64) res" where
  "resume_tx_id A st =
     (if 0 < us_applied st then if sint (us_last st) = i64_max then Panic else Ok (us_last st + 1) else Ok (ua_start A))"

text \<open>At most \<open>n\<close> connections.\<close>

fun unshielded_loop ::
  "unshielded_args \<Rightarrow> unshielded_msg indexer \<Rightarrow> nat \<Rightarrow> nat \<Rightarrow> unshielded_state \<Rightarrow>
   (wallet_error, unshielded_replay) res" where
  "unshielded_loop A server 0 k st = NoFuel"
| "unshielded_loop A server (Suc n) k st =
     rbind (resume_tx_id A st) (\<lambda>i.
       case unshielded_connection A (server k i) st of
         Reconnect st' \<Rightarrow> unshielded_loop A server n (Suc k) st'
       | Stop r \<Rightarrow> r)"

definition unshielded_init :: "unshielded_args \<Rightarrow> tracked_utxo list \<Rightarrow> i64 \<Rightarrow> unshielded_state" where
  "unshielded_init A utxos height =
     \<lparr>us_utxos = utxos, us_height = height, us_last = last_applied_before (ua_start A), us_spent = [],
      us_target = None, us_applied = 0, us_retries = 0, us_high = None, us_sent = []\<rparr>"

definition replay_unshielded_events ::
  "unshielded_args \<Rightarrow> unshielded_msg indexer \<Rightarrow> nat \<Rightarrow> tracked_utxo list \<Rightarrow> i64 \<Rightarrow>
   (wallet_error, unshielded_replay) res" where
  "replay_unshielded_events A server n utxos height =
     unshielded_loop A server n 0 (unshielded_init A utxos height)"

section \<open>What any indexer can make the replay do\<close>

text \<open>The transactions applied one after the other.\<close>

fun run_txs ::
  "wallet_host \<Rightarrow> unshielded_tx list \<Rightarrow> tracked_utxo list \<Rightarrow> (wallet_error, tracked_utxo list \<times> spent_key list) res" where
  "run_txs W [] utxos = Ok (utxos, [])"
| "run_txs W (tx # txs) utxos =
     rbind (apply_unshielded_tx W utxos tx) (\<lambda>(utxos', keys).
     rbind (run_txs W txs utxos') (\<lambda>(utxos'', keys'). Ok (utxos'', keys @ keys')))"

lemma run_txs_append:
  "run_txs W (txs @ txs') utxos = rbind (run_txs W txs utxos) (\<lambda>(u, ks).
     rbind (run_txs W txs' u) (\<lambda>(u', ks'). Ok (u', ks @ ks')))"
proof (induction txs arbitrary: utxos)
  case Nil
  show ?case by (cases "run_txs W txs' utxos") auto
next
  case (Cons tx txs)
  show ?case
  proof (cases "apply_unshielded_tx W utxos tx")
    case (Ok p)
    obtain u ks where p: "p = (u, ks)" by (cases p)
    show ?thesis
    proof (cases "run_txs W txs u")
      case (Ok q)
      then show ?thesis using \<open>apply_unshielded_tx W utxos tx = Ok p\<close> Cons.IH
        by (cases q; cases "run_txs W txs' (fst q)") (auto simp: p)
    qed (use Ok p Cons.IH in auto)
  qed auto
qed

definition tx_ids :: "unshielded_tx list \<Rightarrow> i64 list" where
  "tx_ids txs = List.map_filter ut_id txs"

lemma tx_ids_simps [simp]:
  "tx_ids [] = []" "tx_ids (txs @ txs') = tx_ids txs @ tx_ids txs'"
  "tx_ids (tx # txs) = (case ut_id tx of Some i \<Rightarrow> i # tx_ids txs | None \<Rightarrow> tx_ids txs)"
  by (simp_all add: tx_ids_def map_filter_def split: option.split)

text \<open>What the loop applied between two of its states.\<close>

definition applies :: "unshielded_args \<Rightarrow> unshielded_state \<Rightarrow> unshielded_tx list \<Rightarrow> unshielded_state \<Rightarrow> bool" where
  "applies A st txs st' \<longleftrightarrow>
     (\<exists>keys. run_txs (ua_host A) txs (us_utxos st) = Ok (us_utxos st', keys) \<and> us_spent st' = us_spent st @ keys) \<and>
     us_applied st' = us_applied st + length txs \<and>
     sorted_wrt (\<lambda>i j. sint i < sint j) (tx_ids txs) \<and>
     us_last st' = fold (\<lambda>i m. smax_word m i) (tx_ids txs) (us_last st) \<and>
     (0 < us_applied st \<or> 0 < sint (ua_start A) \<longrightarrow> list_all (\<lambda>i. sint (us_last st) < sint i) (tx_ids txs))"

lemma smax_word_le: "sint a \<le> sint (smax_word a b)" "sint b \<le> sint (smax_word a b)"
  by (simp_all add: smax_word_def)

lemma fold_smax_bounds:
  "sint m \<le> sint (fold (\<lambda>i m. smax_word m i) is m)"
  "i \<in> set is \<Longrightarrow> sint i \<le> sint (fold (\<lambda>i m. smax_word m i) is m)"
proof (induction "is" arbitrary: m)
  case (Cons j js)
  { case 1 show ?case using Cons.IH(1) [of "smax_word m j"] smax_word_le(1) [of m j] by simp }
  { case 2 then show ?case
      using Cons.IH(1) [of "smax_word m j"] Cons.IH(2) [of "smax_word m j"] smax_word_le(2) [of j m] by auto }
qed simp_all

lemma applies_none:
  "us_utxos st' = us_utxos st \<Longrightarrow> us_spent st' = us_spent st \<Longrightarrow> us_applied st' = us_applied st \<Longrightarrow>
   us_last st' = us_last st \<Longrightarrow> applies A st [] st'"
  by (simp add: applies_def)

lemma applies_trans:
  assumes "applies A st txs st'" "applies A st' txs' st''"
  shows "applies A st (txs @ txs') st''"
proof (cases "txs = []")
  case True
  then show ?thesis using assms by (auto simp: applies_def)
next
  case False
  then have "0 < us_applied st'" using assms(1) by (simp add: applies_def)
  then have new: "sint (us_last st') < sint i" if "i \<in> set (tx_ids txs')" for i
    using assms(2) that by (simp add: applies_def list_all_iff)
  have old: "sint i \<le> sint (us_last st')" "sint (us_last st) \<le> sint (us_last st')" if "i \<in> set (tx_ids txs)" for i
    using assms(1) that fold_smax_bounds by (simp_all add: applies_def)
  have base: "sint (us_last st) \<le> sint (us_last st')"
    using assms(1) fold_smax_bounds(1) by (simp add: applies_def)
  have "sorted_wrt (\<lambda>i j. sint i < sint j) (tx_ids (txs @ txs'))"
    using assms old(1) new unfolding sorted_wrt_append tx_ids_simps applies_def by fastforce
  moreover have "0 < us_applied st \<or> 0 < sint (ua_start A) \<longrightarrow> list_all (\<lambda>i. sint (us_last st) < sint i) (tx_ids (txs @ txs'))"
    using assms(1) new base by (auto simp: applies_def list_all_iff intro: order_le_less_trans)
  ultimately show ?thesis using assms by (auto simp: applies_def run_txs_append)
qed

lemma caught_up_simps [simp]:
  "ur_utxos (caught_up A st) = us_utxos st" "ur_spent (caught_up A st) = us_spent st"
  "ur_last_tx_id (caught_up A st) = us_last st"
  by (simp_all add: caught_up_def unshielded_result_def Let_def)

lemma unshielded_apply_applies:
  assumes new: "\<And>i. ut_id tx = Some i \<Longrightarrow> 0 < us_applied st \<or> 0 < sint (ua_start A) \<Longrightarrow> sint (us_last st) < sint i"
  shows "unshielded_apply A tx st = Inl st' \<Longrightarrow> \<exists>txs. applies A st txs st'"
    and "unshielded_apply A tx st = Inr (Ok r) \<Longrightarrow>
      \<exists>txs st'. applies A st txs st' \<and> ur_utxos r = us_utxos st' \<and> ur_spent r = us_spent st' \<and> ur_last_tx_id r = us_last st'"
proof -
  have added: "applies A st [tx] (add_tx tx utxos keys st)"
    if "apply_unshielded_tx (ua_host A) (us_utxos st) tx = Ok (utxos, keys)" for utxos keys
    using that new by (auto simp: applies_def add_tx_def split: option.split)
  show "\<exists>txs. applies A st txs st'" if "unshielded_apply A tx st = Inl st'"
    using that added by (fastforce simp: unshielded_apply_def Let_def split: res.splits option.splits if_splits prod.splits)
  show "\<exists>txs st'. applies A st txs st' \<and> ur_utxos r = us_utxos st' \<and> ur_spent r = us_spent st' \<and> ur_last_tx_id r = us_last st'"
    if "unshielded_apply A tx st = Inr (Ok r)"
  proof -
    from that obtain utxos keys where "apply_unshielded_tx (ua_host A) (us_utxos st) tx = Ok (utxos, keys)"
      and "r = caught_up A (add_tx tx utxos keys st)"
      by (auto simp: unshielded_apply_def Let_def split: res.splits option.splits if_splits prod.splits)
    with added show ?thesis
      by (intro exI [of _ "[tx]"] exI [of _ "add_tx tx utxos keys st"]) simp
  qed
qed

text \<open>A result of the loop, and the state that it is read off.\<close>

definition gives :: "unshielded_state \<Rightarrow> unshielded_replay \<Rightarrow> bool" where
  "gives st r \<longleftrightarrow> ur_utxos r = us_utxos st \<and> ur_spent r = us_spent st \<and> sint (us_last st) \<le> sint (ur_last_tx_id r)"

lemma gives_result [simp]: "gives st (unshielded_result st)" "gives st (caught_up A st)"
  by (simp_all add: gives_def unshielded_result_def caught_up_def Let_def)

lemma applies_high: "applies A (st\<lparr>us_high := h\<rparr>) txs st' \<longleftrightarrow> applies A st txs st'"
  by (simp add: applies_def)

lemma unshielded_frame_applies:
  "unshielded_frame A m st = Inl st' \<Longrightarrow> \<exists>txs. applies A st txs st'"
  "unshielded_frame A m st = Inr (Ok r) \<Longrightarrow> \<exists>txs st'. applies A st txs st' \<and> gives st' r"
proof -
  have "(unshielded_frame A m st = Inl st' \<longrightarrow> (\<exists>txs. applies A st txs st')) \<and>
    (unshielded_frame A m st = Inr (Ok r) \<longrightarrow> (\<exists>txs st'. applies A st txs st' \<and> gives st' r))"
  proof (cases m)
    case (UnshieldedProgress target)
    let ?st = "st\<lparr>us_retries := 0\<rparr>"
    have none: "applies A st [] (?st\<lparr>us_target := t\<rparr>)" "applies A st [] ?st" for t
      by (simp_all add: applies_none)
    have fin: "gives ?st ((caught_up A ?st)\<lparr>ur_last_tx_id := smax_word (us_last st) target\<rparr>)"
      using smax_word_le(1) [of "us_last st" target] by (simp add: gives_def)
    show ?thesis
    proof (cases "target = 0 \<or> sint target \<le> sint (us_last st)")
      case True
      then have "unshielded_frame A m st = Inr (Ok ((caught_up A ?st)\<lparr>ur_last_tx_id := smax_word (us_last st) target\<rparr>))"
        by (simp add: UnshieldedProgress unshielded_progress_def Let_def)
      with none(2) fin show ?thesis by auto
    next
      case False
      then have "unshielded_frame A m st = Inl (?st\<lparr>us_target := Some target\<rparr>)"
        by (simp add: UnshieldedProgress unshielded_progress_def Let_def)
      with none(1) show ?thesis by auto
    qed
  next
    case (UnshieldedTx tx)
    let ?st = "case ut_id tx of None \<Rightarrow> st | Some i \<Rightarrow> st\<lparr>us_high := Some i\<rparr>"
    have out: "unshielded_frame A m st = Inl ?st \<or> (\<exists>e. unshielded_frame A m st = Inr (Err e)) \<or>
        unshielded_frame A m st = unshielded_apply A tx ?st \<and>
        (\<forall>i. ut_id tx = Some i \<longrightarrow> 0 < us_applied ?st \<or> 0 < sint (ua_start A) \<longrightarrow> sint (us_last ?st) < sint i)"
      by (auto simp: UnshieldedTx unshielded_transaction_def Let_def already_applied_def split: option.split)
    have st: "applies A ?st txs st' \<longleftrightarrow> applies A st txs st'" for txs st'
      by (simp add: applies_high split: option.split)
    have none: "applies A st [] ?st" by (simp add: applies_none split: option.split)
    from out show ?thesis
    proof (elim disjE conjE exE)
      assume ev: "unshielded_frame A m st = unshielded_apply A tx ?st"
        and new: "\<forall>i. ut_id tx = Some i \<longrightarrow> 0 < us_applied ?st \<or> 0 < sint (ua_start A) \<longrightarrow> sint (us_last ?st) < sint i"
      have new': "sint (us_last ?st) < sint i"
        if "ut_id tx = Some i" "0 < us_applied ?st \<or> 0 < sint (ua_start A)" for i
        using new that by blast
      note step = unshielded_apply_applies [of tx ?st A, OF new', unfolded st]
      show ?thesis unfolding ev
      proof (intro conjI impI)
        assume "unshielded_apply A tx ?st = Inl st'"
        from step(1) [OF _ _ this] show "\<exists>txs. applies A st txs st'" by blast
      next
        assume "unshielded_apply A tx ?st = Inr (Ok r)"
        from step(2) [OF _ _ this] show "\<exists>txs st'. applies A st txs st' \<and> gives st' r"
          unfolding gives_def by (metis order_refl)
      qed
    qed (use none in auto)
  qed
  then show "unshielded_frame A m st = Inl st' \<Longrightarrow> \<exists>txs. applies A st txs st'"
    and "unshielded_frame A m st = Inr (Ok r) \<Longrightarrow> \<exists>txs st'. applies A st txs st' \<and> gives st' r" by blast+
qed

lemma unshielded_retry_cases:
  "unshielded_retry b e st = Reconnect st' \<Longrightarrow> applies A st [] st'"
  "unshielded_retry b e st \<noteq> Stop (Ok r)"
  by (auto simp: unshielded_retry_def applies_none split: if_splits)

lemma unshielded_frames_apply:
  "unshielded_frames A fs ending st = Reconnect st' \<Longrightarrow> \<exists>txs. applies A st txs st'"
  "unshielded_frames A fs ending st = Stop (Ok r) \<Longrightarrow> \<exists>txs st'. applies A st txs st' \<and> gives st' r"
proof (induction fs arbitrary: st)
  case Nil
  have none: "applies A st [] st" for st by (simp add: applies_none)
  { case 1 then show ?case using unshielded_retry_cases
      by (fastforce simp: unshielded_ending_def split: ending.splits if_splits) }
  { case 2 then show ?case using unshielded_retry_cases(2) none gives_result(1)
      by (fastforce simp: unshielded_ending_def split: ending.splits if_splits) }
next
  case (Cons f fs)
  have step: "\<exists>txs st1. applies A st txs st1 \<and> P st1"
    if "unshielded_frame A (frame_msg f) st = Inl st'" "\<exists>txs st1. applies A st' txs st1 \<and> P st1" for st st' P
  proof -
    from unshielded_frame_applies(1) [OF that(1)] obtain txs where "applies A st txs st'" ..
    moreover from that(2) obtain txs' st1 where "applies A st' txs' st1" "P st1" by blast
    ultimately show ?thesis using applies_trans by blast
  qed
  { case 1 with Cons.IH(1) step [of _ _ "\<lambda>s. s = st'"] show ?case by (simp split: sum.splits) }
  { case 2 with Cons.IH(2) step unshielded_frame_applies(2) [of A "frame_msg f" st] show ?case by (simp split: sum.splits) }
qed

lemma unshielded_loop_applies:
  "unshielded_loop A server n k st = Ok r \<Longrightarrow> \<exists>txs st'. applies A st txs st' \<and> gives st' r"
proof (induction n arbitrary: k st)
  case (Suc n)
  then obtain i where id: "resume_tx_id A st = Ok i" by (auto simp: rbind_Ok_iff)
  show ?case
  proof (cases "unshielded_connection A (server k i) st")
    case (Reconnect st1)
    then obtain txs where "applies A st txs st1"
      using unshielded_frames_apply(1) [of A _ _ "st\<lparr>us_high := None\<rparr>"] unshielded_retry_cases(1)
      by (fastforce simp: unshielded_connection_def applies_high split: connection.splits)
    moreover have "unshielded_loop A server n (Suc k) st1 = Ok r" using Suc.prems id Reconnect by simp
    ultimately show ?thesis using Suc.IH applies_trans by blast
  next
    case (Stop q)
    then show ?thesis using Suc.prems id unshielded_frames_apply(2) [of A _ _ "st\<lparr>us_high := None\<rparr>"] unshielded_retry_cases(2)
      by (auto simp: unshielded_connection_def applies_high split: connection.splits)
  qed
qed simp

text \<open>
  C0: whatever the indexer delivers, an unshielded replay that returns leaves the UTXOs that its
  transactions leave when they are applied one after the other, and the keys that they spent, in
  order; the transactions with an id are applied with increasing ids, none before the start and
  none twice, and the cursor is not below any of them.
\<close>

theorem unshielded_replay_applies:
  assumes "replay_unshielded_events A server n utxos height = Ok r"
  shows "\<exists>txs. run_txs (ua_host A) txs utxos = Ok (ur_utxos r, ur_spent r) \<and>
    sorted_wrt (\<lambda>i j. sint i < sint j) (tx_ids txs) \<and>
    (0 < sint (ua_start A) \<longrightarrow> list_all (\<lambda>i. sint (ua_start A) \<le> sint i) (tx_ids txs)) \<and>
    list_all (\<lambda>i. sint i \<le> sint (ur_last_tx_id r)) (tx_ids txs)"
proof -
  obtain txs st' where app: "applies A (unshielded_init A utxos height) txs st'" and r: "gives st' r"
    using assms unshielded_loop_applies unfolding replay_unshielded_events_def by blast
  have "list_all (\<lambda>i. sint i \<le> sint (ur_last_tx_id r)) (tx_ids txs)"
    using app r order_trans [OF fold_smax_bounds(2)] unfolding applies_def gives_def list_all_iff by metis
  moreover have "list_all (\<lambda>i. sint (ua_start A) \<le> sint i) (tx_ids txs)" if "0 < sint (ua_start A)"
    using app that sint_minus_1 [OF that]
    by (auto simp: applies_def unshielded_init_def last_applied_before_def list_all_iff)
  ultimately show ?thesis using app r
    by (intro exI [of _ txs]) (auto simp: applies_def gives_def unshielded_init_def)
qed

section \<open>A replay of one transaction\<close>

definition sample_args_unshielded :: unshielded_args where
  "sample_args_unshielded = \<lparr>ua_host = sample_wallet_host, ua_start = 0, ua_resuming = False, ua_sender = False\<rparr>"

definition sample_utxo :: tracked_utxo where
  "sample_utxo = \<lparr>tu_owner = ''me'', tu_token = replicate 32 97, tu_value = 7, tu_intent = replicate 32 98,
     tu_output = 1, tu_ctime = None, tu_registered = None\<rparr>"

definition sample_created :: subscription_utxo where
  "sample_created = \<lparr>su_owner = ''me'', su_token_type = replicate 32 CHR ''a'', su_value = ''+7'',
     su_intent_hash = replicate 32 CHR ''b'', su_output_index = 1, su_ctime = None, su_registered = None\<rparr>"

definition sample_unshielded_indexer :: "unshielded_msg indexer" where
  "sample_unshielded_indexer k i =
     Delivers [Frame (UnshieldedProgress 1) 0 ChOpen,
       Frame (UnshieldedTx \<lparr>ut_id = Some 1, ut_height = Some 20, ut_created = [sample_created], ut_spent = []\<rparr>) 0 ChOpen]
     Silent"

definition sample_unshielded :: unshielded_replay where
  "sample_unshielded = \<lparr>ur_utxos = [sample_utxo], ur_last_tx_id = 1, ur_last_block_height = 20, ur_spent = [], ur_sent = []\<rparr>"

lemma sample_parse: "parse_utxo sample_wallet_host sample_created = Ok sample_utxo"
  by (simp add: parse_utxo_def sample_created_def sample_utxo_def hash_from_hex_def sample_wallet_host_def parse_u128_def
      digit_of_def)

lemma sample_unshielded_run:
  "replay_unshielded_events sample_args_unshielded sample_unshielded_indexer (Suc n) [] 0 = Ok sample_unshielded"
  by (simp add: replay_unshielded_events_def unshielded_init_def resume_tx_id_def sample_args_unshielded_def
      sample_unshielded_indexer_def unshielded_connection_def unshielded_progress_def last_applied_before_def
      unshielded_transaction_def order_regression_def already_applied_def unshielded_apply_def apply_unshielded_tx_def
      sample_parse add_tx_def smax_word_def caught_up_def unshielded_result_def sample_unshielded_def Let_def)

theorem unshielded_replay_applies_witness:
  "\<exists>txs. run_txs (ua_host sample_args_unshielded) txs [] = Ok (ur_utxos sample_unshielded, ur_spent sample_unshielded) \<and>
    sorted_wrt (\<lambda>i j. sint i < sint j) (tx_ids txs) \<and>
    list_all (\<lambda>i. sint i \<le> sint (ur_last_tx_id sample_unshielded)) (tx_ids txs)"
  using unshielded_replay_applies [OF sample_unshielded_run] by blast

end
