(* ===== verification/WalletPending.thy ===== *)
theory WalletPending
  imports WalletUnshielded
begin

text \<open>
  The reservations of inputs that unconfirmed builds spend,
  \<^verbatim>\<open>crates/midnight-wallet/src/per_ledger/pending.rs\<close>: how they are made, confirmed, released
  and evicted, and the form in which they are stored. The Dust spends of the ledger carry their
  nullifier and an opaque rest; the tagged codec is a parameter.
\<close>

section \<open>Reservations\<close>

text \<open>A \<^verbatim>\<open>Timestamp\<close> is a number of seconds, compared as one.\<close>

type_synonym timestamp = u64

type_synonym nullifier = bytes

record 'x dust_spend =
  ds_old_nullifier :: nullifier
  ds_rest :: 'x

record 'x pending_dust_batch =
  pd_spends :: "'x dust_spend list"
  pd_reserved_at :: timestamp
  pd_expires_at :: timestamp

record pending_unshielded =
  pu_key :: spent_key
  pu_reserved_at :: timestamp
  pu_expires_at :: timestamp

record pending_shielded =
  ps_nullifier :: nullifier
  ps_reserved_at :: timestamp
  ps_expires_at :: timestamp

record 'x reservations =
  rv_dust :: "'x pending_dust_batch list"
  rv_unshielded :: "pending_unshielded list"
  rv_shielded :: "pending_shielded list"

record 'i reserved_input =
  ri_input :: 'i
  ri_reserved_at :: timestamp

definition no_reservations :: "'x reservations" where
  "no_reservations = \<lparr>rv_dust = [], rv_unshielded = [], rv_shielded = []\<rparr>"

definition batch_spends :: "'x pending_dust_batch \<Rightarrow> nullifier \<Rightarrow> bool" where
  "batch_spends b n \<longleftrightarrow> list_ex (\<lambda>s. ds_old_nullifier s = n) (pd_spends b)"

definition spends_any_of :: "'x pending_dust_batch \<Rightarrow> nullifier list \<Rightarrow> bool" where
  "spends_any_of b ns \<longleftrightarrow> list_ex (batch_spends b) ns"

definition reserve ::
  "'x dust_spend list list \<Rightarrow> spent_key list \<Rightarrow> nullifier list \<Rightarrow> timestamp \<Rightarrow> timestamp \<Rightarrow>
   'x reservations \<Rightarrow> 'x reservations" where
  "reserve dust unshielded shielded at expires p =
     \<lparr>rv_dust = rv_dust p @ map (\<lambda>ss. \<lparr>pd_spends = ss, pd_reserved_at = at, pd_expires_at = expires\<rparr>) dust,
      rv_unshielded = rv_unshielded p @
        map (\<lambda>k. \<lparr>pu_key = k, pu_reserved_at = at, pu_expires_at = expires\<rparr>) unshielded,
      rv_shielded = rv_shielded p @
        map (\<lambda>n. \<lparr>ps_nullifier = n, ps_reserved_at = at, ps_expires_at = expires\<rparr>) shielded\<rparr>"

text \<open>The reservations that are left, and whether one was removed.\<close>

definition clear_confirmed ::
  "spent_key list \<Rightarrow> nullifier list \<Rightarrow> 'x reservations \<Rightarrow> bool \<times> 'x reservations" where
  "clear_confirmed spent nullifiers p =
     (let p' = p\<lparr>rv_unshielded := (if spent = [] then rv_unshielded p
            else filter (\<lambda>e. pu_key e \<notin> set spent) (rv_unshielded p)),
          rv_dust := (if nullifiers = [] then rv_dust p
            else filter (\<lambda>b. \<not> spends_any_of b nullifiers) (rv_dust p))\<rparr>
      in ((length (rv_unshielded p'), length (rv_dust p')) \<noteq> (length (rv_unshielded p), length (rv_dust p)), p'))"

definition release ::
  "nullifier reserved_input list \<Rightarrow> spent_key reserved_input list \<Rightarrow> nullifier reserved_input list \<Rightarrow>
   'x reservations \<Rightarrow> 'x reservations" where
  "release dust unshielded shielded p =
     \<lparr>rv_dust = filter (\<lambda>b. \<not> list_ex (\<lambda>d. ri_reserved_at d = pd_reserved_at b \<and> batch_spends b (ri_input d)) dust)
        (rv_dust p),
      rv_unshielded = filter (\<lambda>e. \<not> list_ex (\<lambda>u. ri_reserved_at u = pu_reserved_at e \<and> ri_input u = pu_key e) unshielded)
        (rv_unshielded p),
      rv_shielded = filter (\<lambda>e. \<not> list_ex (\<lambda>u. ri_reserved_at u = ps_reserved_at e \<and> ri_input u = ps_nullifier e) shielded)
        (rv_shielded p)\<rparr>"

definition within_ttl :: "timestamp \<Rightarrow> timestamp \<Rightarrow> bool" where
  "within_ttl expires now \<longleftrightarrow> now \<le> expires"

definition evict_expired :: "timestamp \<Rightarrow> 'x reservations \<Rightarrow> 'x reservations" where
  "evict_expired now p =
     \<lparr>rv_dust = filter (\<lambda>b. within_ttl (pd_expires_at b) now) (rv_dust p),
      rv_unshielded = filter (\<lambda>e. within_ttl (pu_expires_at e) now) (rv_unshielded p),
      rv_shielded = filter (\<lambda>e. within_ttl (ps_expires_at e) now) (rv_shielded p)\<rparr>"

section \<open>Stored reservations\<close>

record stored_dust_batch =
  sd_spends_hex :: string
  sd_reserved_at :: u64
  sd_expires_at :: u64

record stored_unshielded =
  sp_intent_hash :: string
  sp_output_index :: u32
  sp_reserved_at :: u64
  sp_expires_at :: u64

record stored_shielded =
  sh_nullifier_hex :: string
  sh_reserved_at :: u64
  sh_expires_at :: u64

record stored_pending =
  st_ledger_version :: ledger_version
  st_dust :: "stored_dust_batch list"
  st_unshielded :: "stored_unshielded list"
  st_shielded :: "stored_shielded list"

text \<open>\<^verbatim>\<open>tagged_to_hex\<close> and \<^verbatim>\<open>tagged_from_hex\<close> at the two types that are stored.\<close>

record 'x pending_codec =
  pc_host :: wallet_host
  pc_spends_to_hex :: "'x dust_spend list \<Rightarrow> string option"
  pc_spends_from_hex :: "string \<Rightarrow> 'x dust_spend list option"
  pc_nullifier_to_hex :: "nullifier \<Rightarrow> string option"
  pc_nullifier_from_hex :: "string \<Rightarrow> nullifier option"

definition to_stored :: "'x pending_codec \<Rightarrow> ledger_version \<Rightarrow> 'x reservations \<Rightarrow> (wallet_error, stored_pending) res" where
  "to_stored C ledger p =
     rbind (traverse (\<lambda>b. rbind (ok_or (Storage ''serialize pending dust spends'') (pc_spends_to_hex C (pd_spends b))) (\<lambda>h.
         Ok \<lparr>sd_spends_hex = h, sd_reserved_at = pd_reserved_at b, sd_expires_at = pd_expires_at b\<rparr>)) (rv_dust p)) (\<lambda>dust.
     rbind (traverse (\<lambda>e. rbind (ok_or (Storage ''serialize pending shielded nullifier'')
           (pc_nullifier_to_hex C (ps_nullifier e))) (\<lambda>h.
         Ok \<lparr>sh_nullifier_hex = h, sh_reserved_at = ps_reserved_at e, sh_expires_at = ps_expires_at e\<rparr>)) (rv_shielded p))
       (\<lambda>shielded.
     Ok \<lparr>st_ledger_version = ledger, st_dust = dust,
         st_unshielded = map (\<lambda>e. \<lparr>sp_intent_hash = wh_hex_encode (pc_host C) (sk_intent (pu_key e)),
           sp_output_index = sk_output (pu_key e), sp_reserved_at = pu_reserved_at e,
           sp_expires_at = pu_expires_at e\<rparr>) (rv_unshielded p),
         st_shielded = shielded\<rparr>))"

definition from_stored :: "'x pending_codec \<Rightarrow> ledger_version \<Rightarrow> stored_pending \<Rightarrow> (wallet_error, 'x reservations) res" where
  "from_stored C ledger s =
     (if st_ledger_version s \<noteq> ledger then Ok no_reservations
      else
        rbind (traverse (\<lambda>d. rbind (ok_or (Storage ''decode pending dust spends'') (pc_spends_from_hex C (sd_spends_hex d))) (\<lambda>ss.
            Ok \<lparr>pd_spends = ss, pd_reserved_at = sd_reserved_at d, pd_expires_at = sd_expires_at d\<rparr>)) (st_dust s)) (\<lambda>dust.
        rbind (traverse (\<lambda>u. rbind (ok_or (Storage ''decode pending unshielded intent hash'')
              (hash_from_hex (pc_host C) (sp_intent_hash u))) (\<lambda>h.
            Ok \<lparr>pu_key = \<lparr>sk_intent = h, sk_output = sp_output_index u\<rparr>, pu_reserved_at = sp_reserved_at u,
                pu_expires_at = sp_expires_at u\<rparr>)) (st_unshielded s)) (\<lambda>unshielded.
        rbind (traverse (\<lambda>u. rbind (ok_or (Storage ''decode pending shielded nullifier'')
              (pc_nullifier_from_hex C (sh_nullifier_hex u))) (\<lambda>n.
            Ok \<lparr>ps_nullifier = n, ps_reserved_at = sh_reserved_at u, ps_expires_at = sh_expires_at u\<rparr>)) (st_shielded s))
          (\<lambda>shielded.
        Ok \<lparr>rv_dust = dust, rv_unshielded = unshielded, rv_shielded = shielded\<rparr>))))"

definition stored_is_empty :: "stored_pending \<Rightarrow> bool" where
  "stored_is_empty s \<longleftrightarrow> st_dust s = [] \<and> st_unshielded s = [] \<and> st_shielded s = []"

section \<open>Reservations last until they are given up\<close>

text \<open>What changes the reservations of a wallet.\<close>

datatype 'x pending_event =
    Reserve "'x dust_spend list list" "spent_key list" "nullifier list" timestamp timestamp
  | Confirmed "spent_key list" "nullifier list"
  | Release "nullifier reserved_input list" "spent_key reserved_input list" "nullifier reserved_input list"
  | Evict timestamp

fun pending_step :: "'x pending_event \<Rightarrow> 'x reservations \<Rightarrow> 'x reservations" where
  "pending_step (Reserve d u s at expires) p = reserve d u s at expires p"
| "pending_step (Confirmed spent ns) p = snd (clear_confirmed spent ns p)"
| "pending_step (Release d u s) p = release d u s p"
| "pending_step (Evict now) p = evict_expired now p"

text \<open>The steps that give up an entry: its spend is seen, its build hands it back, or its TTL is over.\<close>

fun gives_up_unshielded :: "pending_unshielded \<Rightarrow> 'x pending_event \<Rightarrow> bool" where
  "gives_up_unshielded e (Confirmed spent ns) \<longleftrightarrow> pu_key e \<in> set spent"
| "gives_up_unshielded e (Release d u s) \<longleftrightarrow> list_ex (\<lambda>i. ri_reserved_at i = pu_reserved_at e \<and> ri_input i = pu_key e) u"
| "gives_up_unshielded e (Evict now) \<longleftrightarrow> pu_expires_at e < now"
| "gives_up_unshielded e step \<longleftrightarrow> False"

fun gives_up_shielded :: "pending_shielded \<Rightarrow> 'x pending_event \<Rightarrow> bool" where
  "gives_up_shielded e (Release d u s) \<longleftrightarrow> list_ex (\<lambda>i. ri_reserved_at i = ps_reserved_at e \<and> ri_input i = ps_nullifier e) s"
| "gives_up_shielded e (Evict now) \<longleftrightarrow> ps_expires_at e < now"
| "gives_up_shielded e step \<longleftrightarrow> False"

fun gives_up_dust :: "'x pending_dust_batch \<Rightarrow> 'x pending_event \<Rightarrow> bool" where
  "gives_up_dust b (Confirmed spent ns) \<longleftrightarrow> spends_any_of b ns"
| "gives_up_dust b (Release d u s) \<longleftrightarrow> list_ex (\<lambda>i. ri_reserved_at i = pd_reserved_at b \<and> batch_spends b (ri_input i)) d"
| "gives_up_dust b (Evict now) \<longleftrightarrow> pd_expires_at b < now"
| "gives_up_dust b step \<longleftrightarrow> False"

lemma pending_step_unshielded:
  "e \<in> set (rv_unshielded p) \<Longrightarrow> e \<in> set (rv_unshielded (pending_step s p)) \<longleftrightarrow> \<not> gives_up_unshielded e s"
  by (cases s) (simp_all add: reserve_def clear_confirmed_def release_def evict_expired_def within_ttl_def not_less Let_def)

lemma pending_step_shielded:
  "f \<in> set (rv_shielded p) \<Longrightarrow> f \<in> set (rv_shielded (pending_step s p)) \<longleftrightarrow> \<not> gives_up_shielded f s"
  by (cases s) (simp_all add: reserve_def clear_confirmed_def release_def evict_expired_def within_ttl_def not_less Let_def)

lemma pending_step_dust:
  "b \<in> set (rv_dust p) \<Longrightarrow> b \<in> set (rv_dust (pending_step s p)) \<longleftrightarrow> \<not> gives_up_dust b s"
  by (cases s)
    (simp_all add: reserve_def clear_confirmed_def release_def evict_expired_def within_ttl_def not_less Let_def spends_any_of_def)

lemmas pending_step_keeps = pending_step_unshielded pending_step_shielded pending_step_dust

definition pending_run :: "'x pending_event list \<Rightarrow> 'x reservations \<Rightarrow> 'x reservations" where
  "pending_run ss p = fold pending_step ss p"

lemma pending_run_Cons [simp]: "pending_run (s # ss) p = pending_run ss (pending_step s p)"
  by (simp add: pending_run_def)

lemma pending_run_Nil [simp]: "pending_run [] p = p"
  by (simp add: pending_run_def)

lemma pending_run_unshielded:
  "e \<in> set (rv_unshielded p) \<Longrightarrow> \<not> list_ex (gives_up_unshielded e) ss \<Longrightarrow> e \<in> set (rv_unshielded (pending_run ss p))"
  by (induction ss arbitrary: p) (simp_all add: pending_step_unshielded)

lemma pending_run_shielded:
  "f \<in> set (rv_shielded p) \<Longrightarrow> \<not> list_ex (gives_up_shielded f) ss \<Longrightarrow> f \<in> set (rv_shielded (pending_run ss p))"
  by (induction ss arbitrary: p) (simp_all add: pending_step_shielded)

lemma pending_run_dust:
  "b \<in> set (rv_dust p) \<Longrightarrow> \<not> list_ex (gives_up_dust b) ss \<Longrightarrow> b \<in> set (rv_dust (pending_run ss p))"
  by (induction ss arbitrary: p) (simp_all add: pending_step_dust)

text \<open>
  C0: whatever is reserved, confirmed, released and evicted, in any order: a reservation stays
  until its own spend is seen on the chain, its own build hands it back, or the chain time passes
  its TTL. So no later build selects the input of an unconfirmed one.
\<close>

theorem reservations_last_until_given_up:
  "set (filter (\<lambda>e. \<not> list_ex (gives_up_unshielded e) ss) (rv_unshielded p)) \<subseteq> set (rv_unshielded (pending_run ss p)) \<and>
   set (filter (\<lambda>e. \<not> list_ex (gives_up_shielded e) ss) (rv_shielded p)) \<subseteq> set (rv_shielded (pending_run ss p)) \<and>
   set (filter (\<lambda>b. \<not> list_ex (gives_up_dust b) ss) (rv_dust p)) \<subseteq> set (rv_dust (pending_run ss p))"
  by (auto intro: pending_run_unshielded pending_run_shielded pending_run_dust)

text \<open>What reservations come from a stored form.\<close>

definition hex_law :: "wallet_host \<Rightarrow> bool" where
  "hex_law W \<longleftrightarrow> (\<forall>bs. wh_hex_decode W (wh_hex_encode W bs) = Some bs)"

definition codec_law :: "'x pending_codec \<Rightarrow> bool" where
  "codec_law C \<longleftrightarrow> hex_law (pc_host C) \<and>
     (\<forall>ss h. pc_spends_to_hex C ss = Some h \<longrightarrow> pc_spends_from_hex C h = Some ss) \<and>
     (\<forall>n h. pc_nullifier_to_hex C n = Some h \<longrightarrow> pc_nullifier_from_hex C h = Some n)"

definition intent_hashes_sized :: "'x reservations \<Rightarrow> bool" where
  "intent_hashes_sized p \<longleftrightarrow> list_all (\<lambda>e. length (sk_intent (pu_key e)) = 32) (rv_unshielded p)"

lemma traverse_back:
  assumes "traverse f xs = Ok ys" "\<And>x y. x \<in> set xs \<Longrightarrow> f x = Ok y \<Longrightarrow> g y = Ok x"
  shows "traverse g ys = Ok xs"
  using assms by (induction xs arbitrary: ys) auto

text \<open>
  C0: what a wallet stores of its reservations is what a wallet of the same ledger generation
  reads back, when the codecs read what they wrote; one of another generation starts with none.
\<close>

theorem pending_roundtrip:
  assumes "codec_law C" "intent_hashes_sized p" "to_stored C ledger p = Ok s"
  shows "from_stored C ledger' s = Ok (if ledger' = ledger then p else no_reservations)"
proof -
  have dust: "traverse (\<lambda>d. rbind (ok_or (Storage ''decode pending dust spends'') (pc_spends_from_hex C (sd_spends_hex d))) (\<lambda>ss.
      Ok \<lparr>pd_spends = ss, pd_reserved_at = sd_reserved_at d, pd_expires_at = sd_expires_at d\<rparr>)) (st_dust s) = Ok (rv_dust p)"
    by (rule traverse_back [where f = "\<lambda>b. rbind (ok_or (Storage ''serialize pending dust spends'')
        (pc_spends_to_hex C (pd_spends b))) (\<lambda>h.
         Ok \<lparr>sd_spends_hex = h, sd_reserved_at = pd_reserved_at b, sd_expires_at = pd_expires_at b\<rparr>)"])
      (use assms in \<open>auto simp: to_stored_def codec_law_def\<close>)
  have shielded: "traverse (\<lambda>u. rbind (ok_or (Storage ''decode pending shielded nullifier'')
      (pc_nullifier_from_hex C (sh_nullifier_hex u))) (\<lambda>n.
      Ok \<lparr>ps_nullifier = n, ps_reserved_at = sh_reserved_at u, ps_expires_at = sh_expires_at u\<rparr>)) (st_shielded s) =
      Ok (rv_shielded p)"
    by (rule traverse_back [where f = "\<lambda>e. rbind (ok_or (Storage ''serialize pending shielded nullifier'')
           (pc_nullifier_to_hex C (ps_nullifier e))) (\<lambda>h.
         Ok \<lparr>sh_nullifier_hex = h, sh_reserved_at = ps_reserved_at e, sh_expires_at = ps_expires_at e\<rparr>)"])
      (use assms in \<open>auto simp: to_stored_def codec_law_def\<close>)
  have unshielded: "traverse (\<lambda>u. rbind (ok_or (Storage ''decode pending unshielded intent hash'')
      (hash_from_hex (pc_host C) (sp_intent_hash u))) (\<lambda>h.
      Ok \<lparr>pu_key = \<lparr>sk_intent = h, sk_output = sp_output_index u\<rparr>, pu_reserved_at = sp_reserved_at u,
          pu_expires_at = sp_expires_at u\<rparr>)) (st_unshielded s) = Ok (rv_unshielded p)"
  proof -
    have s: "st_unshielded s = map (\<lambda>e. \<lparr>sp_intent_hash = wh_hex_encode (pc_host C) (sk_intent (pu_key e)),
        sp_output_index = sk_output (pu_key e), sp_reserved_at = pu_reserved_at e, sp_expires_at = pu_expires_at e\<rparr>)
        (rv_unshielded p)"
      using assms(3) by (auto simp: to_stored_def)
    show ?thesis unfolding s
      by (rule traverse_back [where f = "\<lambda>e. Ok \<lparr>sp_intent_hash = wh_hex_encode (pc_host C) (sk_intent (pu_key e)),
        sp_output_index = sk_output (pu_key e), sp_reserved_at = pu_reserved_at e, sp_expires_at = pu_expires_at e\<rparr>"])
        (use assms(1,2) in \<open>auto simp: codec_law_def hex_law_def hash_from_hex_def intent_hashes_sized_def list_all_iff
          intro!: traverse_ok_fun\<close>)
  qed
  have "st_ledger_version s = ledger" using assms(3) by (auto simp: to_stored_def)
  then show ?thesis using dust shielded unshielded by (simp add: from_stored_def)
qed

section \<open>Reservations with one spend of each kind\<close>

definition sample_reservations :: "unit reservations" where
  "sample_reservations =
     \<lparr>rv_dust = [\<lparr>pd_spends = [\<lparr>ds_old_nullifier = [97], ds_rest = ()\<rparr>], pd_reserved_at = 10, pd_expires_at = 70\<rparr>],
      rv_unshielded = [\<lparr>pu_key = \<lparr>sk_intent = replicate 32 98, sk_output = 2\<rparr>, pu_reserved_at = 10, pu_expires_at = 70\<rparr>],
      rv_shielded = [\<lparr>ps_nullifier = [99], ps_reserved_at = 10, ps_expires_at = 70\<rparr>]\<rparr>"

definition sample_codec :: "unit pending_codec" where
  "sample_codec =
     \<lparr>pc_host = sample_wallet_host,
      pc_spends_to_hex = (\<lambda>ss. case ss of [s] \<Rightarrow> Some (wh_hex_encode sample_wallet_host (ds_old_nullifier s)) | _ \<Rightarrow> None),
      pc_spends_from_hex = (\<lambda>h. map_option (\<lambda>n. [\<lparr>ds_old_nullifier = n, ds_rest = ()\<rparr>]) (wh_hex_decode sample_wallet_host h)), pc_nullifier_to_hex = (\<lambda>n. Some (wh_hex_encode sample_wallet_host n)),
      pc_nullifier_from_hex = wh_hex_decode sample_wallet_host\<rparr>"

definition sample_stored :: stored_pending where
  "sample_stored =
     \<lparr>st_ledger_version = V9, st_dust = [\<lparr>sd_spends_hex = ''a'', sd_reserved_at = 10, sd_expires_at = 70\<rparr>],
      st_unshielded = [\<lparr>sp_intent_hash = replicate 32 (CHR ''b''), sp_output_index = 2, sp_reserved_at = 10, sp_expires_at = 70\<rparr>],
      st_shielded = [\<lparr>sh_nullifier_hex = ''c'', sh_reserved_at = 10, sh_expires_at = 70\<rparr>]\<rparr>"

lemma sample_hex_law: "hex_law sample_wallet_host"
proof -
  have "of_nat (unat b mod 256) = b" for b :: "8 word"
    using unsigned_less [of b, where ?'a = nat] by simp
  then show ?thesis by (simp add: hex_law_def sample_wallet_host_def comp_def)
qed

lemma sample_codec_law: "codec_law sample_codec"
  using sample_hex_law
  by (auto simp: codec_law_def sample_codec_def hex_law_def split: list.splits)

lemma sample_to_stored: "to_stored sample_codec V9 sample_reservations = Ok sample_stored"
  by (simp add: to_stored_def sample_codec_def sample_reservations_def sample_stored_def sample_wallet_host_def
      char_of_def bit_0)

theorem pending_roundtrip_witness:
  "from_stored sample_codec V9 sample_stored = Ok sample_reservations \<and>
   from_stored sample_codec V8 sample_stored = Ok no_reservations"
  using pending_roundtrip [OF sample_codec_law _ sample_to_stored, of V9]
    pending_roundtrip [OF sample_codec_law _ sample_to_stored, of V8]
  by (simp add: intent_hashes_sized_def sample_reservations_def)

end
