(* ===== verification/WalletStore.thy ===== *)
theory WalletStore
  imports WalletPending Sexp
begin

text \<open>
  A wallet's snapshot directory: \<^verbatim>\<open>crates/midnight-wallet/src/storage.rs\<close> and the state files of
  a generation, \<^verbatim>\<open>src/per_ledger/snapshot.rs\<close>.

  The directory is part of the state of every operation, and each file operation can fail: the
  field \<open>wd_faults\<close> says, in order, which of the next ones fail. A state file is named by its
  number, since \<^verbatim>\<open>zswap-N.bin\<close> and \<^verbatim>\<open>dust_wallet-N.bin\<close> determine \<^verbatim>\<open>N\<close>. JSON and the tagged
  encoding are parameters.
\<close>

section \<open>The directory\<close>

record chain_pin =
  cp_height :: u64
  cp_hash :: string

record stored_utxo =
  sx_owner :: string
  sx_token_type :: string
  sx_value :: string
  sx_intent_hash :: string
  sx_output_index :: u32
  sx_ctime :: "i64 option"
  sx_registered :: "bool option"

record stored_metadata =
  md_generation :: u64
  md_ledger :: ledger_version
  md_zswap_event_id :: i64
  md_dust_event_id :: i64
  md_last_block_height :: i64
  md_last_tx_id :: "i64 option"
  md_chain_pin :: "chain_pin option"
  md_utxos :: "stored_utxo list"

record wallet_dir =
  wd_metadata :: "string option"
  wd_zswap :: "u64 \<rightharpoonup> bytes"
  wd_dust :: "u64 \<rightharpoonup> bytes"
  wd_pending :: "string option"
  wd_faults :: "bool list"

type_synonym 'a dir_op = "(wallet_dir, wallet_error, 'a) sm"

text \<open>The tagged encoding of the state of a generation, and the JSON of what is stored beside it.\<close>

record ('z, 'd) snapshot_codec =
  sc_host :: wallet_host
  sc_ledger :: ledger_version
  sc_zswap_to :: "'z \<Rightarrow> bytes option"
  sc_zswap_from :: "bytes \<Rightarrow> 'z option"
  sc_dust_to :: "'d \<Rightarrow> bytes option"
  sc_dust_from :: "bytes \<Rightarrow> 'd option"
  sc_metadata_to :: "stored_metadata \<Rightarrow> string option"
  sc_metadata_from :: "string \<Rightarrow> stored_metadata option"
  sc_pending_to :: "stored_pending \<Rightarrow> string option"
  sc_pending_from :: "string \<Rightarrow> stored_pending option"

text \<open>Whether the next file operation fails.\<close>

definition disk_fails :: "bool dir_op" where
  "disk_fails = (\<lambda>d. case wd_faults d of
     [] \<Rightarrow> (Ok False, d) | f # fs \<Rightarrow> (Ok f, d\<lparr>wd_faults := fs\<rparr>))"

definition disk_op :: "string \<Rightarrow> unit dir_op" where
  "disk_op what = sbind disk_fails (\<lambda>f. if f then sfail (Storage what) else sret ())"

text \<open>
  \<^verbatim>\<open>write_atomic\<close>: a failure before the rename leaves the old contents, a failure of the sync
  after it the new ones. No reader looks at the temporary file.
\<close>

definition wallet_write :: "(wallet_dir \<Rightarrow> wallet_dir) \<Rightarrow> unit dir_op" where
  "wallet_write put =
     sbind (disk_op ''write'') (\<lambda>_. sbind (disk_op ''rename'') (\<lambda>_. sbind (smodify put) (\<lambda>_. disk_op ''sync'')))"

definition create_wallet_dir :: "unit dir_op" where
  "create_wallet_dir = disk_op ''create dir''"

text \<open>\<^verbatim>\<open>read_json\<close>: a path whose existence the system does not confirm counts as absent.\<close>

definition read_json :: "(wallet_dir \<Rightarrow> string option) \<Rightarrow> (string \<Rightarrow> 'a option) \<Rightarrow> 'a option dir_op" where
  "read_json file parse =
     sbind disk_fails (\<lambda>unknown.
     sbind (sget file) (\<lambda>here.
     if unknown then sret None
     else case here of None \<Rightarrow> sret None
       | Some text \<Rightarrow> sbind (disk_op ''read'') (\<lambda>_. slift (rmap Some (ok_or (Storage ''parse'') (parse text))))))"

definition read_metadata :: "('z, 'd) snapshot_codec \<Rightarrow> stored_metadata option dir_op" where
  "read_metadata C = read_json wd_metadata (sc_metadata_from C)"

definition load_chain_pin :: "('z, 'd) snapshot_codec \<Rightarrow> chain_pin option dir_op" where
  "load_chain_pin C = sbind (read_metadata C) (\<lambda>m. sret (Option.bind m md_chain_pin))"

definition load_ledger_version :: "('z, 'd) snapshot_codec \<Rightarrow> ledger_version option dir_op" where
  "load_ledger_version C = sbind (read_metadata C) (\<lambda>m. sret (map_option md_ledger m))"

section \<open>State files\<close>

definition tagged_to_file :: "(bytes \<Rightarrow> wallet_dir \<Rightarrow> wallet_dir) \<Rightarrow> ('a \<Rightarrow> bytes option) \<Rightarrow> 'a \<Rightarrow> unit dir_op" where
  "tagged_to_file put serialize x =
     sbind (slift (ok_or (Storage ''serialize'') (serialize x))) (\<lambda>buf. wallet_write (put buf))"

definition tagged_from_file :: "(wallet_dir \<Rightarrow> bytes option) \<Rightarrow> (bytes \<Rightarrow> 'a option) \<Rightarrow> 'a dir_op" where
  "tagged_from_file file deserialize =
     sbind (disk_op ''read'') (\<lambda>_.
     sbind (sget file) (\<lambda>here.
     sbind (slift (ok_or (Storage ''read'') here)) (\<lambda>buf.
     slift (ok_or (Storage ''deserialize'') (deserialize buf)))))"

definition put_zswap :: "u64 \<Rightarrow> bytes \<Rightarrow> wallet_dir \<Rightarrow> wallet_dir" where
  "put_zswap g buf d = d\<lparr>wd_zswap := (wd_zswap d)(g \<mapsto> buf)\<rparr>"

definition put_dust :: "u64 \<Rightarrow> bytes \<Rightarrow> wallet_dir \<Rightarrow> wallet_dir" where
  "put_dust g buf d = d\<lparr>wd_dust := (wd_dust d)(g \<mapsto> buf)\<rparr>"

definition write_state :: "('z, 'd) snapshot_codec \<Rightarrow> 'z \<Rightarrow> 'd \<Rightarrow> u64 \<Rightarrow> unit dir_op" where
  "write_state C z w g =
     sbind (tagged_to_file (put_zswap g) (sc_zswap_to C) z) (\<lambda>_.
       tagged_to_file (put_dust g) (sc_dust_to C) w)"

text \<open>A failed removal is ignored.\<close>

definition try_remove :: "(wallet_dir \<Rightarrow> wallet_dir) \<Rightarrow> unit dir_op" where
  "try_remove del = sbind disk_fails (\<lambda>f. if f then sret () else smodify del)"

definition remove_state :: "u64 \<Rightarrow> unit dir_op" where
  "remove_state g =
     sbind (try_remove (\<lambda>d. d\<lparr>wd_zswap := (wd_zswap d)(g := None)\<rparr>)) (\<lambda>_.
       try_remove (\<lambda>d. d\<lparr>wd_dust := (wd_dust d)(g := None)\<rparr>))"

text \<open>\<^verbatim>\<open>read_metadata(..).ok().flatten()\<close>: an error of the read counts as no metadata.\<close>

definition previous_generation :: "('z, 'd) snapshot_codec \<Rightarrow> u64 option dir_op" where
  "previous_generation C = (\<lambda>d. case read_metadata C d of
     (Ok m, d') \<Rightarrow> (Ok (map_option md_generation m), d') | (r, d') \<Rightarrow> (Ok None, d'))"

text \<open>The number after the last one; \<^verbatim>\<open>g + 1\<close> overflows at the largest number: a panic of a debug build.\<close>

definition next_generation :: "u64 option \<Rightarrow> (wallet_error, u64) res" where
  "next_generation previous = (case previous of None \<Rightarrow> Ok 1 | Some g \<Rightarrow> if g = -1 then Panic else Ok (g + 1))"

definition put_metadata :: "string \<Rightarrow> wallet_dir \<Rightarrow> wallet_dir" where
  "put_metadata text d = d\<lparr>wd_metadata := Some text\<rparr>"

definition commit_metadata :: "('z, 'd) snapshot_codec \<Rightarrow> stored_metadata \<Rightarrow> unit dir_op" where
  "commit_metadata C m =
     sbind (slift (ok_or (Storage ''serialize metadata'') (sc_metadata_to C m))) (\<lambda>text. wallet_write (put_metadata text))"

definition save_snapshot ::
  "('z, 'd) snapshot_codec \<Rightarrow> stored_metadata \<Rightarrow> (u64 \<Rightarrow> unit dir_op) \<Rightarrow> unit dir_op" where
  "save_snapshot C m writes =
     sbind create_wallet_dir (\<lambda>_.
     sbind (previous_generation C) (\<lambda>previous.
     sbind (slift (next_generation previous)) (\<lambda>g.
     sbind (writes g) (\<lambda>_.
     sbind (commit_metadata C (m\<lparr>md_generation := g\<rparr>)) (\<lambda>_.
     case previous of None \<Rightarrow> sret () | Some p \<Rightarrow> remove_state p)))))"

section \<open>What a snapshot records\<close>

definition stored_utxo_of :: "wallet_host \<Rightarrow> tracked_utxo \<Rightarrow> stored_utxo" where
  "stored_utxo_of W u =
     \<lparr>sx_owner = tu_owner u, sx_token_type = wh_hex_encode W (tu_token u), sx_value = show_nat (unat (tu_value u)),
      sx_intent_hash = wh_hex_encode W (tu_intent u), sx_output_index = tu_output u, sx_ctime = tu_ctime u,
      sx_registered = tu_registered u\<rparr>"

definition tracked_utxo_of :: "wallet_host \<Rightarrow> stored_utxo \<Rightarrow> (wallet_error, tracked_utxo) res" where
  "tracked_utxo_of W u =
     rbind (ok_or (Storage ''stored UTXO token_type'') (hash_from_hex W (sx_token_type u))) (\<lambda>token.
     rbind (ok_or (Storage ''stored UTXO value'') (parse_u128 (sx_value u))) (\<lambda>v.
     rbind (ok_or (Storage ''stored UTXO intent_hash'') (hash_from_hex W (sx_intent_hash u))) (\<lambda>intent.
     Ok \<lparr>tu_owner = sx_owner u, tu_token = token, tu_value = v, tu_intent = intent, tu_output = sx_output_index u,
         tu_ctime = sx_ctime u, tu_registered = sx_registered u\<rparr>)))"

record ('z, 'd) wallet_snapshot =
  sn_zswap_state :: 'z
  sn_dust_wallet :: 'd
  sn_zswap_event_id :: i64
  sn_dust_event_id :: i64
  sn_last_block_height :: i64
  sn_last_tx_id :: "i64 option"
  sn_chain_pin :: "chain_pin option"
  sn_utxos :: "tracked_utxo list"

definition expect_ledger :: "ledger_version \<Rightarrow> ledger_version \<Rightarrow> (wallet_error, unit) res" where
  "expect_ledger ledger found = (if found = ledger then Ok () else Err (LedgerMismatch ledger found))"

definition load :: "('z, 'd) snapshot_codec \<Rightarrow> ('z, 'd) wallet_snapshot option dir_op" where
  "load C =
     sbind (read_metadata C) (\<lambda>here.
     case here of None \<Rightarrow> sret None
     | Some m \<Rightarrow>
         sbind (slift (expect_ledger (sc_ledger C) (md_ledger m))) (\<lambda>_.
         sbind (tagged_from_file (\<lambda>d. wd_zswap d (md_generation m)) (sc_zswap_from C)) (\<lambda>z.
         sbind (tagged_from_file (\<lambda>d. wd_dust d (md_generation m)) (sc_dust_from C)) (\<lambda>w.
         sbind (slift (traverse (tracked_utxo_of (sc_host C)) (md_utxos m))) (\<lambda>utxos.
         sret (Some \<lparr>sn_zswap_state = z, sn_dust_wallet = w, sn_zswap_event_id = md_zswap_event_id m,
           sn_dust_event_id = md_dust_event_id m, sn_last_block_height = md_last_block_height m,
           sn_last_tx_id = md_last_tx_id m, sn_chain_pin = md_chain_pin m, sn_utxos = utxos\<rparr>))))))"

definition metadata_of :: "('z, 'd) snapshot_codec \<Rightarrow> ('z, 'd) wallet_snapshot \<Rightarrow> stored_metadata" where
  "metadata_of C s =
     \<lparr>md_generation = 0, md_ledger = sc_ledger C, md_zswap_event_id = sn_zswap_event_id s,
      md_dust_event_id = sn_dust_event_id s, md_last_block_height = sn_last_block_height s,
      md_last_tx_id = sn_last_tx_id s, md_chain_pin = sn_chain_pin s,
      md_utxos = map (stored_utxo_of (sc_host C)) (sn_utxos s)\<rparr>"

definition save :: "('z, 'd) snapshot_codec \<Rightarrow> ('z, 'd) wallet_snapshot \<Rightarrow> unit dir_op" where
  "save C s = save_snapshot C (metadata_of C s) (write_state C (sn_zswap_state s) (sn_dust_wallet s))"

section \<open>Pending reservations\<close>

definition save_pending :: "('z, 'd) snapshot_codec \<Rightarrow> stored_pending \<Rightarrow> unit dir_op" where
  "save_pending C p =
     sbind create_wallet_dir (\<lambda>_.
     if stored_is_empty p then
       sbind (disk_op ''remove empty pending file'') (\<lambda>_. smodify (wd_pending_update (\<lambda>_. None)))
     else
       sbind (slift (ok_or (Storage ''serialize pending'') (sc_pending_to C p))) (\<lambda>text.
         wallet_write (wd_pending_update (\<lambda>_. Some text))))"

definition load_pending :: "('z, 'd) snapshot_codec \<Rightarrow> stored_pending option dir_op" where
  "load_pending C = read_json wd_pending (sc_pending_from C)"


section \<open>Reading back a UTXO\<close>

lemma digit_of_digit [simp]: "n < 10 \<Longrightarrow> digit_of (char_of (48 + n)) = Some n"
  by (simp add: digit_of_def Let_def)

lemma parse_digits_append:
  "parse_digits n (xs @ ys) = (case parse_digits n xs of None \<Rightarrow> None | Some m \<Rightarrow> parse_digits m ys)"
  by (induction xs arbitrary: n) (simp_all split: option.split)

lemma parse_digits_show: "n < 2 ^ 128 \<Longrightarrow> parse_digits 0 (show_nat n) = Some n"
proof (induction n rule: show_nat.induct)
  case (1 n)
  show ?case
  proof (cases "n < 10")
    case True
    with 1 show ?thesis by (subst show_nat.simps) simp
  next
    case False
    with 1 have "parse_digits 0 (show_nat (n div 10)) = Some (n div 10)" by (simp add: div_less_dividend less_le_trans)
    with 1(2) False show ?thesis by (subst show_nat.simps) (simp add: parse_digits_append)
  qed
qed

lemma show_nat_no_sign: "show_nat n \<noteq> [] \<and> hd (show_nat n) \<noteq> CHR ''+''"
  using show_nat_digits [of n] by (cases "show_nat n") (auto simp: ascii_digit_def)

lemma parse_u128_show [simp]: "parse_u128 (show_nat (unat v)) = Some v"
proof -
  have "unat v < 2 ^ 128" using unsigned_less [of v, where ?'a = nat] by simp
  moreover obtain c cs where "show_nat (unat v) = c # cs" "c \<noteq> CHR ''+''"
    using show_nat_no_sign [of "unat v"] by (cases "show_nat (unat v)") auto
  ultimately show ?thesis using parse_digits_show [of "unat v"] by (simp add: parse_u128_def)
qed

definition utxo_sized :: "tracked_utxo \<Rightarrow> bool" where
  "utxo_sized u \<longleftrightarrow> length (tu_token u) = 32 \<and> length (tu_intent u) = 32"

lemma stored_utxo_back: "hex_law W \<Longrightarrow> utxo_sized u \<Longrightarrow> tracked_utxo_of W (stored_utxo_of W u) = Ok u"
  by (simp add: tracked_utxo_of_def stored_utxo_of_def hash_from_hex_def hex_law_def utxo_sized_def)

section \<open>A save is atomic\<close>

definition snapshot_law :: "('z, 'd) snapshot_codec \<Rightarrow> bool" where
  "snapshot_law C \<longleftrightarrow> hex_law (sc_host C) \<and>
     (\<forall>z b. sc_zswap_to C z = Some b \<longrightarrow> sc_zswap_from C b = Some z) \<and>
     (\<forall>w b. sc_dust_to C w = Some b \<longrightarrow> sc_dust_from C b = Some w) \<and>
     (\<forall>m text. sc_metadata_to C m = Some text \<longrightarrow> sc_metadata_from C text = Some m)"

text \<open>What a wallet that loads from the directory finds, when its own file operations succeed.\<close>

definition on_disk :: "('z, 'd) snapshot_codec \<Rightarrow> wallet_dir \<Rightarrow> (wallet_error, ('z, 'd) wallet_snapshot option) res" where
  "on_disk C d = fst (load C (d\<lparr>wd_faults := []\<rparr>))"

lemmas dir_ops = read_json_def disk_op_def disk_fails_def tagged_from_file_def

lemma on_disk_eq:
  "on_disk C d =
    (case wd_metadata d of None \<Rightarrow> Ok None
     | Some text \<Rightarrow>
        rbind (ok_or (Storage ''parse'') (sc_metadata_from C text)) (\<lambda>m.
        rbind (expect_ledger (sc_ledger C) (md_ledger m)) (\<lambda>_.
        rbind (ok_or (Storage ''read'') (wd_zswap d (md_generation m))) (\<lambda>zb.
        rbind (ok_or (Storage ''deserialize'') (sc_zswap_from C zb)) (\<lambda>z.
        rbind (ok_or (Storage ''read'') (wd_dust d (md_generation m))) (\<lambda>wb.
        rbind (ok_or (Storage ''deserialize'') (sc_dust_from C wb)) (\<lambda>w.
        rbind (traverse (tracked_utxo_of (sc_host C)) (md_utxos m)) (\<lambda>utxos.
        Ok (Some \<lparr>sn_zswap_state = z, sn_dust_wallet = w, sn_zswap_event_id = md_zswap_event_id m,
           sn_dust_event_id = md_dust_event_id m, sn_last_block_height = md_last_block_height m,
           sn_last_tx_id = md_last_tx_id m, sn_chain_pin = md_chain_pin m, sn_utxos = utxos\<rparr>)))))))))"
  by (simp add: on_disk_def load_def read_metadata_def dir_ops sbind_apply sm_simps expect_ledger_def
      split: option.split res.split)

lemma on_disk_cong:
  assumes "wd_metadata d' = wd_metadata d"
    "\<And>text m. wd_metadata d = Some text \<Longrightarrow> sc_metadata_from C text = Some m \<Longrightarrow>
       wd_zswap d' (md_generation m) = wd_zswap d (md_generation m) \<and>
       wd_dust d' (md_generation m) = wd_dust d (md_generation m)"
  shows "on_disk C d' = on_disk C d"
proof (cases "wd_metadata d")
  case (Some json)
  with assms show ?thesis by (cases "sc_metadata_from C json") (simp_all add: on_disk_eq)
qed (simp add: on_disk_eq assms(1))

text \<open>The same files, whatever file operations are still to fail.\<close>

definition same_files :: "wallet_dir \<Rightarrow> wallet_dir \<Rightarrow> bool" where
  "same_files d d' \<longleftrightarrow> d'\<lparr>wd_faults := []\<rparr> = d\<lparr>wd_faults := []\<rparr>"

lemma same_files_simps: "same_files d d' \<Longrightarrow> wd_metadata d' = wd_metadata d" "same_files d d' \<Longrightarrow> wd_zswap d' = wd_zswap d"
  "same_files d d' \<Longrightarrow> wd_dust d' = wd_dust d" "same_files d d' \<Longrightarrow> wd_pending d' = wd_pending d"
  by (metis same_files_def wallet_dir.ext_inject wallet_dir.surjective wallet_dir.update_convs(5))+

lemma same_files_iff:
  "same_files d d' \<longleftrightarrow> wd_metadata d' = wd_metadata d \<and> wd_zswap d' = wd_zswap d \<and> wd_dust d' = wd_dust d \<and>
     wd_pending d' = wd_pending d"
  by (auto simp: same_files_simps) (simp add: same_files_def)

lemma wp_disk_fails: "(\<And>f fs. Q (Ok f) (d\<lparr>wd_faults := fs\<rparr>)) \<Longrightarrow> wp disk_fails Q d"
proof -
  assume any: "\<And>f fs. Q (Ok f) (d\<lparr>wd_faults := fs\<rparr>)"
  have "Q (Ok False) d" using any [of False "wd_faults d"] by simp
  with any show ?thesis by (cases "wd_faults d") (simp_all add: wp_def disk_fails_def)
qed

lemma wp_disk_op:
  "(\<And>fs. Q (Ok ()) (d\<lparr>wd_faults := fs\<rparr>)) \<Longrightarrow> (\<And>fs. Q (Err (Storage what)) (d\<lparr>wd_faults := fs\<rparr>)) \<Longrightarrow>
   wp (disk_op what) Q d"
  unfolding disk_op_def wp_sbind by (rule wp_disk_fails) simp

lemma wp_wallet_write:
  assumes "\<And>e fs. Q (Err e) (d\<lparr>wd_faults := fs\<rparr>)"
    "\<And>r fs fs'. Q r ((put (d\<lparr>wd_faults := fs\<rparr>))\<lparr>wd_faults := fs'\<rparr>)"
  shows "wp (wallet_write put) Q d"
  unfolding wallet_write_def wp_sbind
  by (rule wp_disk_op; simp add: assms; rule wp_disk_op; simp add: assms; rule wp_disk_op; simp add: assms)

text \<open>What the steps of a save may change.\<close>

definition only_at :: "u64 \<Rightarrow> wallet_dir \<Rightarrow> wallet_dir \<Rightarrow> bool" where
  "only_at g d d' \<longleftrightarrow> wd_metadata d' = wd_metadata d \<and> wd_pending d' = wd_pending d \<and>
     (\<forall>h. h \<noteq> g \<longrightarrow> wd_zswap d' h = wd_zswap d h \<and> wd_dust d' h = wd_dust d h)"

lemma only_at_simps [simp]:
  "only_at g d (d'\<lparr>wd_faults := fs\<rparr>) = only_at g d d'" "only_at g d (put_zswap g b d') = only_at g d d'"
  "only_at g d (put_dust g b d') = only_at g d d'" "only_at g d d"
  "only_at g d (d'\<lparr>wd_zswap := (wd_zswap d')(g := x)\<rparr>) = only_at g d d'"
  "only_at g d (d'\<lparr>wd_dust := (wd_dust d')(g := y)\<rparr>) = only_at g d d'"
  by (auto simp: only_at_def put_zswap_def put_dust_def)

lemma put_simps [simp]:
  "wd_zswap (put_zswap g b d) = (wd_zswap d)(g \<mapsto> b)" "wd_dust (put_zswap g b d) = wd_dust d"
  "wd_zswap (put_dust g b d) = wd_zswap d" "wd_dust (put_dust g b d) = (wd_dust d)(g \<mapsto> b)"
  by (simp_all add: put_zswap_def put_dust_def)

definition state_written :: "('z, 'd) snapshot_codec \<Rightarrow> 'z \<Rightarrow> 'd \<Rightarrow> u64 \<Rightarrow> wallet_dir \<Rightarrow> bool" where
  "state_written C z w g d \<longleftrightarrow> wd_zswap d g = sc_zswap_to C z \<and> sc_zswap_to C z \<noteq> None \<and>
     wd_dust d g = sc_dust_to C w \<and> sc_dust_to C w \<noteq> None"

lemma wp_write_state:
  "wp (write_state C z w g) (\<lambda>r d'. only_at g d d' \<and> (r = Ok () \<longrightarrow> state_written C z w g d')) d"
proof -
  have dust: "wp (tagged_to_file (put_dust g) (sc_dust_to C) w)
      (\<lambda>r d'. only_at g d d' \<and> (r = Ok () \<longrightarrow> state_written C z w g d')) d1"
    if "only_at g d d1" "wd_zswap d1 g = sc_zswap_to C z" "sc_zswap_to C z \<noteq> None" for d1
    unfolding tagged_to_file_def wp_sbind
    by (cases "sc_dust_to C w") (use that in \<open>auto intro!: wp_wallet_write simp: state_written_def\<close>)
  show ?thesis
    unfolding write_state_def wp_sbind
    unfolding tagged_to_file_def [of "put_zswap g"] wp_sbind
    by (cases "sc_zswap_to C z")
      (auto intro!: wp_wallet_write dust split: res.split)
qed

lemma wp_try_remove:
  assumes "\<And>fs. Q (Ok ()) (d\<lparr>wd_faults := fs\<rparr>)" "\<And>fs. Q (Ok ()) (del (d\<lparr>wd_faults := fs\<rparr>))"
  shows "wp (try_remove del) Q d"
  unfolding try_remove_def wp_sbind by (rule wp_disk_fails) (simp add: assms)

lemma wp_remove_state: "wp (remove_state g) (\<lambda>r d'. r = Ok () \<and> only_at g d d') d"
  unfolding remove_state_def wp_sbind
  by (intro wp_try_remove; simp; intro wp_try_remove; simp add: only_at_def)

lemma wp_commit_metadata:
  "wp (commit_metadata C m) (\<lambda>r d'. r \<noteq> Ok () \<and> same_files d d' \<or>
     (\<exists>text. sc_metadata_to C m = Some text \<and> same_files (put_metadata text d) d')) d"
  unfolding commit_metadata_def wp_sbind
  by (cases "sc_metadata_to C m")
    (auto intro!: wp_wallet_write simp: same_files_iff put_metadata_def)

text \<open>The metadata can be read: no fault hits the look at it, nor its read.\<close>

definition metadata_readable :: "wallet_dir \<Rightarrow> bool" where
  "metadata_readable d \<longleftrightarrow> \<not> list_ex id (take 2 (drop 1 (wd_faults d)))"

definition live_generation :: "('z, 'd) snapshot_codec \<Rightarrow> wallet_dir \<Rightarrow> u64 option" where
  "live_generation C d = map_option md_generation (Option.bind (wd_metadata d) (sc_metadata_from C))"

lemma previous_generation_read:
  assumes "\<not> list_ex id (take 2 (wd_faults d))"
  shows "\<exists>d'. previous_generation C d = (Ok (live_generation C d), d') \<and> same_files d d'"
  using assms
  by (cases "wd_faults d"; cases "tl (wd_faults d)"; cases "wd_metadata d"; cases "sc_metadata_from C (the (wd_metadata d))")
    (auto simp: previous_generation_def read_metadata_def live_generation_def dir_ops sbind_apply sm_simps same_files_iff)

lemma next_generation_differs: "next_generation (Some g) = Ok g' \<Longrightarrow> g' \<noteq> g"
  by (auto simp: next_generation_def split: if_splits)

text \<open>Files of a generation that the metadata does not name do not matter.\<close>

lemma on_disk_only_at:
  assumes "only_at g d d'" "live_generation C d \<noteq> Some g"
  shows "on_disk C d' = on_disk C d"
  using assms by (intro on_disk_cong) (auto simp: only_at_def live_generation_def)

lemma on_disk_same_files: "same_files d d' \<Longrightarrow> on_disk C d' = on_disk C d"
  by (rule on_disk_cong) (simp_all add: same_files_iff)

definition saved_utxos :: "('z, 'd) wallet_snapshot \<Rightarrow> bool" where
  "saved_utxos s \<longleftrightarrow> list_all utxo_sized (sn_utxos s)"

lemma on_disk_committed:
  assumes "snapshot_law C" "saved_utxos s" "state_written C (sn_zswap_state s) (sn_dust_wallet s) g d"
    "wd_metadata d = sc_metadata_to C ((metadata_of C s)\<lparr>md_generation := g\<rparr>)" "wd_metadata d \<noteq> None"
  shows "on_disk C d = Ok (Some s)" "live_generation C d = Some g"
proof -
  let ?m = "(metadata_of C s)\<lparr>md_generation := g\<rparr>"
  obtain js where js: "wd_metadata d = Some js" and to: "sc_metadata_to C ?m = Some js"
    using assms(4,5) by auto
  have parsed: "sc_metadata_from C js = Some ?m" using assms(1) to unfolding snapshot_law_def by blast
  have utxos: "traverse (tracked_utxo_of (sc_host C)) (map (stored_utxo_of (sc_host C)) (sn_utxos s)) = Ok (sn_utxos s)"
    using assms(1,2) traverse_ok_fun [where g = "\<lambda>u. u" and f = "tracked_utxo_of (sc_host C) \<circ> stored_utxo_of (sc_host C)"]
    by (simp add: traverse_map snapshot_law_def saved_utxos_def list_all_iff stored_utxo_back)
  obtain zb wb where "wd_zswap d g = Some zb" "sc_zswap_from C zb = Some (sn_zswap_state s)"
    "wd_dust d g = Some wb" "sc_dust_from C wb = Some (sn_dust_wallet s)"
    using assms(1,3) unfolding snapshot_law_def state_written_def by fastforce
  then show "on_disk C d = Ok (Some s)"
    using js parsed utxos by (simp add: on_disk_eq metadata_of_def expect_ledger_def)
  show "live_generation C d = Some g" using js parsed by (simp add: live_generation_def)
qed

lemma save_atomic:
  assumes law: "snapshot_law C" "saved_utxos s" and readable: "metadata_readable d" and run: "save C s d = (r, d')"
  shows "r = Ok () \<and> on_disk C d' = Ok (Some s) \<or>
    r \<noteq> Ok () \<and> (on_disk C d' = on_disk C d \<or> on_disk C d' = Ok (Some s))"
proof -
  let ?Q = "\<lambda>r d'. r = Ok () \<and> on_disk C d' = Ok (Some s) \<or>
    r \<noteq> Ok () \<and> (on_disk C d' = on_disk C d \<or> on_disk C d' = Ok (Some s))"
  let ?z = "sn_zswap_state s" and ?w = "sn_dust_wallet s"
  have cleanup: "wp (case live_generation C d of None \<Rightarrow> sret () | Some p \<Rightarrow> remove_state p) ?Q d4"
    if "on_disk C d4 = Ok (Some s)" "live_generation C d4 = Some g" "next_generation (live_generation C d) = Ok g" for d4 g
  proof (cases "live_generation C d")
    case (Some p)
    have "p \<noteq> g" using next_generation_differs that(3) Some by metis
    then have "only_at p d4 d5 \<Longrightarrow> on_disk C d5 = Ok (Some s)" for d5
      using that on_disk_only_at [of p d4 d5 C] by simp
    then show ?thesis unfolding Some by (auto intro!: wp_mono [OF wp_remove_state])
  qed (use that in \<open>simp add: sm_simps wp_def\<close>)
  have rest: "wp (sbind (slift (next_generation (live_generation C d))) (\<lambda>g.
     sbind (write_state C ?z ?w g) (\<lambda>_.
     sbind (commit_metadata C ((metadata_of C s)\<lparr>md_generation := g\<rparr>)) (\<lambda>_.
     case live_generation C d of None \<Rightarrow> sret () | Some p \<Rightarrow> remove_state p)))) ?Q d2"
    if same: "same_files d d2" for d2
  proof (cases "next_generation (live_generation C d)")
    case (Ok g)
    have old: "on_disk C d3 = on_disk C d" if "only_at g d2 d3" for d3
    proof -
      have "live_generation C d2 = live_generation C d" using same by (simp add: live_generation_def same_files_iff)
      then have "live_generation C d2 \<noteq> Some g" using next_generation_differs Ok by metis
      with that same show ?thesis by (metis on_disk_only_at on_disk_same_files)
    qed
    have new: "wp (sbind (commit_metadata C ((metadata_of C s)\<lparr>md_generation := g\<rparr>)) (\<lambda>_.
        case live_generation C d of None \<Rightarrow> sret () | Some p \<Rightarrow> remove_state p)) ?Q d3"
      if d3: "only_at g d2 d3" "state_written C ?z ?w g d3" for d3
      unfolding wp_sbind
    proof (rule wp_mono [OF wp_commit_metadata], goal_cases)
      case (1 r d4)
      then consider "r \<noteq> Ok ()" "same_files d3 d4" | json where
        "sc_metadata_to C ((metadata_of C s)\<lparr>md_generation := g\<rparr>) = Some json" "same_files (put_metadata json d3) d4" by blast
      then show ?case
      proof cases
        case 1
        then have "on_disk C d4 = on_disk C d" using on_disk_same_files old d3(1) by metis
        with 1 show ?thesis by (cases r) simp_all
      next
        case 2
        then have "wd_metadata d4 = Some json" "state_written C ?z ?w g d4"
          using d3(2) by (simp_all add: same_files_iff put_metadata_def state_written_def)
        with 2(1) law have "on_disk C d4 = Ok (Some s)" "live_generation C d4 = Some g"
          by (simp_all add: on_disk_committed)
        with cleanup Ok show ?thesis by (cases r) simp_all
      qed
    qed
    show ?thesis unfolding Ok wp_sbind wp_basics res.case
    proof (rule wp_mono [OF wp_write_state], goal_cases)
      case (1 r d3)
      with old new show ?case unfolding wp_sbind by (cases r) auto
    qed
  qed (use that on_disk_same_files in \<open>auto simp: wp_def sbind_apply sm_simps\<close>)
  have "wp (save C s) ?Q d"
  proof (cases "wd_faults d")
    case Nil
    obtain d2 where "previous_generation C d = (Ok (live_generation C d), d2)" "same_files d d2"
      using previous_generation_read [of d C] Nil by auto
    with rest show ?thesis
      by (simp add: save_def save_snapshot_def create_wallet_dir_def wp_def sbind_apply dir_ops sm_simps Nil)
  next
    case (Cons f fs)
    let ?d1 = "d\<lparr>wd_faults := fs\<rparr>"
    have same1: "same_files d ?d1" by (simp add: same_files_iff)
    have lg: "live_generation C ?d1 = live_generation C d" by (simp add: live_generation_def)
    obtain d2 where "previous_generation C ?d1 = (Ok (live_generation C d), d2)" "same_files ?d1 d2"
      using previous_generation_read [of ?d1 C] readable Cons lg by (auto simp: metadata_readable_def)
    moreover from this same1 have "same_files d d2" by (simp add: same_files_iff)
    ultimately show ?thesis using rest same1 on_disk_same_files [OF same1, of C]
      by (cases f) (simp_all add: save_def save_snapshot_def create_wallet_dir_def wp_def sbind_apply dir_ops sm_simps Cons)
  qed
  then show ?thesis using run by (simp add: wp_def)
qed

text \<open>
  C0: whatever file operations fail, and wherever the save stops: a load that follows finds the
  snapshot that was there, or the whole new one, and after a save that succeeded the new one.
  The look at the old metadata is exempt from failing.
\<close>

theorem snapshot_save_atomic:
  assumes "snapshot_law C" "saved_utxos s" "metadata_readable d" "save C s d = (r, d')"
  shows "r = Ok () \<and> on_disk C d' = Ok (Some s) \<or>
    r \<noteq> Ok () \<and> (on_disk C d' = on_disk C d \<or> on_disk C d' = Ok (Some s))"
  using save_atomic [OF assms] .

section \<open>Reservations on disk\<close>

definition pending_on_disk :: "('z, 'd) snapshot_codec \<Rightarrow> wallet_dir \<Rightarrow> (wallet_error, stored_pending option) res" where
  "pending_on_disk C d = fst (load_pending C (d\<lparr>wd_faults := []\<rparr>))"

lemma pending_on_disk_eq:
  "pending_on_disk C d = (case wd_pending d of None \<Rightarrow> Ok None
     | Some js \<Rightarrow> rmap Some (ok_or (Storage ''parse'') (sc_pending_from C js)))"
  by (simp add: pending_on_disk_def load_pending_def dir_ops sbind_apply sm_simps split: option.split)

lemma save_pending_atomic:
  assumes law: "\<And>js. sc_pending_to C p = Some js \<Longrightarrow> sc_pending_from C js = Some p" and run: "save_pending C p d = (r, d')"
  shows "(r = Ok () \<longrightarrow> pending_on_disk C d' = Ok (if stored_is_empty p then None else Some p)) \<and>
    (pending_on_disk C d' = pending_on_disk C d \<or> pending_on_disk C d' = Ok (if stored_is_empty p then None else Some p)) \<and>
    on_disk C d' = on_disk C d"
proof -
  have "wp (save_pending C p) (\<lambda>r d'. (r = Ok () \<longrightarrow> pending_on_disk C d' = Ok (if stored_is_empty p then None else Some p)) \<and>
    (pending_on_disk C d' = pending_on_disk C d \<or> pending_on_disk C d' = Ok (if stored_is_empty p then None else Some p)) \<and>
    on_disk C d' = on_disk C d) d"
    unfolding save_pending_def create_wallet_dir_def wp_sbind
    by (rule wp_disk_op; cases "stored_is_empty p"; cases "sc_pending_to C p")
      (auto intro!: wp_disk_op wp_wallet_write on_disk_cong simp: pending_on_disk_eq law)
  with run show ?thesis by (simp add: wp_def)
qed

section \<open>A save over another\<close>

definition sample_snapshot :: "i64 \<Rightarrow> (bytes, bytes) wallet_snapshot" where
  "sample_snapshot i =
     \<lparr>sn_zswap_state = [ucast i], sn_dust_wallet = [ucast i], sn_zswap_event_id = i, sn_dust_event_id = 5,
      sn_last_block_height = 6, sn_last_tx_id = None, sn_chain_pin = None, sn_utxos = [sample_utxo]\<rparr>"

definition sample_metadata :: "u64 \<Rightarrow> i64 \<Rightarrow> stored_metadata" where
  "sample_metadata g i =
     \<lparr>md_generation = g, md_ledger = V9, md_zswap_event_id = i, md_dust_event_id = 5, md_last_block_height = 6,
      md_last_tx_id = None, md_chain_pin = None, md_utxos = [stored_utxo_of sample_wallet_host sample_utxo]\<rparr>"

text \<open>A JSON that spells the number and the event id of the samples.\<close>

definition sample_snapshot_codec :: "(bytes, bytes) snapshot_codec" where
  "sample_snapshot_codec =
     \<lparr>sc_host = sample_wallet_host, sc_ledger = V9, sc_zswap_to = Some, sc_zswap_from = Some, sc_dust_to = Some,
      sc_dust_from = Some,
      sc_metadata_to = (\<lambda>m. if m = sample_metadata (md_generation m) (md_zswap_event_id m)
        then Some (replicate (unat (md_generation m)) CHR ''g'' @ CHR '','' # replicate (unat (md_zswap_event_id m)) CHR ''i'')
        else None),
      sc_metadata_from = (\<lambda>js. Some (sample_metadata
        (of_nat (length (takeWhile (\<lambda>c. c \<noteq> CHR '','') js))) (of_nat (length (dropWhile (\<lambda>c. c \<noteq> CHR '','') js) - 1)))),
      sc_pending_to = (\<lambda>p. None), sc_pending_from = (\<lambda>js. None)\<rparr>"

definition sample_dir :: wallet_dir where
  "sample_dir =
     \<lparr>wd_metadata = Some ''g,i'', wd_zswap = [1 \<mapsto> [1]], wd_dust = [1 \<mapsto> [1]], wd_pending = None, wd_faults = []\<rparr>"

lemma takeWhile_spelled: "takeWhile (\<lambda>c. c \<noteq> CHR '','') (replicate n CHR ''g'' @ CHR '','' # xs) = replicate n CHR ''g''"
  by (induction n) simp_all

lemma dropWhile_spelled: "dropWhile (\<lambda>c. c \<noteq> CHR '','') (replicate n CHR ''g'' @ CHR '','' # xs) = CHR '','' # xs"
  by (induction n) simp_all

lemma sample_snapshot_law: "snapshot_law sample_snapshot_codec"
  using sample_hex_law
  by (auto simp: snapshot_law_def sample_snapshot_codec_def takeWhile_spelled dropWhile_spelled split: if_splits)

lemma sample_saved: "saved_utxos (sample_snapshot i)"
  by (simp add: saved_utxos_def sample_snapshot_def utxo_sized_def sample_utxo_def)

lemma sample_metadata_of: "metadata_of sample_snapshot_codec (sample_snapshot i) = sample_metadata 0 i"
  by (simp add: metadata_of_def sample_snapshot_def sample_metadata_def sample_snapshot_codec_def)

lemma sample_metadata_generation [simp]: "(sample_metadata g i)\<lparr>md_generation := h\<rparr> = sample_metadata h i"
  "md_generation (sample_metadata g i) = g" "md_zswap_event_id (sample_metadata g i) = i"
  by (simp_all add: sample_metadata_def)

lemma sample_dir_holds: "on_disk sample_snapshot_codec sample_dir = Ok (Some (sample_snapshot 1))"
  using stored_utxo_back [OF sample_hex_law, of sample_utxo]
  by (simp add: on_disk_eq sample_dir_def sample_snapshot_codec_def sample_metadata_def expect_ledger_def sample_snapshot_def
      utxo_sized_def sample_utxo_def)

lemmas save_unfold = save_def save_snapshot_def create_wallet_dir_def previous_generation_def read_metadata_def dir_ops
  next_generation_def write_state_def tagged_to_file_def wallet_write_def commit_metadata_def remove_state_def
  try_remove_def put_zswap_def put_dust_def put_metadata_def sbind_apply sm_simps

lemma sample_save:
  "save sample_snapshot_codec (sample_snapshot 2) sample_dir =
     (Ok (), \<lparr>wd_metadata = Some ''gg,ii'', wd_zswap = [2 \<mapsto> [2]], wd_dust = [2 \<mapsto> [2]], wd_pending = None, wd_faults = []\<rparr>)"
proof -
  have two: "replicate 2 c = [c, c]" for c :: char by (simp add: numeral_2_eq_2)
  show ?thesis
    unfolding save_def sample_metadata_of
    by (simp add: save_unfold sample_dir_def del: sbind_Ok_iff)
      (simp add: sample_snapshot_codec_def sample_snapshot_def save_unfold fun_eq_iff two del: sbind_Ok_iff)
qed

theorem snapshot_save_atomic_witness:
  "on_disk sample_snapshot_codec (snd (save sample_snapshot_codec (sample_snapshot 2) sample_dir)) = Ok (Some (sample_snapshot 2))"
proof -
  have "metadata_readable sample_dir" by (simp add: metadata_readable_def sample_dir_def)
  from snapshot_save_atomic [OF sample_snapshot_law sample_saved this sample_save]
  show ?thesis by (simp add: sample_save)
qed

text \<open>
  A fault at the look at the old metadata counts as no snapshot: the save then starts again at
  the first number, which can be the live one, and a second fault leaves the old metadata over
  the new shielded state.
\<close>

theorem swallowed_read_mixes_snapshots:
  "on_disk sample_snapshot_codec (snd (save sample_snapshot_codec (sample_snapshot 2)
      (sample_dir\<lparr>wd_faults := [False, True, False, False, False, True]\<rparr>))) =
    Ok (Some ((sample_snapshot 1)\<lparr>sn_zswap_state := [2]\<rparr>))"
proof -
  have "snd (save sample_snapshot_codec (sample_snapshot 2)
      (sample_dir\<lparr>wd_faults := [False, True, False, False, False, True]\<rparr>)) = sample_dir\<lparr>wd_zswap := [1 \<mapsto> [2]]\<rparr>"
    by (simp add: save_unfold sample_dir_def) (simp add: sample_snapshot_codec_def sample_snapshot_def save_unfold)
  then show ?thesis
    using stored_utxo_back [OF sample_hex_law, of sample_utxo]
    by (simp add: on_disk_eq sample_dir_def sample_snapshot_codec_def sample_metadata_def expect_ledger_def sample_snapshot_def
      utxo_sized_def sample_utxo_def)
qed

end
