(* ===== verification/WalletBatch.thy ===== *)
theory WalletBatch
  imports WalletStore
begin

text \<open>
  What a wallet does with the events of a replay, \<^verbatim>\<open>replay_zswap_events\<close> and
  \<^verbatim>\<open>replay_dust_events\<close> of \<^verbatim>\<open>crates/midnight-wallet/src/per_ledger/state.rs\<close>: it decodes them,
  gathers them in batches and hands each batch to the ledger. The ledger's own replay of a list of
  events is a parameter.
\<close>

section \<open>The events of a generation\<close>

text \<open>\<^verbatim>\<open>EventDetails\<close>: the details that the wallet reads.\<close>

datatype event_details =
    DustInitialUtxo timestamp
  | DustSpendProcessed timestamp nullifier
  | DustGenerationDtimeUpdate timestamp
  | OtherDetails

record ('e, 'z, 'd) ledger_api =
  la_ledger :: ledger_version
  la_decode :: "bytes \<Rightarrow> 'e option"
  la_details :: "'e \<Rightarrow> event_details"
  la_replay_zswap :: "'z \<Rightarrow> 'e list \<Rightarrow> 'z option"
  la_replay_dust :: "'d \<Rightarrow> 'e list \<Rightarrow> 'd option"

definition decode_event :: "('e, 'z, 'd) ledger_api \<Rightarrow> bytes \<Rightarrow> (wallet_error, 'e) res" where
  "decode_event L raw = ok_or (Sync ''deserialize event'') (la_decode L raw)"

fun event_block_time :: "event_details \<Rightarrow> timestamp option" where
  "event_block_time (DustInitialUtxo t) = Some t"
| "event_block_time (DustSpendProcessed t n) = Some t"
| "event_block_time (DustGenerationDtimeUpdate t) = Some t"
| "event_block_time OtherDetails = None"

fun event_spend_nullifier :: "event_details \<Rightarrow> nullifier option" where
  "event_spend_nullifier (DustSpendProcessed t n) = Some n"
| "event_spend_nullifier other = None"

section \<open>Batches\<close>

definition replay_batch_size :: nat where
  "replay_batch_size = 1000"

definition dust_checkpoint_interval :: nat where
  "dust_checkpoint_interval = 50000"

record 'e replay_batch =
  rb_events :: "'e list"
  rb_first :: i64
  rb_last :: i64

definition batch_new :: "'e replay_batch" where
  "batch_new = \<lparr>rb_events = [], rb_first = 0, rb_last = 0\<rparr>"

definition batch_push :: "i64 \<Rightarrow> 'e \<Rightarrow> 'e replay_batch \<Rightarrow> 'e replay_batch" where
  "batch_push i e b =
     \<lparr>rb_events = rb_events b @ [e], rb_first = (if rb_events b = [] then i else rb_first b), rb_last = i\<rparr>"

definition batch_is_full :: "'e replay_batch \<Rightarrow> bool" where
  "batch_is_full b \<longleftrightarrow> replay_batch_size \<le> length (rb_events b)"

definition batch_apply_dust ::
  "('e, 'z, 'd) ledger_api \<Rightarrow> 'e replay_batch \<Rightarrow> 'd \<Rightarrow> (wallet_error, 'e replay_batch \<times> 'd) res" where
  "batch_apply_dust L b w =
     (if rb_events b = [] then Ok (b, w)
      else rmap (\<lambda>w'. (b\<lparr>rb_events := []\<rparr>, w')) (ok_or (Sync ''apply dust events'') (la_replay_dust L w (rb_events b))))"

definition batch_apply_zswap ::
  "('e, 'z, 'd) ledger_api \<Rightarrow> 'e replay_batch \<Rightarrow> 'z \<Rightarrow> (wallet_error, 'e replay_batch \<times> 'z option) res" where
  "batch_apply_zswap L b z =
     (if rb_events b = [] then Ok (b, None)
      else rmap (\<lambda>z'. (b\<lparr>rb_events := []\<rparr>, Some z')) (ok_or (Sync ''replay zswap events'') (la_replay_zswap L z (rb_events b))))"

section \<open>The shielded replay\<close>

record 'z zswap_replay =
  zr_state :: 'z
  zr_last_id :: i64
  zr_later :: "(i64 \<times> ledger_version) option"

text \<open>A state with the waiting events applied, if there were any.\<close>

definition zswap_flush ::
  "('e, 'z, 'd) ledger_api \<Rightarrow> 'z \<times> 'e replay_batch \<Rightarrow> (wallet_error, 'z \<times> 'e replay_batch) res" where
  "zswap_flush L st =
     (case st of (z, b) \<Rightarrow> rmap (\<lambda>(b', applied). (case applied of None \<Rightarrow> z | Some z' \<Rightarrow> z', b')) (batch_apply_zswap L b z))"

definition zswap_apply ::
  "('e, 'z, 'd) ledger_api \<Rightarrow> i64 \<Rightarrow> bytes \<Rightarrow> ledger_version \<Rightarrow> 'z \<times> 'e replay_batch \<Rightarrow>
   (wallet_error, 'z \<times> 'e replay_batch) res" where
  "zswap_apply L i raw v st =
     rbind (expect_ledger (la_ledger L) v) (\<lambda>_.
     rbind (decode_event L raw) (\<lambda>e.
     case st of (z, b) \<Rightarrow>
       let b' = batch_push i e b in
       if batch_is_full b' then zswap_flush L (z, b') else Ok (z, b')))"

text \<open>The arguments that both replays of a wallet share.\<close>

record replay_source =
  rs_host :: wallet_host
  rs_start :: i64
  rs_resuming :: bool
  rs_sender :: bool

definition source_args ::
  "replay_source \<Rightarrow> ledger_stream \<Rightarrow> ledger_version \<Rightarrow>
   (i64 \<Rightarrow> bytes \<Rightarrow> ledger_version \<Rightarrow> 'a \<Rightarrow> (wallet_error, 'a) res) \<Rightarrow> 'a replay_args" where
  "source_args S stream v f =
     \<lparr>ra_host = rs_host S, ra_stream = stream, ra_ledger = v, ra_start = rs_start S, ra_resuming = rs_resuming S,
      ra_sender = rs_sender S, ra_apply = f\<rparr>"

definition replay_zswap_events ::
  "('e, 'z, 'd) ledger_api \<Rightarrow> replay_source \<Rightarrow> ledger_msg indexer \<Rightarrow> 'z \<Rightarrow> (wallet_error, 'z zswap_replay) res" where
  "replay_zswap_events L S server z =
     rbind (fst (replay_ledger_events (source_args S ZswapStream (la_ledger L) (zswap_apply L)) server (z, batch_new))) (\<lambda>r.
     rbind (zswap_flush L (le_acc r)) (\<lambda>(z', b).
     Ok \<lparr>zr_state = z', zr_last_id = le_last_id r, zr_later = le_later r\<rparr>))"

section \<open>The Dust replay\<close>

text \<open>
  What the closure of the Dust replay captures. \<open>ds_saved\<close> lists the calls of the checkpoint,
  whose own errors are logged and ignored.
\<close>

record ('e, 'd) dust_state =
  dt_wallet :: 'd
  dt_last_time :: "timestamp option"
  dt_nullifiers :: "nullifier list"
  dt_consumed :: nat
  dt_batch :: "'e replay_batch"
  dt_saved :: "('d \<times> i64) list"

record 'd dust_replay =
  dy_wallet :: 'd
  dy_last_id :: i64
  dy_last_block_time :: "timestamp option"
  dy_spend_nullifiers :: "nullifier list"
  dy_later :: "(i64 \<times> ledger_version) option"
  dy_saved :: "('d \<times> i64) list"

definition dust_flush ::
  "('e, 'z, 'd) ledger_api \<Rightarrow> ('e, 'd) dust_state \<Rightarrow> (wallet_error, ('e, 'd) dust_state) res" where
  "dust_flush L st = rmap (\<lambda>(b, w). st\<lparr>dt_wallet := w, dt_batch := b\<rparr>) (batch_apply_dust L (dt_batch st) (dt_wallet st))"

text \<open>An event of the wallet's own generation: its facts are noted and it joins the batch.\<close>

definition dust_note ::
  "('e, 'z, 'd) ledger_api \<Rightarrow> i64 \<Rightarrow> 'e \<Rightarrow> ('e, 'd) dust_state \<Rightarrow> ('e, 'd) dust_state" where
  "dust_note L i e st =
     st\<lparr>dt_last_time := (case event_block_time (la_details L e) of Some t \<Rightarrow> Some t | None \<Rightarrow> dt_last_time st),
        dt_nullifiers := (case event_spend_nullifier (la_details L e) of
          Some n \<Rightarrow> dt_nullifiers st @ [n] | None \<Rightarrow> dt_nullifiers st),
        dt_batch := batch_push i e (dt_batch st)\<rparr>"

definition dust_take ::
  "('e, 'z, 'd) ledger_api \<Rightarrow> i64 \<Rightarrow> bytes \<Rightarrow> ledger_version \<Rightarrow> ('e, 'd) dust_state \<Rightarrow>
   (wallet_error, ('e, 'd) dust_state) res" where
  "dust_take L i raw v st =
     (if v = la_ledger L then
        rbind (decode_event L raw) (\<lambda>e.
        let st' = dust_note L i e st in
        if batch_is_full (dt_batch st') then dust_flush L st' else Ok st')
      else Ok st)"

text \<open>\<open>every\<close> is the number of events between checkpoints, or none without a checkpoint.\<close>

definition dust_apply ::
  "('e, 'z, 'd) ledger_api \<Rightarrow> nat option \<Rightarrow> i64 \<Rightarrow> bytes \<Rightarrow> ledger_version \<Rightarrow> ('e, 'd) dust_state \<Rightarrow>
   (wallet_error, ('e, 'd) dust_state) res" where
  "dust_apply L every i raw v st =
     rbind (dust_take L i raw v st) (\<lambda>taken.
     let st' = taken\<lparr>dt_consumed := dt_consumed taken + 1\<rparr> in
     case every of
       Some n \<Rightarrow> if n dvd dt_consumed st'
         then rmap (\<lambda>s. s\<lparr>dt_saved := dt_saved s @ [(dt_wallet s, i)]\<rparr>) (dust_flush L st') else Ok st'
     | None \<Rightarrow> Ok st')"

definition dust_init :: "'d \<Rightarrow> ('e, 'd) dust_state" where
  "dust_init w =
     \<lparr>dt_wallet = w, dt_last_time = None, dt_nullifiers = [], dt_consumed = 0, dt_batch = batch_new, dt_saved = []\<rparr>"

definition replay_dust_events ::
  "('e, 'z, 'd) ledger_api \<Rightarrow> replay_source \<Rightarrow> nat option \<Rightarrow> ledger_msg indexer \<Rightarrow> 'd \<Rightarrow> (wallet_error, 'd dust_replay) res" where
  "replay_dust_events L S every server w =
     rbind (fst (replay_ledger_events (source_args S DustStream (la_ledger L) (dust_apply L every)) server (dust_init w))) (\<lambda>r.
     rbind (dust_flush L (le_acc r)) (\<lambda>st.
     Ok \<lparr>dy_wallet = dt_wallet st, dy_last_id = le_last_id r, dy_last_block_time = dt_last_time st,
         dy_spend_nullifiers = dt_nullifiers st, dy_later = le_later r, dy_saved = dt_saved st\<rparr>))"

section \<open>A replay is its events\<close>

text \<open>The replay that only lists the events it is given to apply.\<close>

definition collecting :: "'a replay_args \<Rightarrow> ledger_event list replay_args" where
  "collecting A =
     \<lparr>ra_host = ra_host A, ra_stream = ra_stream A, ra_ledger = ra_ledger A, ra_start = ra_start A,
      ra_resuming = ra_resuming A, ra_sender = ra_sender A, ra_apply = (\<lambda>i raw v es. Ok (es @ [(i, raw, v)]))\<rparr>"

definition with_acc :: "'b \<Rightarrow> 'a replay_state \<Rightarrow> 'b replay_state" where
  "with_acc b st =
     \<lparr>lr_last_id = lr_last_id st, lr_count = lr_count st, lr_pacer = lr_pacer st, lr_retries = lr_retries st,
      lr_high = lr_high st, lr_acc = b, lr_sent = lr_sent st\<rparr>"

definition result_with :: "'b \<Rightarrow> 'a ledger_replay \<Rightarrow> 'b ledger_replay" where
  "result_with b r =
     \<lparr>le_last_id = le_last_id r, le_later = le_later r, le_acc = b, le_sent = le_sent r\<rparr>"

text \<open>An outcome that the application of some events comes before.\<close>

definition settled :: "(wallet_error, 'a) res \<Rightarrow> ('a \<Rightarrow> ('s, 'r) step_flow) \<Rightarrow> ('s, 'r) step_flow" where
  "settled c k = (case c of Ok a \<Rightarrow> k a | Err e \<Rightarrow> Inr (Err e) | Panic \<Rightarrow> Inr Panic | NoFuel \<Rightarrow> Inr NoFuel)"

definition settled_flow :: "(wallet_error, 'a) res \<Rightarrow> ('a \<Rightarrow> ('s, 'r) flow) \<Rightarrow> ('s, 'r) flow" where
  "settled_flow c k = (case c of Ok a \<Rightarrow> k a | Err e \<Rightarrow> Stop (Err e) | Panic \<Rightarrow> Stop Panic | NoFuel \<Rightarrow> Stop NoFuel)"

lemma with_acc_simps [simp]:
  "lr_last_id (with_acc b st) = lr_last_id st" "lr_count (with_acc b st) = lr_count st" "lr_pacer (with_acc b st) = lr_pacer st"
  "lr_retries (with_acc b st) = lr_retries st" "lr_high (with_acc b st) = lr_high st" "lr_acc (with_acc b st) = b"
  "lr_sent (with_acc b st) = lr_sent st"
  by (simp_all add: with_acc_def)

lemma collecting_simps [simp]:
  "ra_host (collecting A) = ra_host A" "ra_stream (collecting A) = ra_stream A" "ra_ledger (collecting A) = ra_ledger A"
  "ra_start (collecting A) = ra_start A" "ra_resuming (collecting A) = ra_resuming A" "ra_sender (collecting A) = ra_sender A"
  "ra_apply (collecting A) i raw v es = Ok (es @ [(i, raw, v)])"
  by (simp_all add: collecting_def)

lemma with_acc_updates:
  "(with_acc b st)\<lparr>lr_high := h\<rparr> = with_acc b (st\<lparr>lr_high := h\<rparr>)"
  "(with_acc b st)\<lparr>lr_retries := n\<rparr> = with_acc b (st\<lparr>lr_retries := n\<rparr>)"
  "(with_acc b st)\<lparr>lr_pacer := p\<rparr> = with_acc b (st\<lparr>lr_pacer := p\<rparr>)"
  "(with_acc b st)\<lparr>lr_sent := m\<rparr> = with_acc b (st\<lparr>lr_sent := m\<rparr>)"
  by (simp_all add: with_acc_def)

lemma with_acc_count: "count_event msg b (with_acc a st) = with_acc b (count_event msg c st)"
  by (simp add: with_acc_def count_event_def)

lemma count_event_acc [simp]: "lr_acc (count_event msg a st) = a"
  by (simp add: count_event_def)

lemma with_acc_report: "report A m (with_acc b st) = with_acc b (report (collecting A) m st)"
  by (simp add: report_def with_acc_updates)

lemma with_acc_results:
  "replay_result later (with_acc b st) = result_with b (replay_result later st)"
  "complete A (with_acc b st) = result_with b (complete (collecting A) st)"
  by (simp_all add: replay_result_def result_with_def complete_def with_acc_report)

lemma result_acc [simp]: "le_acc (replay_result later st) = lr_acc st" "le_acc (complete A st) = lr_acc st"
  by (simp_all add: replay_result_def complete_def report_def)

lemma report_acc [simp]: "lr_acc (report A m st) = lr_acc st"
  by (simp add: report_def)

text \<open>The outcomes of a step of two replays, of which one collects events.\<close>

definition step_factors ::
  "'a replay_args \<Rightarrow> 'a \<Rightarrow> ledger_event list \<Rightarrow> ledger_event list \<Rightarrow>
   (ledger_event list replay_state, ledger_event list ledger_replay) step_flow \<Rightarrow>
   ('a replay_state, 'a ledger_replay) step_flow \<Rightarrow> bool" where
  "step_factors A a old es out out' \<longleftrightarrow>
     (case out of
        Inl st \<Rightarrow> lr_acc st = old @ es \<and> out' = settled (consume A es a) (\<lambda>b. Inl (with_acc b st))
      | Inr q \<Rightarrow> (\<forall>r. q = Ok r \<longrightarrow> le_acc r = old @ es) \<and>
          out' = settled (consume A es a) (\<lambda>b. Inr (rmap (result_with b) q)))"

lemma after_event_factors:
  assumes "ra_apply A (lm_id msg) raw v a = c" "lr_acc st = old @ [(lm_id msg, raw, v)]"
  shows "step_factors A a old [(lm_id msg, raw, v)] (after_event (collecting A) msg now ch st)
     (settled c (\<lambda>b. after_event A msg now ch (with_acc b st)))"
  using assms
  by (cases c) (auto simp: step_factors_def settled_def after_event_def with_acc_updates with_acc_report with_acc_results Let_def
      split: prod.split)

lemma frame_factors:
  "\<exists>es. step_factors A a (lr_acc st) es (ledger_frame (collecting A) f st) (ledger_frame A f (with_acc a st))"
proof (cases f)
  case (Frame msg now ch)
  let ?st = "st\<lparr>lr_high := Some (lm_id msg)\<rparr>"
  have nothing: "step_factors A a (lr_acc st) [] (Inr (Ok r)) (Inr (Ok (result_with a r)))" if "le_acc r = lr_acc st" for r
    using that by (simp add: step_factors_def settled_def)
  have new: "\<exists>es. step_factors A a (lr_acc st) es (ledger_event (collecting A) msg now ch ?st)
      (ledger_event A msg now ch (with_acc a ?st))"
  proof (cases "event_bytes (ra_host A) msg")
    case (Ok raw)
    show ?thesis
    proof (cases "of_event (ra_host A) raw")
      case (Ok v)
      note raw = \<open>event_bytes (ra_host A) msg = Ok raw\<close>
      show ?thesis
      proof (cases "ra_ledger A < v")
        case True
        then show ?thesis using raw Ok
          by (intro exI [of _ "[]"])
            (simp add: ledger_event_def apply_event_def with_acc_results step_factors_def settled_def)
      next
        case False
        have "ledger_event A msg now ch (with_acc a ?st) =
            settled (ra_apply A (lm_id msg) raw v a) (\<lambda>b. after_event A msg now ch (with_acc b
              (count_event msg (lr_acc st @ [(lm_id msg, raw, v)]) ?st)))"
          using raw Ok False
          by (cases "ra_apply A (lm_id msg) raw v a")
            (simp_all add: ledger_event_def apply_event_def settled_def with_acc_count [where c = "lr_acc st @ [(lm_id msg, raw, v)]"])
        moreover have "ledger_event (collecting A) msg now ch ?st =
            after_event (collecting A) msg now ch (count_event msg (lr_acc st @ [(lm_id msg, raw, v)]) ?st)"
          using raw Ok False by (simp add: ledger_event_def apply_event_def)
        ultimately show ?thesis
          using after_event_factors [OF refl, where st = "count_event msg (lr_acc st @ [(lm_id msg, raw, v)]) ?st" and old = "lr_acc st" and msg = msg and raw = raw and v = v]
          by (intro exI [of _ "[(lm_id msg, raw, v)]"]) simp
      qed
    qed (use \<open>event_bytes (ra_host A) msg = Ok raw\<close> in
      \<open>auto simp: ledger_event_def apply_event_def step_factors_def settled_def intro!: exI [of _ "[]"]\<close>)
  qed (auto simp: ledger_event_def apply_event_def step_factors_def settled_def intro!: exI [of _ "[]"])
  show ?thesis
  proof (cases "order_regression (lm_id msg) (lr_high st)")
    case None
    note order = None
    consider "lm_max_id msg = 0" |
      "lm_max_id msg \<noteq> 0" "already_applied (lm_id msg) (lr_last_id st) (ra_start A) (0 < lr_count st)"
        "sint (lm_max_id msg) \<le> sint (lm_id msg)" |
      "lm_max_id msg \<noteq> 0" "already_applied (lm_id msg) (lr_last_id st) (ra_start A) (0 < lr_count st)"
        "\<not> sint (lm_max_id msg) \<le> sint (lm_id msg)" |
      "lm_max_id msg \<noteq> 0" "\<not> already_applied (lm_id msg) (lr_last_id st) (ra_start A) (0 < lr_count st)" by blast
    then show ?thesis
    proof cases
      case 4
      with new order show ?thesis by (simp add: Frame ledger_frame_def with_acc_updates)
    qed (rule exI [of _ "[]"], simp add: Frame ledger_frame_def with_acc_updates with_acc_results order nothing
      step_factors_def settled_def)+
  qed (rule exI [of _ "[]"], simp add: Frame ledger_frame_def step_factors_def settled_def)
qed

definition flow_factors ::
  "'a replay_args \<Rightarrow> 'a \<Rightarrow> ledger_event list \<Rightarrow> ledger_event list \<Rightarrow>
   (ledger_event list replay_state, ledger_event list ledger_replay) flow \<Rightarrow>
   ('a replay_state, 'a ledger_replay) flow \<Rightarrow> bool" where
  "flow_factors A a old es out out' \<longleftrightarrow>
     (case out of
        Reconnect st \<Rightarrow> lr_acc st = old @ es \<and> out' = settled_flow (consume A es a) (\<lambda>b. Reconnect (with_acc b st))
      | Stop q \<Rightarrow> (\<forall>r. q = Ok r \<longrightarrow> le_acc r = old @ es) \<and>
          out' = settled_flow (consume A es a) (\<lambda>b. Stop (rmap (result_with b) q)))"

lemma retry_factors: "flow_factors A a (lr_acc st) [] (retry_or ok e st) (retry_or ok e (with_acc a st))"
  by (simp add: retry_or_def flow_factors_def settled_flow_def with_acc_updates)

lemma ending_factors:
  "flow_factors A a (lr_acc st) [] (ledger_ending (collecting A) ending st) (ledger_ending A ending (with_acc a st))"
  by (cases ending)
    (simp_all add: ledger_ending_def retry_factors with_acc_results, simp_all add: flow_factors_def settled_flow_def)

lemma frames_factor:
  "\<exists>es. flow_factors A a (lr_acc st) es (ledger_frames (collecting A) fs ending st) (ledger_frames A fs ending (with_acc a st))"
proof (induction fs arbitrary: a st)
  case Nil
  show ?case unfolding ledger_frames.simps by (rule exI) (rule ending_factors)
next
  case (Cons f fs)
  obtain es where es: "step_factors A a (lr_acc st) es (ledger_frame (collecting A) f st) (ledger_frame A f (with_acc a st))"
    using frame_factors [of A a st f] by (elim exE) (rule that)
  show ?case
  proof (cases "ledger_frame (collecting A) f st")
    case (Inl st')
    obtain es' where es': "flow_factors A (case consume A es a of Ok b \<Rightarrow> b | _ \<Rightarrow> a) (lr_acc st') es'
        (ledger_frames (collecting A) fs ending st')
        (ledger_frames A fs ending (with_acc (case consume A es a of Ok b \<Rightarrow> b | _ \<Rightarrow> a) st'))"
      using Cons.IH by blast
    show ?thesis
      by (rule exI [of _ "es @ es'"])
        (use es es' Inl in \<open>cases "consume A es a"; auto simp: step_factors_def settled_def flow_factors_def
          consume_append settled_flow_def split: flow.splits\<close>)
  next
    case (Inr q)
    with es show ?thesis
      by (intro exI [of _ es]) (cases "consume A es a"; auto simp: step_factors_def settled_def flow_factors_def settled_flow_def)
  qed
qed

lemma connection_factors:
  "\<exists>es. flow_factors A a (lr_acc st) es (ledger_connection (collecting A) conn st) (ledger_connection A conn (with_acc a st))"
proof (cases conn)
  case (Refused e)
  show ?thesis unfolding Refused ledger_connection_def connection.case with_acc_simps by (rule exI) (rule retry_factors)
next
  case (Delivers fs ending)
  show ?thesis
    using frames_factor [of A a "st\<lparr>lr_high := None\<rparr>" fs ending]
    by (simp add: Delivers ledger_connection_def with_acc_updates)
qed

lemma loop_factors:
  "\<exists>es. (\<forall>r. fst (ledger_loop (collecting A) server k st) = Ok r \<longrightarrow> le_acc r = lr_acc st @ es) \<and>
     fst (ledger_loop A server k (with_acc a st)) =
       rbind (consume A es a) (\<lambda>b. rmap (result_with b) (fst (ledger_loop (collecting A) server k st)))"
proof (induction "collecting A" server k st arbitrary: a rule: ledger_loop.induct)
  case (1 server k st)
  show ?case
  proof (cases "resume_id (lr_count st) (lr_last_id st)")
    case (Ok i)
    obtain es where es: "flow_factors A a (lr_acc st) es (ledger_connection (collecting A) (server k i) st)
        (ledger_connection A (server k i) (with_acc a st))"
      using connection_factors [of A a st "server k i"] by (elim exE) (rule that)
    show ?thesis
    proof (cases "ledger_connection (collecting A) (server k i) st")
      case (Reconnect st')
      let ?b = "case consume A es a of Ok b \<Rightarrow> b | _ \<Rightarrow> a"
      obtain es' where
        "\<forall>r. fst (ledger_loop (collecting A) server (Suc k) st') = Ok r \<longrightarrow> le_acc r = lr_acc st' @ es'"
        "fst (ledger_loop A server (Suc k) (with_acc ?b st')) =
          rbind (consume A es' ?b) (\<lambda>b. rmap (result_with b) (fst (ledger_loop (collecting A) server (Suc k) st')))"
        using "1"(1) [OF Ok Reconnect, of ?b] by (elim exE conjE) (rule that)
      with es Reconnect Ok show ?thesis
        by (intro exI [of _ "es @ es'"], subst (1 2 3) ledger_loop.simps)
          (cases "consume A es a"; simp add: flow_factors_def settled_flow_def consume_append)
    next
      case (Stop q)
      with es Ok show ?thesis
        by (intro exI [of _ es], subst (1 2 3) ledger_loop.simps)
          (cases "consume A es a"; simp add: flow_factors_def settled_flow_def)
    qed
  qed (rule exI [of _ "[]"], subst (1 2 3) ledger_loop.simps, simp)+
qed

text \<open>
  A replay gives the events that it would list, applied one after the other: what its \<^verbatim>\<open>apply\<close>
  does cannot change which events it is given.
\<close>

lemma replay_factors:
  "fst (replay_ledger_events A server a) = Ok r \<longleftrightarrow>
     (\<exists>q. fst (replay_ledger_events (collecting A) server []) = Ok q \<and> consume A (le_acc q) a = Ok (le_acc r) \<and>
       r = result_with (le_acc r) q)"
proof -
  have "with_acc a (replay_init (collecting A) []) = replay_init A a" by (simp add: with_acc_def replay_init_def)
  then obtain es where es: "\<forall>q. fst (replay_ledger_events (collecting A) server []) = Ok q \<longrightarrow> le_acc q = es"
    "fst (replay_ledger_events A server a) =
       rbind (consume A es a) (\<lambda>b. rmap (result_with b) (fst (replay_ledger_events (collecting A) server [])))"
    using loop_factors [of A server 0 "replay_init (collecting A) []" a]
    by (auto simp: replay_ledger_events_def)
  have acc: "le_acc (result_with b q) = b" for b :: 'a and q :: "ledger_event list ledger_replay" by (simp add: result_with_def)
  show ?thesis unfolding es(2) using es(1) acc by (auto simp: rmap_Ok_iff)
qed

lemma result_with_simps [simp]:
  "le_acc (result_with b q) = b" "le_last_id (result_with b q) = le_last_id q" "le_later (result_with b q) = le_later q"
  by (simp_all add: result_with_def)

lemma replay_then:
  "rbind (fst (replay_ledger_events A server a)) K = Ok x \<longleftrightarrow>
     (\<exists>q b. fst (replay_ledger_events (collecting A) server []) = Ok q \<and> consume A (le_acc q) a = Ok b \<and>
       K (result_with b q) = Ok x)"
proof
  assume "rbind (fst (replay_ledger_events A server a)) K = Ok x"
  then obtain r where r: "fst (replay_ledger_events A server a) = Ok r" "K r = Ok x" by auto
  from replay_factors [THEN iffD1, OF r(1)] obtain q where
    "fst (replay_ledger_events (collecting A) server []) = Ok q" "consume A (le_acc q) a = Ok (le_acc r)"
    "r = result_with (le_acc r) q" by blast
  with r(2) show "\<exists>q b. fst (replay_ledger_events (collecting A) server []) = Ok q \<and> consume A (le_acc q) a = Ok b \<and>
      K (result_with b q) = Ok x" by auto
next
  assume "\<exists>q b. fst (replay_ledger_events (collecting A) server []) = Ok q \<and> consume A (le_acc q) a = Ok b \<and>
      K (result_with b q) = Ok x"
  then obtain q b where q: "fst (replay_ledger_events (collecting A) server []) = Ok q" "consume A (le_acc q) a = Ok b"
    "K (result_with b q) = Ok x" by blast
  then have "fst (replay_ledger_events A server a) = Ok (result_with b q)" by (intro replay_factors [THEN iffD2] exI [of _ q]) simp
  with q(3) show "rbind (fst (replay_ledger_events A server a)) K = Ok x" by simp
qed

section \<open>Batching is invisible\<close>

text \<open>What the ledger's replay of a list of events is: the events one after the other.\<close>

definition replays_in_order :: "('s \<Rightarrow> 'e list \<Rightarrow> 's option) \<Rightarrow> bool" where
  "replays_in_order f \<longleftrightarrow> (\<forall>s. f s [] = Some s) \<and> (\<forall>s xs ys. f s (xs @ ys) = Option.bind (f s xs) (\<lambda>t. f t ys))"

text \<open>The application of one event at a time.\<close>

definition zswap_each :: "('e, 'z, 'd) ledger_api \<Rightarrow> i64 \<Rightarrow> bytes \<Rightarrow> ledger_version \<Rightarrow> 'z \<Rightarrow> (wallet_error, 'z) res" where
  "zswap_each L i raw v z =
     rbind (expect_ledger (la_ledger L) v) (\<lambda>_.
     rbind (decode_event L raw) (\<lambda>e.
     ok_or (Sync ''replay zswap events'') (la_replay_zswap L z [e])))"

lemma zswap_flush_eq:
  "zswap_flush L (z, b) =
     (if rb_events b = [] then Ok (z, b)
      else rmap (\<lambda>z'. (z', b\<lparr>rb_events := []\<rparr>)) (ok_or (Sync ''replay zswap events'') (la_replay_zswap L z (rb_events b))))"
  by (cases "la_replay_zswap L z (rb_events b)") (simp_all add: zswap_flush_def batch_apply_zswap_def)

lemma zswap_flush_Ok:
  assumes "replays_in_order (la_replay_zswap L)"
  shows "(\<exists>b'. zswap_flush L (z, b) = Ok (z', b')) \<longleftrightarrow> la_replay_zswap L z (rb_events b) = Some z'"
  using assms by (cases "la_replay_zswap L z (rb_events b)") (auto simp: zswap_flush_eq replays_in_order_def)

text \<open>The waiting events and those to come, handed over in batches or one at a time.\<close>

lemma zswap_batches:
  assumes law: "replays_in_order (la_replay_zswap L)" and f: "\<And>i raw v st. ra_apply A i raw v st = zswap_apply L i raw v st"
    and g: "\<And>i raw v st. ra_apply A' i raw v st = zswap_each L i raw v st"
  shows "(\<exists>z1 b1 b2. consume A es (z, b) = Ok (z1, b1) \<and> zswap_flush L (z1, b1) = Ok (z', b2)) \<longleftrightarrow>
    (\<exists>z0. la_replay_zswap L z (rb_events b) = Some z0 \<and> consume A' es z0 = Ok z')"
proof (induction es arbitrary: z b)
  case Nil
  show ?case using zswap_flush_Ok [OF law] by simp
next
  case (Cons e es)
  obtain i raw v where e: "e = (i, raw, v)" by (cases e)
  show ?case
  proof (cases "v = la_ledger L \<and> la_decode L raw \<noteq> None")
    case True
    then obtain x where x: "v = la_ledger L" "la_decode L raw = Some x" by auto
    let ?b = "batch_push i x b"
    have snoc: "la_replay_zswap L z (rb_events ?b) = Option.bind (la_replay_zswap L z (rb_events b)) (\<lambda>t. la_replay_zswap L t [x])"
      using law by (simp add: replays_in_order_def batch_push_def)
    have step: "(\<exists>z0. la_replay_zswap L z (rb_events b) = Some z0 \<and> consume A' (e # es) z0 = Ok z') \<longleftrightarrow>
        (\<exists>z0. la_replay_zswap L z (rb_events ?b) = Some z0 \<and> consume A' es z0 = Ok z')"
      unfolding snoc using x by (cases "la_replay_zswap L z (rb_events b)")
        (auto simp: e g zswap_each_def expect_ledger_def decode_event_def)
    show ?thesis
    proof (cases "batch_is_full ?b")
      case False
      with x show ?thesis unfolding step Cons.IH [symmetric]
        by (simp add: e f zswap_apply_def expect_ledger_def decode_event_def)
    next
      case full: True
      have ne: "rb_events ?b \<noteq> []" by (simp add: batch_push_def)
      have empty: "la_replay_zswap L z0 [] = Some z0" for z0 using law by (simp add: replays_in_order_def)
      show ?thesis
      proof (cases "la_replay_zswap L z (rb_events ?b)")
        case None
        with x full ne show ?thesis unfolding step
          by (simp add: e f zswap_apply_def expect_ledger_def decode_event_def zswap_flush_eq)
      next
        case (Some z0)
        with x full ne show ?thesis unfolding step using Cons.IH [of z0 "?b\<lparr>rb_events := []\<rparr>"]
          by (simp add: e f zswap_apply_def expect_ledger_def decode_event_def zswap_flush_eq empty)
      qed
    qed
  next
    case False
    then show ?thesis
      by (cases "v = la_ledger L") (auto simp: e f g zswap_apply_def zswap_each_def expect_ledger_def decode_event_def)
  qed
qed

lemma batching_invisible:
  assumes "replays_in_order (la_replay_zswap L)"
  shows "replay_zswap_events L S server z = Ok r \<longleftrightarrow>
    (\<exists>q. fst (replay_ledger_events (source_args S ZswapStream (la_ledger L) (zswap_each L)) server z) = Ok q \<and>
      r = \<lparr>zr_state = le_acc q, zr_last_id = le_last_id q, zr_later = le_later q\<rparr>)"
proof -
  let ?A = "source_args S ZswapStream (la_ledger L) (zswap_apply L)"
  let ?A' = "source_args S ZswapStream (la_ledger L) (zswap_each L)"
  let ?C = "collecting ?A"
  have C: "collecting ?A' = ?C" by (simp add: collecting_def source_args_def)
  have batches: "(\<exists>z1 b1 b2. consume ?A es (z, batch_new) = Ok (z1, b1) \<and> zswap_flush L (z1, b1) = Ok (z', b2)) \<longleftrightarrow>
      consume ?A' es z = Ok z'" for es z'
    using zswap_batches [OF assms, of ?A ?A' es z batch_new z'] assms
    by (simp add: source_args_def batch_new_def replays_in_order_def)
  have "replay_zswap_events L S server z = Ok r \<longleftrightarrow>
      (\<exists>q z1 b1 b2. fst (replay_ledger_events ?C server []) = Ok q \<and> consume ?A (le_acc q) (z, batch_new) = Ok (z1, b1) \<and>
        zswap_flush L (z1, b1) = Ok (zr_state r, b2) \<and> zr_last_id r = le_last_id q \<and> zr_later r = le_later q)"
    unfolding replay_zswap_events_def replay_then by (cases r) auto
  also have "\<dots> \<longleftrightarrow> (\<exists>q. fst (replay_ledger_events ?C server []) = Ok q \<and> consume ?A' (le_acc q) z = Ok (zr_state r) \<and>
        zr_last_id r = le_last_id q \<and> zr_later r = le_later q)"
    unfolding batches [symmetric] by blast
  also have "\<dots> \<longleftrightarrow> rbind (fst (replay_ledger_events ?A' server z)) (\<lambda>q.
      Ok \<lparr>zr_state = le_acc q, zr_last_id = le_last_id q, zr_later = le_later q\<rparr>) = Ok r"
    unfolding replay_then C by (cases r) auto
  also have "\<dots> \<longleftrightarrow> (\<exists>q. fst (replay_ledger_events ?A' server z) = Ok q \<and>
      r = \<lparr>zr_state = le_acc q, zr_last_id = le_last_id q, zr_later = le_later q\<rparr>)"
    by auto
  finally show ?thesis .
qed

text \<open>
  C0: a shielded replay that hands the ledger its events in batches of a thousand returns exactly
  what a replay that applies each event at once returns: the same state, cursor and stop at a
  later generation. In particular nothing waits in a batch when it returns.
\<close>

theorem zswap_batching_is_invisible:
  assumes "replays_in_order (la_replay_zswap L)"
  shows "replay_zswap_events L S server z = Ok r \<longleftrightarrow>
    (\<exists>q. fst (replay_ledger_events (source_args S ZswapStream (la_ledger L) (zswap_each L)) server z) = Ok q \<and>
      r = \<lparr>zr_state = le_acc q, zr_last_id = le_last_id q, zr_later = le_later q\<rparr>)"
  by (rule batching_invisible [OF assms])

section \<open>What a Dust replay returns\<close>

definition dust_each :: "('e, 'z, 'd) ledger_api \<Rightarrow> i64 \<Rightarrow> bytes \<Rightarrow> ledger_version \<Rightarrow> 'd \<Rightarrow> (wallet_error, 'd) res" where
  "dust_each L i raw v w =
     (if v = la_ledger L then
        rbind (decode_event L raw) (\<lambda>e. ok_or (Sync ''apply dust events'') (la_replay_dust L w [e]))
      else Ok w)"

text \<open>Applying each event, and the events of the wallet's own generation.\<close>

fun dust_all :: "('e, 'z, 'd) ledger_api \<Rightarrow> ledger_event list \<Rightarrow> 'd \<Rightarrow> (wallet_error, 'd) res" where
  "dust_all L [] w = Ok w"
| "dust_all L ((i, raw, v) # es) w = rbind (dust_each L i raw v w) (dust_all L es)"

definition own_details :: "('e, 'z, 'd) ledger_api \<Rightarrow> ledger_event list \<Rightarrow> event_details list" where
  "own_details L es = concat (map (\<lambda>(i, raw, v).
     if v = la_ledger L then (case la_decode L raw of Some e \<Rightarrow> [la_details L e] | None \<Rightarrow> []) else []) es)"

definition last_block_time :: "event_details list \<Rightarrow> timestamp option" where
  "last_block_time ds = fold (\<lambda>d t. case event_block_time d of Some t' \<Rightarrow> Some t' | None \<Rightarrow> t) ds None"

definition spend_nullifiers :: "event_details list \<Rightarrow> nullifier list" where
  "spend_nullifiers ds = concat (map (\<lambda>d. case event_spend_nullifier d of Some n \<Rightarrow> [n] | None \<Rightarrow> []) ds)"

lemma dust_all_append: "dust_all L (es @ es') w = rbind (dust_all L es w) (dust_all L es')"
proof (induction es arbitrary: w)
  case (Cons e es)
  obtain i raw v where "e = (i, raw, v)" by (cases e)
  with Cons show ?case by (cases "dust_each L i raw v w") simp_all
qed simp

text \<open>A checkpoint of a replay of \<open>es\<close>: its cursor is an event of \<open>es\<close>, and its wallet has applied all up to it.\<close>

definition checkpointed :: "('e, 'z, 'd) ledger_api \<Rightarrow> 'd \<Rightarrow> ledger_event list \<Rightarrow> 'd \<times> i64 \<Rightarrow> bool" where
  "checkpointed L w es c \<longleftrightarrow> (\<exists>before e after. es = before @ e # after \<and> fst e = snd c \<and>
     dust_all L (before @ [e]) w = Ok (fst c))"

definition dust_inv :: "('e, 'z, 'd) ledger_api \<Rightarrow> 'd \<Rightarrow> ledger_event list \<Rightarrow> ('e, 'd) dust_state \<Rightarrow> bool" where
  "dust_inv L w es st \<longleftrightarrow>
     (\<forall>w'. la_replay_dust L (dt_wallet st) (rb_events (dt_batch st)) = Some w' \<longrightarrow> dust_all L es w = Ok w') \<and>
     dt_last_time st = last_block_time (own_details L es) \<and>
     dt_nullifiers st = spend_nullifiers (own_details L es) \<and>
     dt_consumed st = length es \<and> list_all (checkpointed L w es) (dt_saved st)"

lemma checkpointed_later: "checkpointed L w es c \<Longrightarrow> checkpointed L w (es @ es') c"
  unfolding checkpointed_def by fastforce

lemma dust_flush_Ok:
  assumes "replays_in_order (la_replay_dust L)" "dust_flush L st = Ok st'"
  shows "la_replay_dust L (dt_wallet st) (rb_events (dt_batch st)) = Some (dt_wallet st')"
    "rb_events (dt_batch st') = []" "dt_last_time st' = dt_last_time st" "dt_nullifiers st' = dt_nullifiers st"
    "dt_consumed st' = dt_consumed st" "dt_saved st' = dt_saved st"
  using assms by (auto simp: dust_flush_def batch_apply_dust_def replays_in_order_def split: if_splits)

lemma dust_flush_inv:
  assumes law: "replays_in_order (la_replay_dust L)" and run: "dust_flush L st = Ok st'" and inv: "dust_inv L w es st"
  shows "dust_inv L w es st'" "dust_all L es w = Ok (dt_wallet st')"
proof -
  note flushed = dust_flush_Ok [OF law run]
  show all: "dust_all L es w = Ok (dt_wallet st')" using flushed(1) inv by (simp add: dust_inv_def)
  have "la_replay_dust L (dt_wallet st') [] = Some (dt_wallet st')" using law by (simp add: replays_in_order_def)
  with flushed inv all show "dust_inv L w es st'" by (simp add: dust_inv_def)
qed

lemma own_details_snoc:
  "own_details L (es @ [(i, raw, v)]) = own_details L es @
     (if v = la_ledger L then (case la_decode L raw of Some e \<Rightarrow> [la_details L e] | None \<Rightarrow> []) else [])"
  by (simp add: own_details_def)

lemma dust_note_inv:
  assumes law: "replays_in_order (la_replay_dust L)" and inv: "dust_inv L w es st" and e: "la_decode L raw = Some e"
    and own: "v = la_ledger L"
  shows "dust_inv L w (es @ [(i, raw, v)]) ((dust_note L i e st)\<lparr>dt_consumed := dt_consumed st + 1\<rparr>)"
proof -
  let ?ev = "rb_events (dt_batch st)"
  have snoc: "la_replay_dust L (dt_wallet st) (?ev @ [e]) =
      Option.bind (la_replay_dust L (dt_wallet st) ?ev) (\<lambda>t. la_replay_dust L t [e])"
    using law by (simp add: replays_in_order_def)
  have "dust_all L (es @ [(i, raw, v)]) w = Ok w'"
    if now: "la_replay_dust L (dt_wallet st) (?ev @ [e]) = Some w'" for w'
  proof -
    obtain w1 where "la_replay_dust L (dt_wallet st) ?ev = Some w1" "la_replay_dust L w1 [e] = Some w'"
      using now unfolding snoc by (auto simp: Option.bind_eq_Some_conv)
    with inv e own show ?thesis by (simp add: dust_inv_def dust_all_append dust_each_def decode_event_def)
  qed
  moreover have "last_block_time (own_details L (es @ [(i, raw, v)])) =
      (case event_block_time (la_details L e) of Some t \<Rightarrow> Some t | None \<Rightarrow> dt_last_time st)"
    using inv e own by (simp add: own_details_snoc last_block_time_def dust_inv_def split: option.split)
  moreover have "spend_nullifiers (own_details L (es @ [(i, raw, v)])) =
      (case event_spend_nullifier (la_details L e) of Some n \<Rightarrow> dt_nullifiers st @ [n] | None \<Rightarrow> dt_nullifiers st)"
    using inv e own by (simp add: own_details_snoc spend_nullifiers_def dust_inv_def split: option.split)
  ultimately show ?thesis
    using inv checkpointed_later [of L w es _ "[(i, raw, v)]"]
    by (auto simp: dust_inv_def dust_note_def batch_push_def list_all_iff)
qed

lemma dust_take_inv:
  assumes law: "replays_in_order (la_replay_dust L)" and inv: "dust_inv L w es st" and run: "dust_take L i raw v st = Ok taken"
  shows "dust_inv L w (es @ [(i, raw, v)]) (taken\<lparr>dt_consumed := dt_consumed taken + 1\<rparr>)"
proof (cases "v = la_ledger L")
  case True
  then obtain e where e: "la_decode L raw = Some e" using run by (auto simp: dust_take_def decode_event_def)
  let ?st = "dust_note L i e st"
  have noted: "dust_inv L w (es @ [(i, raw, v)]) (?st\<lparr>dt_consumed := dt_consumed st + 1\<rparr>)"
    by (rule dust_note_inv [OF law inv e True])
  show ?thesis
  proof (cases "batch_is_full (dt_batch ?st)")
    case full: True
    with run e True have fl: "dust_flush L ?st = Ok taken" by (simp add: dust_take_def decode_event_def)
    then have "dust_flush L (?st\<lparr>dt_consumed := dt_consumed st + 1\<rparr>) = Ok (taken\<lparr>dt_consumed := dt_consumed taken + 1\<rparr>)"
      using dust_flush_Ok(5) [OF law fl] by (auto simp: dust_flush_def dust_note_def)
    then show ?thesis using dust_flush_inv(1) [OF law _ noted] by blast
  next
    case False
    with run e True have "taken = ?st" by (simp add: dust_take_def decode_event_def)
    moreover have "dt_consumed ?st = dt_consumed st" by (simp add: dust_note_def)
    ultimately show ?thesis using noted by simp
  qed
next
  case False
  with run have "taken = st" by (simp add: dust_take_def)
  with inv False show ?thesis
    using checkpointed_later [of L w es _ "[(i, raw, v)]"]
    by (auto simp: dust_inv_def own_details_snoc dust_all_append dust_each_def list_all_iff)
qed

lemma dust_apply_inv:
  assumes law: "replays_in_order (la_replay_dust L)" and inv: "dust_inv L w es st" and run: "dust_apply L every i raw v st = Ok st'"
  shows "dust_inv L w (es @ [(i, raw, v)]) st'"
proof -
  obtain taken where taken: "dust_take L i raw v st = Ok taken" using run by (auto simp: dust_apply_def)
  let ?t = "taken\<lparr>dt_consumed := dt_consumed taken + 1\<rparr>"
  have t: "dust_inv L w (es @ [(i, raw, v)]) ?t" by (rule dust_take_inv [OF law inv taken])
  consider "st' = ?t" | s where "dust_flush L ?t = Ok s" "st' = s\<lparr>dt_saved := dt_saved s @ [(dt_wallet s, i)]\<rparr>"
    using run taken by (auto simp: dust_apply_def Let_def split: option.splits if_splits)
  then show ?thesis
  proof cases
    case 1
    with t show ?thesis by simp
  next
    case 2
    have "checkpointed L w (es @ [(i, raw, v)]) (dt_wallet s, i)"
      using dust_flush_inv(2) [OF law 2(1) t] unfolding checkpointed_def by auto
    with dust_flush_inv(1) [OF law 2(1) t] 2(2) show ?thesis by (simp add: dust_inv_def)
  qed
qed

lemma dust_consume_inv:
  assumes law: "replays_in_order (la_replay_dust L)" and f: "\<And>i raw v st. ra_apply A i raw v st = dust_apply L every i raw v st"
  shows "dust_inv L w es st \<Longrightarrow> consume A es' st = Ok st' \<Longrightarrow> dust_inv L w (es @ es') st'"
proof (induction es' arbitrary: es st)
  case (Cons e es')
  obtain i raw v where e: "e = (i, raw, v)" by (cases e)
  with Cons.prems(2) obtain st1 where st1: "dust_apply L every i raw v st = Ok st1" "consume A es' st1 = Ok st'"
    by (auto simp: f)
  have "dust_inv L w (es @ [e]) st1" using dust_apply_inv [OF law Cons.prems(1) st1(1)] e by simp
  from Cons.IH [OF this st1(2)] show ?case by simp
qed simp

text \<open>
  C0: a Dust replay that returns has applied each event of its own generation that the stream gave
  it, and none of an earlier one, though it hands them over in batches: its wallet is what the
  events give one after the other, its block time and nullifiers are those of these events, and
  each checkpoint's wallet has applied exactly the events up to the checkpoint's cursor.
\<close>

theorem dust_replay_exact:
  assumes "replays_in_order (la_replay_dust L)" "replay_dust_events L S every server w = Ok r"
  shows "\<exists>q. fst (replay_ledger_events (collecting (source_args S DustStream (la_ledger L) (dust_apply L every))) server []) = Ok q \<and>
    dust_all L (le_acc q) w = Ok (dy_wallet r) \<and>
    dy_last_id r = le_last_id q \<and> dy_later r = le_later q \<and>
    dy_last_block_time r = last_block_time (own_details L (le_acc q)) \<and>
    dy_spend_nullifiers r = spend_nullifiers (own_details L (le_acc q)) \<and>
    list_all (checkpointed L w (le_acc q)) (dy_saved r)"
proof -
  let ?A = "source_args S DustStream (la_ledger L) (dust_apply L every)"
  obtain q b where q: "fst (replay_ledger_events (collecting ?A) server []) = Ok q"
    "consume ?A (le_acc q) (dust_init w) = Ok b" "rbind (dust_flush L b) (\<lambda>st.
     Ok \<lparr>dy_wallet = dt_wallet st, dy_last_id = le_last_id q, dy_last_block_time = dt_last_time st,
         dy_spend_nullifiers = dt_nullifiers st, dy_later = le_later q, dy_saved = dt_saved st\<rparr>) = Ok r"
    using assms(2) unfolding replay_dust_events_def replay_then result_with_simps by blast
  have "dust_inv L w [] (dust_init w)"
    using assms(1) by (simp add: dust_inv_def dust_init_def batch_new_def replays_in_order_def own_details_def
        last_block_time_def spend_nullifiers_def)
  moreover have "ra_apply ?A i raw v st = dust_apply L every i raw v st" for i raw v st by (simp add: source_args_def)
  ultimately have inv: "dust_inv L w (le_acc q) b"
    using dust_consume_inv [OF assms(1), of ?A every w "[]" "dust_init w" "le_acc q" b] q(2) by simp
  obtain st where st: "dust_flush L b = Ok st" "r = \<lparr>dy_wallet = dt_wallet st, dy_last_id = le_last_id q,
      dy_last_block_time = dt_last_time st, dy_spend_nullifiers = dt_nullifiers st, dy_later = le_later q, dy_saved = dt_saved st\<rparr>"
    using q(3) by auto
  with dust_flush_inv [OF assms(1) st(1) inv] q(1) show ?thesis by (auto simp: dust_inv_def)
qed

section \<open>Replays of three events\<close>

text \<open>A generation whose states list the events they have applied, each event being its bytes.\<close>

definition sample_api :: "(bytes, bytes list, bytes list) ledger_api" where
  "sample_api =
     \<lparr>la_ledger = V9, la_decode = Some, la_details = (\<lambda>e. if e = [97] then DustSpendProcessed 40 [1] else OtherDetails),
      la_replay_zswap = (\<lambda>z es. Some (z @ es)), la_replay_dust = (\<lambda>w es. Some (w @ es))\<rparr>"

definition sample_source :: replay_source where
  "sample_source = \<lparr>rs_host = sample_wallet_host, rs_start = 0, rs_resuming = False, rs_sender = False\<rparr>"

lemma sample_in_order: "replays_in_order (la_replay_zswap sample_api)" "replays_in_order (la_replay_dust sample_api)"
  by (simp_all add: replays_in_order_def sample_api_def)

lemmas replay_unfold = replay_ledger_events_def ledger_loop.simps resume_id_def replay_init_def
  last_applied_before_def sample_indexer_def sample_chain_def events_from_def ledger_connection_def
  ledger_frame_def order_regression_def already_applied_def ledger_event_def apply_event_def event_bytes_def of_event_def
  of_tagged_def sample_wallet_host_def after_event_def pacer_due_def count_event_def send_progress_def report_def
  ledger_ending_def retry_or_def reconnect_max_retries_def gave_up_def complete_def replay_result_def
  Let_def less_ledger_version_def source_args_def sample_source_def sample_api_def

lemma sample_zswap_run:
  "replay_zswap_events sample_api sample_source sample_indexer [] = Ok \<lparr>zr_state = [[97], [98], [99]], zr_last_id = 3, zr_later = None\<rparr>"
  by (simp add: replay_zswap_events_def zswap_apply_def expect_ledger_def decode_event_def batch_push_def batch_new_def
      batch_is_full_def replay_batch_size_def zswap_flush_eq replay_unfold)

theorem zswap_batching_is_invisible_witness:
  "\<exists>q. fst (replay_ledger_events (source_args sample_source ZswapStream V9 (zswap_each sample_api)) sample_indexer []) = Ok q \<and>
    le_acc q = [[97], [98], [99]]"
  using zswap_batching_is_invisible [OF sample_in_order(1), THEN iffD1, OF sample_zswap_run]
  by (auto simp: sample_api_def)

lemma sample_dust_run:
  "replay_dust_events sample_api sample_source (Some 2) sample_indexer [] =
     Ok \<lparr>dy_wallet = [[97], [98], [99]], dy_last_id = 3, dy_last_block_time = Some 40, dy_spend_nullifiers = [[1]],
         dy_later = None, dy_saved = [([[97], [98]], 2)]\<rparr>"
  by (simp add: replay_dust_events_def dust_apply_def dust_take_def dust_note_def dust_flush_def batch_apply_dust_def
      decode_event_def batch_push_def batch_new_def batch_is_full_def replay_batch_size_def dust_init_def replay_unfold)

theorem dust_replay_exact_witness:
  "\<exists>es. dust_all sample_api es [] = Ok [[97], [98], [99]] \<and> spend_nullifiers (own_details sample_api es) = [[1]] \<and>
    checkpointed sample_api [] es ([[97], [98]], 2)"
  using dust_replay_exact [OF sample_in_order(2) sample_dust_run] by fastforce

end
