(* ===== verification/WalletState.thy ===== *)
theory WalletState
  imports WalletBatch "HOL-Library.Signed_Division" "HOL-Library.AList"
begin

text \<open>
  The state of a wallet on one ledger generation, \<^verbatim>\<open>crates/midnight-wallet/src/per_ledger/state.rs\<close>:
  what it keeps in memory and when it writes it to disk, the reservations it makes, the funding it
  hands to a build, and the commit of a resync. The ledger's own states and their operations are
  parameters.
\<close>

section \<open>Parameters and the anchor of a build\<close>

record 'p ledger_parameters =
  lp_global_ttl :: int
  lp_dust_grace_period :: int
  lp_night_dust_ratio :: nat
  lp_generation_decay_rate :: nat
  lp_overall_price :: int
  lp_rest :: 'p

definition validate_ledger_parameters :: "'p ledger_parameters \<Rightarrow> (wallet_error, unit) res" where
  "validate_ledger_parameters p =
     (if lp_global_ttl p \<le> 0 then Err (CorruptParameters ''global_ttl'')
      else if lp_night_dust_ratio p = 0 then Err (CorruptParameters ''dust.night_dust_ratio'')
      else if lp_generation_decay_rate p = 0 then Err (CorruptParameters ''dust.generation_decay_rate'')
      else if lp_overall_price p \<le> 0 then Err (CorruptParameters ''fee_prices.overall_price'')
      else Ok ())"

definition decode_ledger_parameters ::
  "wallet_host \<Rightarrow> (bytes \<Rightarrow> 'p ledger_parameters option) \<Rightarrow> ix_block \<Rightarrow> (wallet_error, 'p ledger_parameters) res" where
  "decode_ledger_parameters W parse b =
     rbind (encoded_ledger_parameters W b) (\<lambda>bs.
     rbind (ok_or (Sync ''deserialize ledger params'') (parse bs)) (\<lambda>p.
     rbind (validate_ledger_parameters p) (\<lambda>_. Ok p)))"

text \<open>Milliseconds to seconds: the division truncates and the cast wraps.\<close>

definition block_time :: "ix_block \<Rightarrow> (wallet_error, timestamp) res" where
  "block_time b =
     rmap (\<lambda>ms. word_of_int (sint ms sdiv 1000)) (ok_or (Sync ''latest block has no timestamp'') (bk_timestamp b))"

text \<open>A build's \<^verbatim>\<open>tblock\<close>, and the time of the latest block beside it.\<close>

record build_context =
  bc_tblock :: timestamp
  bc_last_block_time :: timestamp

definition chain_time :: "build_context \<Rightarrow> timestamp" where
  "chain_time bc = max (bc_tblock bc) (bc_last_block_time bc)"

text \<open>\<open>later t s\<close> is the ledger's sum of a time and a number of seconds.\<close>

definition dust_anchor ::
  "(timestamp \<Rightarrow> int \<Rightarrow> timestamp) \<Rightarrow> timestamp option \<Rightarrow> timestamp option \<Rightarrow> timestamp \<Rightarrow> 'p ledger_parameters \<Rightarrow> timestamp" where
  "dust_anchor later last_dust previous chain_now p =
     (let window = min (lp_global_ttl p) (lp_dust_grace_period p) in
      case (case last_dust of Some t \<Rightarrow> Some (later t 1) | None \<Rightarrow> previous) of
        Some t \<Rightarrow> if chain_now \<le> later t window then t else chain_now
      | None \<Rightarrow> chain_now)"

section \<open>The wallet\<close>

text \<open>The ledger's operations on its states, for the wallet's keys; \<open>'c\<close> is a coin.\<close>

record ('z, 'd, 'x, 'c) wallet_api =
  wa_watch_for :: "'z \<Rightarrow> 'c \<Rightarrow> 'z"
  wa_commitment :: "'c \<Rightarrow> bytes"
  wa_pending_outputs :: "'z \<Rightarrow> (bytes \<times> 'c) list"
  wa_remove_output :: "'z \<Rightarrow> bytes \<Rightarrow> 'z"
  wa_coins :: "'z \<Rightarrow> (nullifier \<times> 'c) list"
  wa_remove_coin :: "'z \<Rightarrow> nullifier \<Rightarrow> 'z"
  wa_has_dust_state :: "'d \<Rightarrow> bool"
  wa_mark_spent :: "'d \<Rightarrow> 'x dust_spend list \<Rightarrow> 'd"
  wa_owner :: "string \<Rightarrow> bytes"
  wa_plus :: "timestamp \<Rightarrow> int \<Rightarrow> timestamp"

record ('z, 'd, 'x, 'p) wallet =
  wl_seed :: string
  wl_zswap_state :: 'z
  wl_zswap_event_id :: i64
  wl_dust_wallet :: 'd
  wl_dust_event_id :: i64
  wl_utxos :: "tracked_utxo list"
  wl_last_block_height :: i64
  wl_last_tx_id :: "i64 option"
  wl_chain_pin :: "chain_pin option"
  wl_parameters :: "'p ledger_parameters"
  wl_block_context :: "build_context option"
  wl_pending :: "'x reservations"
  wl_has_storage :: bool
  wl_save_failed :: bool

text \<open>How the generation encodes what is stored.\<close>

record ('z, 'd, 'x) wallet_codec =
  wc_snapshot :: "('z, 'd) snapshot_codec"
  wc_pending :: "'x pending_codec"

text \<open>An operation on a wallet and on the directory where it keeps its state.\<close>

type_synonym ('z, 'd, 'x, 'p, 'a) wallet_op = "(('z, 'd, 'x, 'p) wallet \<times> wallet_dir, wallet_error, 'a) sm"

definition snapshot_of :: "('z, 'd, 'x, 'p) wallet \<Rightarrow> ('z, 'd) wallet_snapshot" where
  "snapshot_of w =
     \<lparr>sn_zswap_state = wl_zswap_state w, sn_dust_wallet = wl_dust_wallet w, sn_zswap_event_id = wl_zswap_event_id w,
      sn_dust_event_id = wl_dust_event_id w, sn_last_block_height = wl_last_block_height w,
      sn_last_tx_id = wl_last_tx_id w, sn_chain_pin = wl_chain_pin w, sn_utxos = wl_utxos w\<rparr>"

definition pending_save :: "('z, 'd, 'x) wallet_codec \<Rightarrow> 'x reservations \<Rightarrow> unit dir_op" where
  "pending_save E p =
     sbind (slift (to_stored (wc_pending E) (sc_ledger (wc_snapshot E)) p)) (save_pending (wc_snapshot E))"

definition wallet_save :: "('z, 'd, 'x) wallet_codec \<Rightarrow> ('z, 'd, 'x, 'p) wallet \<Rightarrow> unit dir_op" where
  "wallet_save E w = sbind (save (wc_snapshot E) (snapshot_of w)) (\<lambda>_. pending_save E (wl_pending w))"

definition persist :: "('z, 'd, 'x) wallet_codec \<Rightarrow> bool \<Rightarrow> ('z, 'd, 'x, 'p, unit) wallet_op" where
  "persist E changed = (\<lambda>(w, d).
     if \<not> (changed \<or> wl_save_failed w) then (Ok (), w, d)
     else if \<not> wl_has_storage w then (Ok (), w, d)
     else case wallet_save E w d of (saved, d') \<Rightarrow> (saved, w\<lparr>wl_save_failed := (saved \<noteq> Ok ())\<rparr>, d'))"

text \<open>The write of the reservations is best-effort, and a failure is noted for the next save.\<close>

definition persist_pending :: "('z, 'd, 'x) wallet_codec \<Rightarrow> ('z, 'd, 'x, 'p, unit) wallet_op" where
  "persist_pending E = (\<lambda>(w, d).
     if \<not> wl_has_storage w then (Ok (), w, d)
     else case pending_save E (wl_pending w) d of (saved, d') \<Rightarrow>
       (Ok (), if saved = Ok () then w else w\<lparr>wl_save_failed := True\<rparr>, d'))"

definition modify_wallet :: "(('z, 'd, 'x, 'p) wallet \<Rightarrow> ('z, 'd, 'x, 'p) wallet) \<Rightarrow> ('z, 'd, 'x, 'p, unit) wallet_op" where
  "modify_wallet f = smodify (\<lambda>(w, d). (f w, d))"

definition reserve_pending ::
  "('z, 'd, 'x) wallet_codec \<Rightarrow> 'x dust_spend list list \<Rightarrow> spent_key list \<Rightarrow> nullifier list \<Rightarrow> timestamp \<Rightarrow> timestamp \<Rightarrow>
   ('z, 'd, 'x, 'p, unit) wallet_op" where
  "reserve_pending E dust unshielded shielded made expires =
     sbind (modify_wallet (wl_pending_update (reserve dust unshielded shielded made expires))) (\<lambda>_. persist_pending E)"

definition wallet_release ::
  "('z, 'd, 'x) wallet_codec \<Rightarrow> nullifier reserved_input list \<Rightarrow> spent_key reserved_input list \<Rightarrow> nullifier reserved_input list \<Rightarrow>
   ('z, 'd, 'x, 'p, unit) wallet_op" where
  "wallet_release E dust unshielded shielded =
     sbind (modify_wallet (wl_pending_update (release dust unshielded shielded))) (\<lambda>_. persist_pending E)"

section \<open>Coins that the wallet cannot discover\<close>

definition watch_for_coins ::
  "('z, 'd, 'x, 'c) wallet_api \<Rightarrow> ('z, 'd, 'x) wallet_codec \<Rightarrow> 'c list \<Rightarrow> ('z, 'd, 'x, 'p, unit) wallet_op" where
  "watch_for_coins A E coins =
     sbind (modify_wallet (wl_zswap_state_update (\<lambda>z. fold (\<lambda>c z. wa_watch_for A z c) coins z))) (\<lambda>_.
       persist E (coins \<noteq> []))"

fun forget_each :: "('z, 'd, 'x, 'c) wallet_api \<Rightarrow> 'c list \<Rightarrow> 'z \<times> bool \<Rightarrow> 'z \<times> bool" where
  "forget_each A [] st = st"
| "forget_each A (c # cs) (z, forgot) =
     (let k = wa_commitment A c in
      forget_each A cs (if k \<in> fst ` set (wa_pending_outputs A z) then (wa_remove_output A z k, True) else (z, forgot)))"

definition forget_coins ::
  "('z, 'd, 'x, 'c) wallet_api \<Rightarrow> ('z, 'd, 'x) wallet_codec \<Rightarrow> 'c list \<Rightarrow> ('z, 'd, 'x, 'p, unit) wallet_op" where
  "forget_coins A E coins =
     sbind (sget (\<lambda>(w, d). forget_each A coins (wl_zswap_state w, False))) (\<lambda>(z, forgot).
     sbind (modify_wallet (wl_zswap_state_update (\<lambda>_. z))) (\<lambda>_. persist E forgot))"

definition registered_coins :: "('z, 'd, 'x, 'c) wallet_api \<Rightarrow> 'z \<Rightarrow> 'c list" where
  "registered_coins A z = map snd (wa_pending_outputs A z)"

definition coins_to_register :: "('z, 'd, 'x, 'c) wallet_api \<Rightarrow> 'z \<Rightarrow> 'c list" where
  "coins_to_register A z = registered_coins A z @ map snd (wa_coins A z)"

definition adopt_pending :: "('z, 'd, 'x, 'p) wallet \<Rightarrow> ('z, 'd, 'x, 'p) wallet \<Rightarrow> ('z, 'd, 'x, 'p) wallet" where
  "adopt_pending previous w =
     w\<lparr>wl_pending := (case wl_block_context w of
        Some bc \<Rightarrow> evict_expired (chain_time bc) (wl_pending previous) | None \<Rightarrow> wl_pending previous)\<rparr>"

definition commit_shielded_rescan ::
  "('z, 'd, 'x) wallet_codec \<Rightarrow> 'z \<Rightarrow> i64 \<Rightarrow> ('z, 'd, 'x, 'p, unit) wallet_op" where
  "commit_shielded_rescan E z i =
     sbind (modify_wallet (\<lambda>w. w\<lparr>wl_zswap_state := z, wl_zswap_event_id := i\<rparr>)) (\<lambda>_. persist E True)"

section \<open>The commit of a resync\<close>

record ('z, 'd, 'p) resync_commit =
  rc_dust_wallet :: 'd
  rc_dust_event_id :: i64
  rc_last_dust_block_time :: "timestamp option"
  rc_dust_nullifiers :: "nullifier list"
  rc_zswap_state :: 'z
  rc_zswap_event_id :: i64
  rc_utxos :: "tracked_utxo list"
  rc_last_tx_id :: i64
  rc_last_block_height :: i64
  rc_spent_unshielded :: "spent_key list"
  rc_chain_tblock :: timestamp
  rc_parameters :: "'p ledger_parameters"

definition cursors_advanced :: "('z, 'd, 'p) resync_commit \<Rightarrow> ('z, 'd, 'x, 'p) wallet \<Rightarrow> bool" where
  "cursors_advanced c w \<longleftrightarrow> rc_dust_event_id c \<noteq> wl_dust_event_id w \<or> rc_zswap_event_id c \<noteq> wl_zswap_event_id w \<or>
     Some (rc_last_tx_id c) \<noteq> wl_last_tx_id w \<or> sint (wl_last_block_height w) < sint (rc_last_block_height c)"

text \<open>The wallet with the committed state, and its context at the new anchor.\<close>

definition committed ::
  "('z, 'd, 'x, 'c) wallet_api \<Rightarrow> ('z, 'd, 'p) resync_commit \<Rightarrow> ('z, 'd, 'x, 'p) wallet \<Rightarrow> ('z, 'd, 'x, 'p) wallet" where
  "committed A c w =
     w\<lparr>wl_dust_wallet := rc_dust_wallet c, wl_dust_event_id := rc_dust_event_id c, wl_zswap_state := rc_zswap_state c,
       wl_zswap_event_id := rc_zswap_event_id c, wl_utxos := rc_utxos c, wl_last_tx_id := Some (rc_last_tx_id c),
       wl_last_block_height := rc_last_block_height c, wl_parameters := rc_parameters c,
       wl_block_context := Some \<lparr>bc_tblock = dust_anchor (wa_plus A) (rc_last_dust_block_time c)
           (map_option bc_tblock (wl_block_context w)) (rc_chain_tblock c) (rc_parameters c),
         bc_last_block_time = rc_chain_tblock c\<rparr>\<rparr>"

definition commit_resync ::
  "('z, 'd, 'x, 'c) wallet_api \<Rightarrow> ('z, 'd, 'x) wallet_codec \<Rightarrow> ('z, 'd, 'p) resync_commit \<Rightarrow> ('z, 'd, 'x, 'p, unit) wallet_op" where
  "commit_resync A E c = (\<lambda>(w, d).
     let moved = cursors_advanced c w;
         parameters_changed = (rc_parameters c \<noteq> wl_parameters w);
         w' = committed A c w in
     case clear_confirmed (rc_spent_unshielded c) (rc_dust_nullifiers c) (wl_pending w') of (pending_changed, p) \<Rightarrow>
       persist E (moved \<or> parameters_changed \<or> pending_changed) (w'\<lparr>wl_pending := p\<rparr>, d))"

section \<open>Funding a build\<close>

definition reservation_holds :: "('z, 'd, 'x, 'p) wallet \<Rightarrow> timestamp \<Rightarrow> bool" where
  "reservation_holds w expires =
     (case wl_block_context w of None \<Rightarrow> True | Some bc \<Rightarrow> within_ttl expires (chain_time bc))"

definition reserved_shielded_nullifiers :: "('z, 'd, 'x, 'p) wallet \<Rightarrow> nullifier list" where
  "reserved_shielded_nullifiers w =
     map ps_nullifier (filter (\<lambda>s. reservation_holds w (ps_expires_at s)) (rv_shielded (wl_pending w)))"

definition reserved_unshielded_keys :: "('z, 'd, 'x, 'p) wallet \<Rightarrow> spent_key list" where
  "reserved_unshielded_keys w =
     map pu_key (filter (\<lambda>s. reservation_holds w (pu_expires_at s)) (rv_unshielded (wl_pending w)))"

definition reserved_dust_nullifiers :: "('z, 'd, 'x, 'p) wallet \<Rightarrow> nullifier list" where
  "reserved_dust_nullifiers w =
     concat (map (\<lambda>b. map ds_old_nullifier (pd_spends b))
       (filter (\<lambda>b. reservation_holds w (pd_expires_at b)) (rv_dust (wl_pending w))))"

record ledger_utxo =
  lu_value :: u128
  lu_owner :: bytes
  lu_type :: bytes
  lu_intent_hash :: bytes
  lu_output_no :: u32

definition tracked_to_ledger_utxo :: "tracked_utxo \<Rightarrow> bytes \<Rightarrow> ledger_utxo" where
  "tracked_to_ledger_utxo u owner =
     \<lparr>lu_value = tu_value u, lu_owner = owner, lu_type = tu_token u, lu_intent_hash = tu_intent u, lu_output_no = tu_output u\<rparr>"

text \<open>What a build draws on: the UTXOs with their creation time, and a shielded and a Dust state per seed.\<close>

record ('z, 'd) funding =
  fu_utxos :: "(ledger_utxo \<times> timestamp) list"
  fu_wallets :: "(string \<times> 'z \<times> 'd) list"
  fu_context :: "build_context option"

definition utxo_ctime :: "build_context option \<Rightarrow> timestamp" where
  "utxo_ctime bc = (case bc of None \<Rightarrow> 0 | Some c \<Rightarrow> if 3600 \<le> bc_tblock c then bc_tblock c - 3600 else 0)"

definition fund_utxos ::
  "bytes \<Rightarrow> timestamp \<Rightarrow> spent_key list \<Rightarrow> tracked_utxo list \<Rightarrow> (ledger_utxo \<times> timestamp) list \<Rightarrow> (ledger_utxo \<times> timestamp) list" where
  "fund_utxos owner ctime reserved utxos us =
     fold (\<lambda>u us. if spent_key_of u \<in> set reserved then us else AList.update (tracked_to_ledger_utxo u owner) ctime us) utxos us"

definition evict_pending :: "('z, 'd, 'x, 'p) wallet \<Rightarrow> ('z, 'd, 'x, 'p) wallet" where
  "evict_pending w = (case wl_block_context w of
     None \<Rightarrow> w | Some bc \<Rightarrow> w\<lparr>wl_pending := evict_expired (chain_time bc) (wl_pending w)\<rparr>)"

definition fund_dust ::
  "('z, 'd, 'x, 'c) wallet_api \<Rightarrow> 'x pending_dust_batch list \<Rightarrow> 'd \<Rightarrow> (wallet_error, 'd) res" where
  "fund_dust A batches d =
     (if wa_has_dust_state A d then Ok (fold (\<lambda>b d. wa_mark_spent A d (pd_spends b)) batches d)
      else if batches = [] then Ok d else Err (Transfer ''pending dust reservations but no dust state''))"

text \<open>The result, the wallet with its expired reservations dropped, and the context.\<close>

definition add_funding ::
  "('z, 'd, 'x, 'c) wallet_api \<Rightarrow> ('z, 'd, 'x, 'p) wallet \<Rightarrow> ('z, 'd) funding \<Rightarrow>
   (wallet_error, unit) res \<times> ('z, 'd, 'x, 'p) wallet \<times> ('z, 'd) funding" where
  "add_funding A w ctx =
     (if wl_seed w \<in> fst ` set (fu_wallets ctx) then (Err (Transfer ''this wallet already funds the context''), w, ctx)
      else
        let w' = evict_pending w;
            ctx' = ctx\<lparr>fu_context := wl_block_context w',
              fu_utxos := fund_utxos (wa_owner A (wl_seed w)) (utxo_ctime (wl_block_context w')) (reserved_unshielded_keys w')
                (wl_utxos w') (fu_utxos ctx)\<rparr>;
            z = fold (\<lambda>n z. wa_remove_coin A z n) (reserved_shielded_nullifiers w') (wl_zswap_state w') in
        case fund_dust A (rv_dust (wl_pending w')) (wl_dust_wallet w') of
          Ok d \<Rightarrow> (Ok (), w', ctx'\<lparr>fu_wallets := fu_wallets ctx' @ [(wl_seed w, z, d)]\<rparr>)
        | Err e \<Rightarrow> (Err e, w', ctx') | Panic \<Rightarrow> (Panic, w', ctx') | NoFuel \<Rightarrow> (NoFuel, w', ctx'))"

section \<open>Accessors\<close>

definition dust_synced :: "('z, 'd, 'x, 'p) wallet \<Rightarrow> bool" where
  "dust_synced w \<longleftrightarrow> 0 < sint (wl_dust_event_id w)"

definition set_chain_pin :: "chain_pin \<Rightarrow> ('z, 'd, 'x, 'p) wallet \<Rightarrow> ('z, 'd, 'x, 'p) wallet" where
  "set_chain_pin pin w = w\<lparr>wl_chain_pin := Some pin\<rparr>"

section \<open>A save that succeeds\<close>

lemma wp_disk_op_files:
  "(\<And>r d'. same_files d d' \<Longrightarrow> Q r d') \<Longrightarrow> wp (disk_op what) Q d"
  by (rule wp_disk_op) (simp_all add: same_files_iff)

lemma wp_read_json: "wp (read_json file parse) (\<lambda>r d'. same_files d d') d"
  unfolding read_json_def wp_sbind
  by (rule wp_disk_fails)
    (auto split: option.split res.split intro!: wp_disk_op_files simp: same_files_iff)

lemma wp_previous_generation: "wp (previous_generation C) (\<lambda>r d'. (\<exists>p. r = Ok p) \<and> same_files d d') d"
proof -
  have "same_files d d'" if "read_metadata C d = (r, d')" for r d'
    using wpD [OF wp_read_json that [unfolded read_metadata_def]] .
  then show ?thesis by (auto simp: wp_def previous_generation_def split: prod.split res.split)
qed

lemma wp_remove_state_at:
  assumes "on_disk C d = Ok (Some s)" "live_generation C d = Some g" "p \<noteq> g"
  shows "wp (remove_state p) (\<lambda>r d'. r = Ok () \<and> wd_pending d' = wd_pending d \<and> on_disk C d' = Ok (Some s)) d"
proof (rule wp_mono [OF wp_remove_state], goal_cases)
  case (1 r d')
  with assms on_disk_only_at [of p d d' C] show ?case by (simp add: only_at_def)
qed

lemma wp_save:
  assumes law: "snapshot_law C" "saved_utxos s"
  shows "wp (save C s) (\<lambda>r d'. wd_pending d' = wd_pending d \<and> (r = Ok () \<longrightarrow> on_disk C d' = Ok (Some s))) d"
proof -
  let ?z = "sn_zswap_state s" and ?w = "sn_dust_wallet s"
  let ?Q = "\<lambda>r d'. wd_pending d' = wd_pending d \<and> (r = Ok () \<longrightarrow> on_disk C d' = Ok (Some s))"
  have commit: "wp (sbind (commit_metadata C ((metadata_of C s)\<lparr>md_generation := g\<rparr>)) (\<lambda>_.
      case previous of None \<Rightarrow> sret () | Some p \<Rightarrow> remove_state p)) ?Q d3"
    if d3: "wd_pending d3 = wd_pending d" "state_written C ?z ?w g d3" and g: "next_generation previous = Ok g" for d3 g previous
    unfolding wp_sbind
  proof (rule wp_mono [OF wp_commit_metadata], goal_cases)
    case (1 r d4)
    then consider "r \<noteq> Ok ()" "same_files d3 d4" | js where
      "sc_metadata_to C ((metadata_of C s)\<lparr>md_generation := g\<rparr>) = Some js" "same_files (put_metadata js d3) d4" by blast
    then show ?case
    proof cases
      case 1
      then show ?thesis using d3(1) by (cases r) (simp_all add: same_files_iff)
    next
      case 2
      then have d4: "wd_metadata d4 = Some js" "state_written C ?z ?w g d4" "wd_pending d4 = wd_pending d"
        using d3 by (simp_all add: same_files_iff put_metadata_def state_written_def)
      with 2(1) law have ok: "on_disk C d4 = Ok (Some s)" "live_generation C d4 = Some g" by (simp_all add: on_disk_committed)
      have "wp (case previous of None \<Rightarrow> sret () | Some p \<Rightarrow> remove_state p) ?Q d4"
      proof (cases previous)
        case (Some p)
        then have "p \<noteq> g" using g next_generation_differs by metis
        from wp_remove_state_at [OF ok this] d4(3) show ?thesis unfolding Some by (auto intro: wp_mono)
      qed (use ok d4 in simp)
      with d4(3) show ?thesis by (cases r) simp_all
    qed
  qed
  have rest: "wp (sbind (slift (next_generation previous)) (\<lambda>g.
     sbind (write_state C ?z ?w g) (\<lambda>_.
     sbind (commit_metadata C ((metadata_of C s)\<lparr>md_generation := g\<rparr>)) (\<lambda>_.
     case previous of None \<Rightarrow> sret () | Some p \<Rightarrow> remove_state p)))) ?Q d2"
    if "wd_pending d2 = wd_pending d" for d2 previous
  proof (cases "next_generation previous")
    case (Ok g)
    show ?thesis unfolding Ok wp_sbind wp_basics res.case
    proof (rule wp_mono [OF wp_write_state], goal_cases)
      case (1 r d3)
      then have "wd_pending d3 = wd_pending d" using that by (simp add: only_at_def)
      with 1 commit Ok show ?case unfolding wp_sbind by (cases r) auto
    qed
  qed (use that in \<open>auto simp: wp_def sbind_apply sm_simps\<close>)
  show ?thesis
    unfolding save_def save_snapshot_def create_wallet_dir_def wp_sbind [where m = "disk_op ''create dir''"]
  proof (rule wp_disk_op_files, goal_cases)
    case (1 r d1)
    have "wp (sbind (previous_generation C) (\<lambda>previous. sbind (slift (next_generation previous)) (\<lambda>g.
     sbind (write_state C ?z ?w g) (\<lambda>_.
     sbind (commit_metadata C ((metadata_of C s)\<lparr>md_generation := g\<rparr>)) (\<lambda>_.
     case previous of None \<Rightarrow> sret () | Some p \<Rightarrow> remove_state p))))) ?Q d1"
      unfolding wp_sbind [where m = "previous_generation C"]
    proof (rule wp_mono [OF wp_previous_generation], goal_cases)
      case (1 r d2)
      then obtain previous where "r = Ok previous" "wd_pending d2 = wd_pending d" using \<open>same_files d d1\<close>
        by (auto simp: same_files_iff)
      then show ?case using rest by simp
    qed
    with 1 show ?case by (cases r) (simp_all add: same_files_iff)
  qed
qed

section \<open>The disk follows the memory\<close>

definition wallet_law :: "('z, 'd, 'x) wallet_codec \<Rightarrow> bool" where
  "wallet_law E \<longleftrightarrow> snapshot_law (wc_snapshot E) \<and>
     (\<forall>p js. sc_pending_to (wc_snapshot E) p = Some js \<longrightarrow> sc_pending_from (wc_snapshot E) js = Some p)"

definition stored_reservations :: "('z, 'd, 'x) wallet_codec \<Rightarrow> 'x reservations \<Rightarrow> wallet_dir \<Rightarrow> bool" where
  "stored_reservations E p d \<longleftrightarrow> (\<exists>st. to_stored (wc_pending E) (sc_ledger (wc_snapshot E)) p = Ok st \<and>
     pending_on_disk (wc_snapshot E) d = Ok (if stored_is_empty st then None else Some st))"

text \<open>A load would find the wallet's state, and its reservations.\<close>

definition disk_current :: "('z, 'd, 'x) wallet_codec \<Rightarrow> ('z, 'd, 'x, 'p) wallet \<Rightarrow> wallet_dir \<Rightarrow> bool" where
  "disk_current E w d \<longleftrightarrow> on_disk (wc_snapshot E) d = Ok (Some (snapshot_of w)) \<and> stored_reservations E (wl_pending w) d"

definition disk_follows :: "('z, 'd, 'x) wallet_codec \<Rightarrow> ('z, 'd, 'x, 'p) wallet \<times> wallet_dir \<Rightarrow> bool" where
  "disk_follows E s \<longleftrightarrow> list_all utxo_sized (wl_utxos (fst s)) \<and>
     (wl_has_storage (fst s) \<longrightarrow> \<not> wl_save_failed (fst s) \<longrightarrow> disk_current E (fst s) (snd s))"

lemma slift_ok: "slift q s = (Ok a, t) \<longleftrightarrow> q = Ok a \<and> t = s"
  by auto

lemma pending_save_ok:
  assumes "wallet_law E" "pending_save E p d = (Ok (), d')"
  shows "on_disk (wc_snapshot E) d' = on_disk (wc_snapshot E) d" "stored_reservations E p d'"
proof -
  obtain st where st: "to_stored (wc_pending E) (sc_ledger (wc_snapshot E)) p = Ok st" "save_pending (wc_snapshot E) st d = (Ok (), d')"
    using assms(2) unfolding pending_save_def sbind_Ok_iff slift_ok by blast
  have "sc_pending_from (wc_snapshot E) js = Some st" if "sc_pending_to (wc_snapshot E) st = Some js" for js
    using assms(1) that by (simp add: wallet_law_def)
  from save_pending_atomic [OF this st(2)] st(1)
  show "on_disk (wc_snapshot E) d' = on_disk (wc_snapshot E) d" "stored_reservations E p d'"
    by (auto simp: stored_reservations_def)
qed

lemma wallet_save_ok:
  assumes "wallet_law E" "list_all utxo_sized (wl_utxos w)" "wallet_save E w d = (Ok (), d')"
  shows "disk_current E w d'"
proof -
  obtain d1 where d1: "save (wc_snapshot E) (snapshot_of w) d = (Ok (), d1)" "pending_save E (wl_pending w) d1 = (Ok (), d')"
    using assms(3) by (auto simp: wallet_save_def)
  have "on_disk (wc_snapshot E) d1 = Ok (Some (snapshot_of w))"
    using wpD [OF wp_save d1(1)] assms(1,2) by (simp add: wallet_law_def saved_utxos_def snapshot_of_def)
  with pending_save_ok [OF assms(1) d1(2)] show ?thesis by (simp add: disk_current_def)
qed

lemma disk_current_cong: "snapshot_of w' = snapshot_of w \<Longrightarrow> wl_pending w' = wl_pending w \<Longrightarrow> disk_current E w' d = disk_current E w d"
  by (simp add: disk_current_def)

lemma snapshot_of_failed [simp]: "snapshot_of (w\<lparr>wl_save_failed := b\<rparr>) = snapshot_of w"
  by (simp add: snapshot_of_def)

lemma persist_follows:
  assumes "wallet_law E" "list_all utxo_sized (wl_utxos w)" "persist E changed (w, d) = (r, w', d')"
    "wl_has_storage w \<Longrightarrow> \<not> changed \<Longrightarrow> \<not> wl_save_failed w \<Longrightarrow> disk_current E w d"
  shows "disk_follows E (w', d')" "r = Ok () \<Longrightarrow> wl_has_storage w \<Longrightarrow> disk_current E w' d'"
proof -
  have both: "disk_follows E (w', d') \<and> (r = Ok () \<longrightarrow> wl_has_storage w \<longrightarrow> disk_current E w' d')"
  proof (cases "(changed \<or> wl_save_failed w) \<and> wl_has_storage w")
    case True
    obtain saved d1 where s: "wallet_save E w d = (saved, d1)" by fastforce
    with True assms(3) have out: "r = saved" "w' = w\<lparr>wl_save_failed := (saved \<noteq> Ok ())\<rparr>" "d' = d1"
      by (auto simp: persist_def)
    have "disk_current E w' d'" if "saved = Ok ()"
      using wallet_save_ok [OF assms(1,2)] s that out disk_current_cong [of w' w E d'] by simp
    with out assms(2) show ?thesis by (auto simp: disk_follows_def)
  next
    case False
    with assms(3) have "w' = w" "d' = d" by (auto simp: persist_def split: if_splits)
    with False assms(2,4) show ?thesis by (auto simp: disk_follows_def)
  qed
  then show "disk_follows E (w', d')" "r = Ok () \<Longrightarrow> wl_has_storage w \<Longrightarrow> disk_current E w' d'" by blast+
qed

lemma persist_pending_follows:
  assumes law: "wallet_law E" and utxos: "list_all utxo_sized (wl_utxos w)"
    and run: "persist_pending E (w, d) = (r, w', d')"
    and before: "wl_has_storage w \<Longrightarrow> \<not> wl_save_failed w \<Longrightarrow> on_disk (wc_snapshot E) d = Ok (Some (snapshot_of w))"
  shows "disk_follows E (w', d')"
proof (cases "wl_has_storage w")
  case True
  obtain saved d1 where s: "pending_save E (wl_pending w) d = (saved, d1)" by fastforce
  show ?thesis
  proof (cases "saved = Ok ()")
    case ok: True
    with s run True have "w' = w" "d' = d1" by (auto simp: persist_pending_def)
    with pending_save_ok [OF law s [unfolded ok]] before utxos True show ?thesis by (simp add: disk_follows_def disk_current_def)
  next
    case False
    with s run True utxos show ?thesis by (auto simp: persist_pending_def disk_follows_def)
  qed
next
  case False
  with run utxos show ?thesis by (auto simp: persist_pending_def disk_follows_def)
qed

text \<open>What changes the state of a wallet after its sync.\<close>

datatype ('z, 'd, 'x, 'c, 'p) wallet_action =
    DoReserve "'x dust_spend list list" "spent_key list" "nullifier list" timestamp timestamp
  | DoRelease "nullifier reserved_input list" "spent_key reserved_input list" "nullifier reserved_input list"
  | DoWatch "'c list"
  | DoForget "'c list"
  | DoRescan 'z i64
  | DoResync "('z, 'd, 'p) resync_commit"

fun wallet_act ::
  "('z, 'd, 'x, 'c) wallet_api \<Rightarrow> ('z, 'd, 'x) wallet_codec \<Rightarrow> ('z, 'd, 'x, 'c, 'p) wallet_action \<Rightarrow> ('z, 'd, 'x, 'p, unit) wallet_op" where
  "wallet_act A E (DoReserve dust us ss made expires) = reserve_pending E dust us ss made expires"
| "wallet_act A E (DoRelease dust us ss) = wallet_release E dust us ss"
| "wallet_act A E (DoWatch coins) = watch_for_coins A E coins"
| "wallet_act A E (DoForget coins) = forget_coins A E coins"
| "wallet_act A E (DoRescan z i) = commit_shielded_rescan E z i"
| "wallet_act A E (DoResync c) = commit_resync A E c"

text \<open>
  A commit whose cursors did not move brings the state that the wallet has: its replays applied
  nothing. Its UTXOs have hashes of 32 bytes.
\<close>

definition faithful_commit :: "('z, 'd, 'p) resync_commit \<Rightarrow> ('z, 'd, 'x, 'p) wallet \<Rightarrow> bool" where
  "faithful_commit c w \<longleftrightarrow> list_all utxo_sized (rc_utxos c) \<and>
     (cursors_advanced c w \<or> rc_dust_wallet c = wl_dust_wallet w \<and> rc_zswap_state c = wl_zswap_state w \<and>
       rc_utxos c = wl_utxos w \<and> rc_last_block_height c = wl_last_block_height w)"

fun faithful :: "('z, 'd, 'x, 'c, 'p) wallet_action \<Rightarrow> ('z, 'd, 'x, 'p) wallet \<Rightarrow> bool" where
  "faithful (DoResync c) w = faithful_commit c w"
| "faithful act w = True"

lemma clear_confirmed_same: "clear_confirmed spent ns p = (False, p') \<Longrightarrow> p' = p"
proof -
  have same: "filter P xs = xs" if "length (filter P xs) = length xs" for P and xs :: "'y list"
    using that length_filter_less [of _ xs P] by (metis filter_id_conv less_irrefl)
  assume "clear_confirmed spent ns p = (False, p')"
  then show ?thesis
    by (cases p) (auto simp: clear_confirmed_def Let_def same split: if_splits)
qed

lemma commit_resync_follows:
  assumes law: "wallet_law E" and before: "disk_follows E (w, d)" and faith: "faithful_commit c w"
    and run: "commit_resync A E c (w, d) = (r, w', d')"
  shows "disk_follows E (w', d')" "r = Ok () \<Longrightarrow> wl_has_storage w \<Longrightarrow> disk_current E w' d'"
proof -
  obtain changed p where p: "clear_confirmed (rc_spent_unshielded c) (rc_dust_nullifiers c) (wl_pending w) = (changed, p)" by fastforce
  let ?w1 = "(committed A c w)\<lparr>wl_pending := p\<rparr>"
  let ?changed = "cursors_advanced c w \<or> rc_parameters c \<noteq> wl_parameters w \<or> changed"
  have pend: "wl_pending (committed A c w) = wl_pending w" by (simp add: committed_def)
  have run': "persist E ?changed (?w1, d) = (r, w', d')"
    using run p by (simp add: commit_resync_def pend Let_def)
  have utxos: "list_all utxo_sized (wl_utxos ?w1)" using faith by (simp add: faithful_commit_def committed_def)
  have stale: "disk_current E ?w1 d" if "wl_has_storage ?w1" "\<not> ?changed" "\<not> wl_save_failed ?w1"
  proof -
    have "\<not> changed" using that(2) by blast
    then have "p = wl_pending w" using clear_confirmed_same p by metis
    moreover have "snapshot_of ?w1 = snapshot_of w"
      using that(2) faith by (auto simp: snapshot_of_def committed_def faithful_commit_def cursors_advanced_def)
    moreover have "disk_current E w d" using before that by (simp add: disk_follows_def committed_def)
    ultimately show ?thesis using disk_current_cong [of ?w1 w E d] by simp
  qed
  show "disk_follows E (w', d')" by (rule persist_follows(1) [OF law utxos run' stale])
  show "disk_current E w' d'" if "r = Ok ()" "wl_has_storage w"
    by (rule persist_follows(2) [OF law utxos run' stale that(1)]) (use that in \<open>simp_all add: committed_def\<close>)
qed

lemma forget_each_none: "forget_each A cs (z, forgot) = (z', False) \<Longrightarrow> z' = z \<and> \<not> forgot"
  by (induction cs arbitrary: z forgot) (auto simp: Let_def split: if_splits)

lemma wallet_act_follows:
  assumes law: "wallet_law E" and before: "disk_follows E (w, d)" and faith: "faithful act w"
  shows "disk_follows E (snd (wallet_act A E act (w, d)))"
proof -
  have utxos: "list_all utxo_sized (wl_utxos w)" using before by (simp add: disk_follows_def)
  have snap: "on_disk (wc_snapshot E) d = Ok (Some (snapshot_of w))" if "wl_has_storage w" "\<not> wl_save_failed w"
    using before that by (simp add: disk_follows_def disk_current_def)
  have pending: "disk_follows E (snd (persist_pending E (wl_pending_update f w, d)))" for f
  proof -
    obtain r w' d' where run: "persist_pending E (wl_pending_update f w, d) = (r, w', d')"
      by (cases "persist_pending E (wl_pending_update f w, d)") auto
    from persist_pending_follows [OF law _ run] utxos snap run show ?thesis by (simp add: snapshot_of_def)
  qed
  have saved: "disk_follows E (snd (persist E changed (w\<lparr>wl_zswap_state := z, wl_zswap_event_id := i\<rparr>, d)))"
    if "\<not> changed \<Longrightarrow> z = wl_zswap_state w \<and> i = wl_zswap_event_id w" for changed z i
  proof -
    obtain r w' d' where run: "persist E changed (w\<lparr>wl_zswap_state := z, wl_zswap_event_id := i\<rparr>, d) = (r, w', d')"
      by (cases "persist E changed (w\<lparr>wl_zswap_state := z, wl_zswap_event_id := i\<rparr>, d)") auto
    have "disk_follows E (w', d')"
      by (rule persist_follows(1) [OF law _ run]) (use utxos that before in \<open>auto simp: disk_follows_def\<close>)
    with run show ?thesis by simp
  qed
  show ?thesis
  proof (cases act)
    case (DoForget cs)
    obtain z forgot where z: "forget_each A cs (wl_zswap_state w, False) = (z, forgot)" by fastforce
    have same: "z = wl_zswap_state w" if "\<not> forgot" using forget_each_none z that by fastforce
    have "w\<lparr>wl_zswap_state := z\<rparr> = w\<lparr>wl_zswap_state := z, wl_zswap_event_id := wl_zswap_event_id w\<rparr>" by simp
    with saved [of forgot z "wl_zswap_event_id w"] same z DoForget show ?thesis
      by (simp add: forget_coins_def sbind_apply sm_simps modify_wallet_def)
  next
    case (DoWatch cs)
    let ?z = "fold (\<lambda>c z. wa_watch_for A z c) cs (wl_zswap_state w)"
    have "w\<lparr>wl_zswap_state := ?z, wl_zswap_event_id := wl_zswap_event_id w\<rparr> =
        wl_zswap_state_update (fold (\<lambda>c z. wa_watch_for A z c) cs) w" by simp
    with saved [of "cs \<noteq> []" ?z "wl_zswap_event_id w"] DoWatch show ?thesis
      by (simp add: watch_for_coins_def sbind_apply sm_simps modify_wallet_def)
  next
    case (DoResync c)
    obtain r w' d' where "commit_resync A E c (w, d) = (r, w', d')" by (cases "commit_resync A E c (w, d)") auto
    with commit_resync_follows(1) [OF law before _ this] faith DoResync show ?thesis by simp
  qed (use saved [of True] pending in \<open>simp_all add: reserve_pending_def wallet_release_def commit_shielded_rescan_def
      sbind_apply sm_simps modify_wallet_def\<close>)
qed

fun wallet_run ::
  "('z, 'd, 'x, 'c) wallet_api \<Rightarrow> ('z, 'd, 'x) wallet_codec \<Rightarrow> ('z, 'd, 'x, 'c, 'p) wallet_action list \<Rightarrow>
   ('z, 'd, 'x, 'p) wallet \<times> wallet_dir \<Rightarrow> ('z, 'd, 'x, 'p) wallet \<times> wallet_dir" where
  "wallet_run A E [] s = s"
| "wallet_run A E (act # acts) s = wallet_run A E acts (snd (wallet_act A E act s))"

fun faithful_run ::
  "('z, 'd, 'x, 'c) wallet_api \<Rightarrow> ('z, 'd, 'x) wallet_codec \<Rightarrow> ('z, 'd, 'x, 'c, 'p) wallet_action list \<Rightarrow>
   ('z, 'd, 'x, 'p) wallet \<times> wallet_dir \<Rightarrow> bool" where
  "faithful_run A E [] s = True"
| "faithful_run A E (act # acts) s = (faithful act (fst s) \<and> faithful_run A E acts (snd (wallet_act A E act s)))"

text \<open>
  C0: whatever a wallet with a storage directory does after its sync, and whatever file operations
  fail on the way: when its last save did not fail, a load finds the state that it has in memory and
  the reservations that it holds. The flag of a failed save is what the next commit retries by.
\<close>

theorem disk_follows_memory:
  assumes "wallet_law E" "disk_follows E s" "faithful_run A E acts s"
  shows "disk_follows E (wallet_run A E acts s)"
  using assms(2,3)
proof (induction acts arbitrary: s)
  case (Cons act acts)
  obtain w d where s: "s = (w, d)" by (cases s)
  have "disk_follows E (snd (wallet_act A E act (w, d)))"
    by (rule wallet_act_follows [OF assms(1)]) (use Cons.prems s in simp_all)
  with Cons s show ?case by simp
qed simp

section \<open>No build selects what another holds\<close>

text \<open>What an action does to the reservations.\<close>

fun act_event :: "('z, 'd, 'x, 'c, 'p) wallet_action \<Rightarrow> 'x pending_event" where
  "act_event (DoReserve dust us ss made expires) = Reserve dust us ss made expires"
| "act_event (DoRelease dust us ss) = Release dust us ss"
| "act_event (DoResync c) = Confirmed (rc_spent_unshielded c) (rc_dust_nullifiers c)"
| "act_event act = Reserve [] [] [] 0 0"

lemma persist_pending_keeps: "wl_pending (fst (snd (persist E changed (w, d)))) = wl_pending w"
  "wl_pending (fst (snd (persist_pending E (w, d)))) = wl_pending w"
  by (simp_all add: persist_def persist_pending_def split: prod.split)

lemma wallet_act_pending:
  "wl_pending (fst (snd (wallet_act A E act (w, d)))) = pending_step (act_event act) (wl_pending w)"
proof (cases act)
  case (DoResync c)
  have "wl_pending (committed A c w) = wl_pending w" by (simp add: committed_def)
  with DoResync show ?thesis
    by (simp add: commit_resync_def Let_def persist_pending_keeps split: prod.split)
next
  case (DoForget cs)
  then show ?thesis
    by (cases "forget_each A cs (wl_zswap_state w, False)")
      (simp add: forget_coins_def sbind_apply sm_simps modify_wallet_def persist_pending_keeps reserve_def)
qed (simp_all add: reserve_pending_def wallet_release_def watch_for_coins_def commit_shielded_rescan_def sbind_apply sm_simps
    modify_wallet_def persist_pending_keeps reserve_def)

lemma wallet_run_pending:
  "wl_pending (fst (wallet_run A E acts s)) = pending_run (map act_event acts) (wl_pending (fst s))"
proof (induction acts arbitrary: s)
  case (Cons act acts)
  then show ?case using wallet_act_pending [of A E act "fst s" "snd s"] by simp
qed simp

text \<open>The UTXOs that a context offers to a build.\<close>

definition offered :: "('z, 'd) funding \<Rightarrow> spent_key set" where
  "offered ctx = (\<lambda>u. \<lparr>sk_intent = lu_intent_hash (fst u), sk_output = lu_output_no (fst u)\<rparr>) ` set (fu_utxos ctx)"

lemma set_alist_update: "set (AList.update k v xs) \<subseteq> insert (k, v) (set xs)"
  by (induction xs) auto

lemma fund_utxos_offers:
  "x \<in> set (fund_utxos owner ctime reserved utxos us) \<Longrightarrow>
   x \<in> set us \<or> (\<exists>u \<in> set utxos. spent_key_of u \<notin> set reserved \<and> fst x = tracked_to_ledger_utxo u owner)"
proof (induction utxos arbitrary: us)
  case (Cons u utxos)
  let ?us = "if spent_key_of u \<in> set reserved then us else AList.update (tracked_to_ledger_utxo u owner) ctime us"
  have "x \<in> set (fund_utxos owner ctime reserved utxos ?us)" using Cons.prems by (simp add: fund_utxos_def)
  from Cons.IH [OF this] show ?case using set_alist_update [of "tracked_to_ledger_utxo u owner" ctime us] by (auto split: if_splits)
qed (simp add: fund_utxos_def)

lemma evict_pending_simps [simp]:
  "wl_utxos (evict_pending w) = wl_utxos w" "wl_block_context (evict_pending w) = wl_block_context w"
  "wl_zswap_state (evict_pending w) = wl_zswap_state w" "wl_dust_wallet (evict_pending w) = wl_dust_wallet w"
  "reservation_holds (evict_pending w) t = reservation_holds w t"
  by (simp_all add: evict_pending_def reservation_holds_def split: option.split)

lemma evict_pending_reserved [simp]:
  "reserved_unshielded_keys (evict_pending w) = reserved_unshielded_keys w"
  "reserved_shielded_nullifiers (evict_pending w) = reserved_shielded_nullifiers w"
  "rv_dust (wl_pending (evict_pending w)) = filter (\<lambda>b. reservation_holds w (pd_expires_at b)) (rv_dust (wl_pending w))"
  unfolding reserved_unshielded_keys_def reserved_shielded_nullifiers_def evict_pending_simps
  by (simp_all add: evict_pending_def evict_expired_def reservation_holds_def split: option.split)

text \<open>The ledger removes a coin from a state by its nullifier.\<close>

definition removes_coins :: "('z, 'd, 'x, 'c) wallet_api \<Rightarrow> bool" where
  "removes_coins A \<longleftrightarrow> (\<forall>z n. wa_coins A (wa_remove_coin A z n) = filter (\<lambda>c. fst c \<noteq> n) (wa_coins A z))"

lemma removed_coins:
  "removes_coins A \<Longrightarrow> wa_coins A (fold (\<lambda>n z. wa_remove_coin A z n) ns z) = filter (\<lambda>c. fst c \<notin> set ns) (wa_coins A z)"
  by (induction ns arbitrary: z) (auto simp: removes_coins_def intro!: filter_cong)

lemma add_funding_result:
  assumes "add_funding A w ctx = (Ok (), w', ctx')"
  shows "offered ctx' \<subseteq> offered ctx \<union> (spent_key_of ` set (wl_utxos w) - set (reserved_unshielded_keys w))"
    "fu_wallets ctx' = fu_wallets ctx @
       [(wl_seed w, fold (\<lambda>n z. wa_remove_coin A z n) (reserved_shielded_nullifiers w) (wl_zswap_state w),
         fold (\<lambda>b d. wa_mark_spent A d (pd_spends b))
           (filter (\<lambda>b. reservation_holds w (pd_expires_at b)) (rv_dust (wl_pending w))) (wl_dust_wallet w))]"
proof -
  let ?us = "fund_utxos (wa_owner A (wl_seed w)) (utxo_ctime (wl_block_context w)) (reserved_unshielded_keys w) (wl_utxos w) (fu_utxos ctx)"
  let ?bs = "filter (\<lambda>b. reservation_holds w (pd_expires_at b)) (rv_dust (wl_pending w))"
  obtain d where d: "fund_dust A ?bs (wl_dust_wallet w) = Ok d"
    "fu_utxos ctx' = ?us" "fu_wallets ctx' = fu_wallets ctx @
       [(wl_seed w, fold (\<lambda>n z. wa_remove_coin A z n) (reserved_shielded_nullifiers w) (wl_zswap_state w), d)]"
    using assms by (auto simp: add_funding_def Let_def split: if_splits res.splits)
  show "offered ctx' \<subseteq> offered ctx \<union> (spent_key_of ` set (wl_utxos w) - set (reserved_unshielded_keys w))"
    using fund_utxos_offers [where owner = "wa_owner A (wl_seed w)" and us = "fu_utxos ctx"] unfolding offered_def d(2)
    by (fastforce simp: tracked_to_ledger_utxo_def spent_key_of_def)
  have "d = fold (\<lambda>b d. wa_mark_spent A d (pd_spends b)) ?bs (wl_dust_wallet w)"
    using d(1) by (auto simp: fund_dust_def split: if_splits)
  with d(3) show "fu_wallets ctx' = fu_wallets ctx @
       [(wl_seed w, fold (\<lambda>n z. wa_remove_coin A z n) (reserved_shielded_nullifiers w) (wl_zswap_state w),
         fold (\<lambda>b d. wa_mark_spent A d (pd_spends b)) ?bs (wl_dust_wallet w))]" by simp
qed

text \<open>The reservations of a wallet that its actions did not give up and that have not expired since.\<close>

definition still_held ::
  "('z, 'd, 'x, 'p) wallet \<Rightarrow> ('z, 'd, 'x, 'c, 'p) wallet_action list \<Rightarrow> 'x reservations \<Rightarrow> 'x reservations" where
  "still_held now acts p =
     \<lparr>rv_dust = filter (\<lambda>b. \<not> list_ex (gives_up_dust b) (map act_event acts) \<and> reservation_holds now (pd_expires_at b)) (rv_dust p),
      rv_unshielded = filter (\<lambda>e. \<not> list_ex (gives_up_unshielded e) (map act_event acts) \<and> reservation_holds now (pu_expires_at e))
        (rv_unshielded p),
      rv_shielded = filter (\<lambda>e. \<not> list_ex (gives_up_shielded e) (map act_event acts) \<and> reservation_holds now (ps_expires_at e))
        (rv_shielded p)\<rparr>"

text \<open>
  C0: what a build reserved is not offered to a later one. Between the two the wallet may reserve,
  release, resync, rescan and register coins, and its files may fail; as long as the reservation was
  not confirmed, handed back or expired, the later build gets neither the reserved UTXO nor the
  reserved coin, and a Dust state with the reserved spends marked as spent.
\<close>

theorem no_double_selection:
  assumes "removes_coins A" "add_funding A (fst (wallet_run A E acts s)) ctx = (Ok (), w', ctx')"
  shows "pu_key ` set (rv_unshielded (still_held (fst (wallet_run A E acts s)) acts (wl_pending (fst s)))) \<inter> offered ctx' \<subseteq> offered ctx \<and>
    (\<exists>z marked. fu_wallets ctx' = fu_wallets ctx @ [(wl_seed (fst (wallet_run A E acts s)), z,
        fold (\<lambda>b d. wa_mark_spent A d (pd_spends b)) marked (wl_dust_wallet (fst (wallet_run A E acts s))))] \<and>
      ps_nullifier ` set (rv_shielded (still_held (fst (wallet_run A E acts s)) acts (wl_pending (fst s)))) \<inter> fst ` set (wa_coins A z) = {} \<and>
      set (rv_dust (still_held (fst (wallet_run A E acts s)) acts (wl_pending (fst s)))) \<subseteq> set marked)"
proof -
  let ?w = "fst (wallet_run A E acts s)" and ?p = "wl_pending (fst s)"
  let ?held = "still_held ?w acts ?p"
  have pending: "wl_pending ?w = pending_run (map act_event acts) ?p" by (rule wallet_run_pending)
  have keys: "pu_key ` set (rv_unshielded ?held) \<subseteq> set (reserved_unshielded_keys ?w)"
    using pending_run_unshielded [of _ ?p "map act_event acts"]
    by (auto simp: still_held_def reserved_unshielded_keys_def pending list_ex_iff)
  have coins: "ps_nullifier ` set (rv_shielded ?held) \<subseteq> set (reserved_shielded_nullifiers ?w)"
    using pending_run_shielded [of _ ?p "map act_event acts"]
    by (auto simp: still_held_def reserved_shielded_nullifiers_def pending list_ex_iff)
  have dust: "set (rv_dust ?held) \<subseteq> set (filter (\<lambda>b. reservation_holds ?w (pd_expires_at b)) (rv_dust (wl_pending ?w)))"
    using pending_run_dust [of _ ?p "map act_event acts"] by (auto simp: still_held_def pending list_ex_iff)
  show ?thesis
    using add_funding_result [OF assms(2)] removed_coins [OF assms(1)] keys coins dust by fastforce
qed

section \<open>A wallet that rescans, and one that builds twice\<close>

definition sample_wallet_api :: "(bytes, bytes, unit, nullifier) wallet_api" where
  "sample_wallet_api =
     \<lparr>wa_watch_for = (\<lambda>z c. z), wa_commitment = (\<lambda>c. c), wa_pending_outputs = (\<lambda>z. []), wa_remove_output = (\<lambda>z k. z),
      wa_coins = map (\<lambda>b. ([b], [b])), wa_remove_coin = (\<lambda>z n. filter (\<lambda>b. [b] \<noteq> n) z), wa_has_dust_state = (\<lambda>d. True),
      wa_mark_spent = (\<lambda>d ss. d @ concat (map ds_old_nullifier ss)), wa_owner = (\<lambda>seed. []), wa_plus = (\<lambda>t s. t + word_of_int s)\<rparr>"

definition sample_wallet_codec :: "(bytes, bytes, unit) wallet_codec" where
  "sample_wallet_codec = \<lparr>wc_snapshot = sample_snapshot_codec, wc_pending = sample_codec\<rparr>"

definition sample_wallet :: "(bytes, bytes, unit, unit) wallet" where
  "sample_wallet =
     \<lparr>wl_seed = ''s'', wl_zswap_state = [1], wl_zswap_event_id = 1, wl_dust_wallet = [1], wl_dust_event_id = 5,
      wl_utxos = [sample_utxo], wl_last_block_height = 6, wl_last_tx_id = None, wl_chain_pin = None,
      wl_parameters = \<lparr>lp_global_ttl = 60, lp_dust_grace_period = 30, lp_night_dust_ratio = 1, lp_generation_decay_rate = 1,
        lp_overall_price = 1, lp_rest = ()\<rparr>,
      wl_block_context = Some \<lparr>bc_tblock = 4000, bc_last_block_time = 4000\<rparr>, wl_pending = no_reservations,
      wl_has_storage = True, wl_save_failed = False\<rparr>"

lemma sample_wallet_law: "wallet_law sample_wallet_codec"
  using sample_snapshot_law by (simp add: wallet_law_def sample_wallet_codec_def) (simp add: sample_snapshot_codec_def)

lemma sample_to_stored_none: "to_stored sample_codec V9 no_reservations =
    Ok \<lparr>st_ledger_version = V9, st_dust = [], st_unshielded = [], st_shielded = []\<rparr>"
  by (simp add: to_stored_def no_reservations_def)

lemma sample_pending_save: "wd_faults d = [] \<Longrightarrow> wd_pending d = None \<Longrightarrow> pending_save sample_wallet_codec no_reservations d = (Ok (), d)"
  by (simp add: pending_save_def sample_wallet_codec_def sample_snapshot_codec_def sample_to_stored_none save_pending_def
      stored_is_empty_def save_unfold del: sbind_Ok_iff)

lemma sample_wallet_snapshot: "snapshot_of sample_wallet = sample_snapshot 1"
  by (simp add: snapshot_of_def sample_wallet_def sample_snapshot_def)

lemma sample_wallet_pending: "wl_pending sample_wallet = no_reservations"
  by (simp add: sample_wallet_def)

lemma sample_wallet_follows: "disk_follows sample_wallet_codec (sample_wallet, sample_dir)"
proof -
  have "stored_reservations sample_wallet_codec no_reservations sample_dir"
    unfolding stored_reservations_def pending_on_disk_eq
    by (intro exI [of _ "\<lparr>st_ledger_version = V9, st_dust = [], st_unshielded = [], st_shielded = []\<rparr>"])
      (simp add: sample_wallet_codec_def sample_snapshot_codec_def sample_to_stored_none stored_is_empty_def sample_dir_def)
  moreover have "list_all utxo_sized (wl_utxos sample_wallet)"
    by (simp add: sample_wallet_def utxo_sized_def sample_utxo_def)
  moreover have "on_disk (wc_snapshot sample_wallet_codec) sample_dir = Ok (Some (sample_snapshot 1))"
    using sample_dir_holds by (simp add: sample_wallet_codec_def)
  ultimately show ?thesis
    by (simp add: disk_follows_def disk_current_def sample_wallet_snapshot sample_wallet_pending)
qed

text \<open>A rescan writes a new shielded state beside the old Dust state.\<close>

definition sample_rescanned :: "(bytes, bytes) wallet_snapshot" where
  "sample_rescanned = (sample_snapshot 2)\<lparr>sn_dust_wallet := [1]\<rparr>"

lemma sample_rescan_save:
  "save sample_snapshot_codec sample_rescanned sample_dir =
     (Ok (), \<lparr>wd_metadata = Some ''gg,ii'', wd_zswap = [2 \<mapsto> [2]], wd_dust = [2 \<mapsto> [1]], wd_pending = None, wd_faults = []\<rparr>)"
proof -
  have two: "replicate 2 c = [c, c]" for c :: char by (simp add: numeral_2_eq_2)
  have meta: "metadata_of sample_snapshot_codec sample_rescanned = sample_metadata 0 2"
    using sample_metadata_of [of 2] by (simp add: metadata_of_def sample_rescanned_def)
  show ?thesis
    unfolding save_def meta
    by (simp add: save_unfold sample_dir_def del: sbind_Ok_iff)
      (simp add: sample_snapshot_codec_def sample_rescanned_def sample_snapshot_def save_unfold fun_eq_iff two del: sbind_Ok_iff)
qed

lemma sample_rescan:
  "snd (commit_shielded_rescan sample_wallet_codec [2] 2 (sample_wallet, sample_dir)) =
     (sample_wallet\<lparr>wl_zswap_state := [2], wl_zswap_event_id := 2\<rparr>,
      \<lparr>wd_metadata = Some ''gg,ii'', wd_zswap = [2 \<mapsto> [2]], wd_dust = [2 \<mapsto> [1]], wd_pending = None, wd_faults = []\<rparr>)"
proof -
  let ?w = "sample_wallet\<lparr>wl_zswap_state := [2], wl_zswap_event_id := 2\<rparr>"
  have "snapshot_of ?w = sample_rescanned" "wl_pending ?w = no_reservations" "wl_has_storage ?w" "\<not> wl_save_failed ?w"
    by (simp_all add: snapshot_of_def sample_wallet_def sample_rescanned_def sample_snapshot_def)
  moreover have "?w\<lparr>wl_save_failed := False\<rparr> = ?w" by (simp add: sample_wallet_def)
  moreover have "wc_snapshot sample_wallet_codec = sample_snapshot_codec" by (simp add: sample_wallet_codec_def)
  ultimately show ?thesis
    by (simp add: commit_shielded_rescan_def persist_def wallet_save_def modify_wallet_def sbind_apply sm_simps sample_rescan_save
        sample_pending_save del: sbind_Ok_iff)
qed

theorem disk_follows_memory_witness:
  "on_disk sample_snapshot_codec (snd (wallet_run sample_wallet_api sample_wallet_codec [DoRescan [2] 2] (sample_wallet, sample_dir))) =
     Ok (Some sample_rescanned)"
proof -
  let ?w = "sample_wallet\<lparr>wl_zswap_state := [2], wl_zswap_event_id := 2\<rparr>"
  have "snapshot_of ?w = sample_rescanned" "wl_has_storage ?w" "\<not> wl_save_failed ?w"
    by (simp_all add: snapshot_of_def sample_wallet_def sample_rescanned_def sample_snapshot_def)
  moreover have "wc_snapshot sample_wallet_codec = sample_snapshot_codec" by (simp add: sample_wallet_codec_def)
  ultimately show ?thesis
    using disk_follows_memory [OF sample_wallet_law sample_wallet_follows, of sample_wallet_api "[DoRescan [2] 2]"]
    by (simp add: sample_rescan disk_follows_def disk_current_def)
qed

text \<open>A wallet that holds what the sample reserves, and another UTXO.\<close>

definition held_utxo :: "u32 \<Rightarrow> tracked_utxo" where
  "held_utxo i = sample_utxo\<lparr>tu_intent := replicate 32 98, tu_output := i\<rparr>"

definition sample_reserved :: "(bytes, bytes, unit, unit) wallet" where
  "sample_reserved = sample_wallet
     \<lparr>wl_zswap_state := [98, 99, 100], wl_utxos := [held_utxo 2, held_utxo 3], wl_pending := sample_reservations,
      wl_block_context := Some \<lparr>bc_tblock = 20, bc_last_block_time = 20\<rparr>, wl_has_storage := False\<rparr>"

definition later_reserved :: "(bytes, bytes, unit, unit) wallet" where
  "later_reserved = fst (wallet_run sample_wallet_api sample_wallet_codec [DoReserve [] [] [[98]] 15 60] (sample_reserved, sample_dir))"

definition empty_funding :: "(bytes, bytes) funding" where
  "empty_funding = \<lparr>fu_utxos = [], fu_wallets = [], fu_context = None\<rparr>"

lemma later_reserved_simps:
  "later_reserved = sample_reserved\<lparr>wl_pending := reserve [] [] [[98]] 15 60 sample_reservations\<rparr>"
  by (simp add: later_reserved_def reserve_pending_def persist_pending_def modify_wallet_def sample_reserved_def sbind_apply sm_simps)

lemma sample_funding:
  "add_funding sample_wallet_api later_reserved empty_funding = (Ok (), later_reserved,
     \<lparr>fu_utxos = [(tracked_to_ledger_utxo (held_utxo 3) [], 0)], fu_wallets = [(''s'', [100], [1, 97])],
      fu_context = Some \<lparr>bc_tblock = 20, bc_last_block_time = 20\<rparr>\<rparr>)"
proof -
  have keys: "reserved_unshielded_keys later_reserved = [spent_key_of (held_utxo 2)]"
    "reserved_shielded_nullifiers later_reserved = [[99], [98]]" "evict_pending later_reserved = later_reserved"
    by (simp_all add: later_reserved_simps reserved_unshielded_keys_def reserved_shielded_nullifiers_def evict_pending_def
        reserve_def sample_reservations_def evict_expired_def within_ttl_def chain_time_def reservation_holds_def
        sample_reserved_def spent_key_of_def held_utxo_def)
  have "spent_key_of (held_utxo 3) \<noteq> spent_key_of (held_utxo 2)" by (simp add: spent_key_of_def held_utxo_def)
  then have "fund_utxos [] 0 [spent_key_of (held_utxo 2)] [held_utxo 2, held_utxo 3] [] =
      [(tracked_to_ledger_utxo (held_utxo 3) [], 0)]"
    by (simp add: fund_utxos_def)
  then show ?thesis
    unfolding add_funding_def Let_def keys
    by (simp add: later_reserved_simps empty_funding_def sample_reserved_def sample_wallet_def reserve_def sample_reservations_def
        sample_wallet_api_def utxo_ctime_def fund_dust_def)
qed

theorem no_double_selection_witness:
  "spent_key_of (held_utxo 2) \<notin> offered (snd (snd (add_funding sample_wallet_api later_reserved empty_funding))) \<and>
   fst (add_funding sample_wallet_api later_reserved empty_funding) = Ok ()"
proof -
  have "removes_coins sample_wallet_api" by (auto simp: removes_coins_def sample_wallet_api_def filter_map comp_def intro!: filter_cong)
  from no_double_selection [OF this sample_funding [unfolded later_reserved_def]]
  have "pu_key ` set (rv_unshielded (still_held later_reserved [DoReserve [] [] [[98]] 15 60 :: (bytes, bytes, unit, nullifier, unit) wallet_action]
        (wl_pending sample_reserved))) \<inter>
      offered (snd (snd (add_funding sample_wallet_api later_reserved empty_funding))) \<subseteq> offered empty_funding"
    unfolding later_reserved_def [symmetric] sample_funding snd_conv fst_conv by (rule conjunct1)
  moreover have "offered empty_funding = {}" by (simp add: offered_def empty_funding_def)
  moreover have "spent_key_of (held_utxo 2) \<in> pu_key ` set (rv_unshielded (still_held later_reserved
      [DoReserve [] [] [[98]] 15 60 :: (bytes, bytes, unit, nullifier, unit) wallet_action] (wl_pending sample_reserved)))"
    by (simp add: still_held_def later_reserved_simps sample_reserved_def sample_reservations_def reservation_holds_def
        within_ttl_def chain_time_def spent_key_of_def held_utxo_def)
  ultimately show ?thesis using sample_funding by auto
qed

end
