(* ===== verification/WalletResync.thy ===== *)
theory WalletResync
  imports WalletState
begin

text \<open>
  The replay phase of a resync and of a shielded rescan on one ledger generation,
  \<^verbatim>\<open>ResyncPlan\<close> and \<^verbatim>\<open>ShieldedRescanPlan\<close> of
  \<^verbatim>\<open>crates/midnight-wallet/src/per_ledger/state.rs\<close>, and what a resync leaves on disk when it is
  planned, run against any indexer, and committed.
\<close>

section \<open>What a sync is given\<close>

text \<open>What a ledger generation brings to a wallet: the operations on its states, and their encodings.\<close>

record ('e, 'z, 'd, 'x, 'c, 'p) generation =
  gn_host :: wallet_host
  gn_api :: "('e, 'z, 'd) ledger_api"
  gn_wallet :: "('z, 'd, 'x, 'c) wallet_api"
  gn_codec :: "('z, 'd, 'x) wallet_codec"
  gn_parameters :: "bytes \<Rightarrow> 'p ledger_parameters option"
  gn_empty :: 'z
  gn_fresh_dust :: "string \<Rightarrow> 'p ledger_parameters \<Rightarrow> 'd"

text \<open>
  What the indexer gives to one sync: the latest block, a stream for each shielded replay that the
  sync makes, the other two streams, and how many connections the unshielded one gets. Of the two
  replays that end at the first failure, the environment says which one ends first.
\<close>

record indexer_view =
  iv_block :: block_query
  iv_zswap :: "nat \<Rightarrow> ledger_msg indexer"
  iv_dust :: "ledger_msg indexer"
  iv_unshielded :: "unshielded_msg indexer"
  iv_connections :: nat
  iv_unshielded_first :: bool

text \<open>\<^verbatim>\<open>id + 1\<close>: a panic of a debug build at the largest id.\<close>

definition next_id :: "i64 \<Rightarrow> (wallet_error, i64) res" where
  "next_id i = (if sint i = i64_max then Panic else Ok (i + 1))"

definition first_tx :: "i64 option \<Rightarrow> (wallet_error, i64) res" where
  "first_tx last_id = (case last_id of None \<Rightarrow> Ok 0 | Some i \<Rightarrow> next_id i)"

definition source_of :: "wallet_host \<Rightarrow> i64 \<Rightarrow> bool \<Rightarrow> bool \<Rightarrow> replay_source" where
  "source_of W start resuming sender = \<lparr>rs_host = W, rs_start = start, rs_resuming = resuming, rs_sender = sender\<rparr>"

text \<open>The stop of a replay at another generation.\<close>

definition no_later :: "ledger_version \<Rightarrow> (i64 \<times> ledger_version) option \<Rightarrow> (wallet_error, unit) res" where
  "no_later ledger later = (case later of None \<Rightarrow> Ok () | Some (i, found) \<Rightarrow> expect_ledger ledger found)"

text \<open>Futures that are awaited together: a panic of one of them is a panic of all.\<close>

definition unpanicked :: "('e, unit) res list \<Rightarrow> ('e, unit) res" where
  "unpanicked rs = (if Panic \<in> set rs then Panic else if NoFuel \<in> set rs then NoFuel else Ok ())"

section \<open>A resync\<close>

record ('z, 'd) resync_plan =
  rp_dust_wallet :: 'd
  rp_dust_event_id :: i64
  rp_zswap_state :: 'z
  rp_zswap_event_id :: i64
  rp_utxos :: "tracked_utxo list"
  rp_last_tx_id :: "i64 option"
  rp_last_block_height :: i64

definition resync_plan_of :: "('z, 'd, 'x, 'p) wallet \<Rightarrow> ('z, 'd) resync_plan" where
  "resync_plan_of w =
     \<lparr>rp_dust_wallet = wl_dust_wallet w, rp_dust_event_id = wl_dust_event_id w, rp_zswap_state = wl_zswap_state w,
      rp_zswap_event_id = wl_zswap_event_id w, rp_utxos = wl_utxos w, rp_last_tx_id = wl_last_tx_id w,
      rp_last_block_height = wl_last_block_height w\<rparr>"

definition run_resync_plan ::
  "('e, 'z, 'd, 'x, 'c, 'p) generation \<Rightarrow> indexer_view \<Rightarrow> ('z, 'd) resync_plan \<Rightarrow>
   (wallet_error, ('z, 'd, 'p) resync_commit) res" where
  "run_resync_plan G X p =
     (let W = gn_host G; L = gn_api G in
      rbind (first_tx (rp_last_tx_id p)) (\<lambda>start_tx.
      rbind (next_id (rp_dust_event_id p)) (\<lambda>start_dust.
      rbind (next_id (rp_zswap_event_id p)) (\<lambda>start_zswap.
      let dust_res = replay_dust_events L (source_of W start_dust True False) None (iv_dust X) (rp_dust_wallet p);
          zswap_res = replay_zswap_events L (source_of W start_zswap True False) (iv_zswap X 0) (rp_zswap_state p);
          unshielded_res = replay_unshielded_events
            \<lparr>ua_host = W, ua_start = start_tx, ua_resuming = True, ua_sender = False\<rparr>
            (iv_unshielded X) (iv_connections X) (rp_utxos p) (rp_last_block_height p) in
      rbind (unpanicked [rmap (\<lambda>_. ()) dust_res, rmap (\<lambda>_. ()) zswap_res, rmap (\<lambda>_. ()) unshielded_res]) (\<lambda>_.
      rbind dust_res (\<lambda>dust.
      rbind zswap_res (\<lambda>zswap.
      rbind unshielded_res (\<lambda>unshielded.
      rbind (latest_block (iv_block X)) (\<lambda>block.
      rbind (rbind (ledger_of W block) (expect_ledger (la_ledger L))) (\<lambda>_.
      rbind (no_later (la_ledger L) (zr_later zswap)) (\<lambda>_.
      rbind (no_later (la_ledger L) (dy_later dust)) (\<lambda>_.
      rbind (block_time block) (\<lambda>chain_tblock.
      rbind (decode_ledger_parameters W (gn_parameters G) block) (\<lambda>parameters.
      Ok \<lparr>rc_dust_wallet = dy_wallet dust, rc_dust_event_id = dy_last_id dust,
          rc_last_dust_block_time = dy_last_block_time dust, rc_dust_nullifiers = dy_spend_nullifiers dust,
          rc_zswap_state = zr_state zswap, rc_zswap_event_id = zr_last_id zswap,
          rc_utxos = ur_utxos unshielded, rc_last_tx_id = ur_last_tx_id unshielded,
          rc_last_block_height = ur_last_block_height unshielded, rc_spent_unshielded = ur_spent unshielded,
          rc_chain_tblock = chain_tblock, rc_parameters = parameters\<rparr>))))))))))))))"

section \<open>A shielded rescan\<close>

text \<open>The state that a replay from the first event starts in: empty, with the coins registered.\<close>

definition rescan_start :: "('e, 'z, 'd, 'x, 'c, 'p) generation \<Rightarrow> 'c list \<Rightarrow> 'z" where
  "rescan_start G coins = fold (\<lambda>c z. wa_watch_for (gn_wallet G) z c) coins (gn_empty G)"

definition rescan_coins :: "('e, 'z, 'd, 'x, 'c, 'p) generation \<Rightarrow> ('z, 'd, 'x, 'p) wallet \<Rightarrow> 'c list" where
  "rescan_coins G w = coins_to_register (gn_wallet G) (wl_zswap_state w)"

definition run_rescan_plan ::
  "('e, 'z, 'd, 'x, 'c, 'p) generation \<Rightarrow> ledger_msg indexer \<Rightarrow> 'z \<Rightarrow> (wallet_error, 'z \<times> i64) res" where
  "run_rescan_plan G server start =
     rbind (replay_zswap_events (gn_api G) (source_of (gn_host G) 0 False False) server start) (\<lambda>r.
     rbind (no_later (la_ledger (gn_api G)) (zr_later r)) (\<lambda>_.
     Ok (zr_state r, zr_last_id r)))"

section \<open>A replay whose cursor did not move\<close>

lemma next_id_Ok:
  assumes "next_id i = Ok j" "0 \<le> sint i"
  shows "j = i + 1" "0 < sint j" "j - 1 = i" "sint j = sint i + 1"
proof -
  have j: "j = i + 1" "sint i < i64_max"
    using assms(1) sint_lt [of i] by (auto simp: next_id_def split: if_splits)
  then have "sint j = sint i + 1" using sint_plus_1 by blast
  with j assms(2) show "j = i + 1" "0 < sint j" "j - 1 = i" "sint j = sint i + 1" by simp_all
qed

lemma unmoved_replay:
  assumes run: "fst (replay_ledger_events A server acc) = Ok r" and start: "0 < sint (ra_start A)"
    and same: "le_last_id r = ra_start A - 1"
  shows "le_acc r = acc"
proof (rule replay_in_order [OF run], goal_cases)
  case (1 es)
  have "es = []"
  proof (rule ccontr)
    assume "es \<noteq> []"
    with 1 start have "sint (ra_start A) \<le> sint (fst (last es))" "fst (last es) = ra_start A - 1"
      using same by (auto simp: list_all_iff)
    with sint_minus_1 [OF start] show False by simp
  qed
  with 1 show ?case by simp
qed

lemma unmoved_zswap:
  assumes "replay_zswap_events L S server z = Ok r" "0 < sint (rs_start S)" "zr_last_id r = rs_start S - 1"
  shows "zr_state r = z"
proof -
  let ?A = "source_args S ZswapStream (la_ledger L) (zswap_apply L)"
  obtain q b where q: "fst (replay_ledger_events ?A server (z, batch_new)) = Ok q" "zswap_flush L (le_acc q) = Ok (zr_state r, b)"
    "zr_last_id r = le_last_id q"
    using assms(1) by (auto simp: replay_zswap_events_def)
  have "le_acc q = (z, batch_new)" by (rule unmoved_replay [OF q(1)]) (use assms q in \<open>simp_all add: source_args_def\<close>)
  with q(2) show ?thesis by (simp add: zswap_flush_eq batch_new_def)
qed

lemma unmoved_dust:
  assumes "replay_dust_events L S every server w = Ok r" "0 < sint (rs_start S)" "dy_last_id r = rs_start S - 1"
  shows "dy_wallet r = w"
proof -
  let ?A = "source_args S DustStream (la_ledger L) (dust_apply L every)"
  obtain q st where q: "fst (replay_ledger_events ?A server (dust_init w)) = Ok q" "dust_flush L (le_acc q) = Ok st"
    "dy_last_id r = le_last_id q" "dy_wallet r = dt_wallet st"
    using assms(1) by (auto simp: replay_dust_events_def)
  have "le_acc q = dust_init w" by (rule unmoved_replay [OF q(1)]) (use assms q in \<open>simp_all add: source_args_def\<close>)
  with q(2) have "st = dust_init w" by (simp add: dust_flush_def batch_apply_dust_def dust_init_def batch_new_def)
  with q(4) show ?thesis by (simp add: dust_init_def)
qed

text \<open>The indexer names every transaction that it delivers.\<close>

fun named_msg :: "unshielded_msg \<Rightarrow> bool" where
  "named_msg (UnshieldedTx tx) = (ut_id tx \<noteq> None)"
| "named_msg (UnshieldedProgress target) = True"

definition names_txs :: "unshielded_msg indexer \<Rightarrow> bool" where
  "names_txs server \<longleftrightarrow> (\<forall>k i fs ending. server k i = Delivers fs ending \<longrightarrow> list_all (\<lambda>f. named_msg (frame_msg f)) fs)"

text \<open>How far a state has gone beyond another: new UTXOs come with a higher cursor.\<close>

definition moved_on :: "unshielded_state \<Rightarrow> unshielded_state \<Rightarrow> bool" where
  "moved_on st st' \<longleftrightarrow> sint (us_height st) \<le> sint (us_height st') \<and> sint (us_last st) \<le> sint (us_last st') \<and>
     (us_utxos st' = us_utxos st \<or> sint (us_last st) < sint (us_last st'))"

definition moved_to :: "unshielded_state \<Rightarrow> unshielded_replay \<Rightarrow> bool" where
  "moved_to st r \<longleftrightarrow> (\<exists>st'. moved_on st st' \<and> ur_utxos r = us_utxos st' \<and> ur_last_block_height r = us_height st' \<and>
     sint (us_last st') \<le> sint (ur_last_tx_id r))"

lemma moved_on_refl [simp]: "us_height st' = us_height st \<Longrightarrow> us_last st' = us_last st \<Longrightarrow> us_utxos st' = us_utxos st \<Longrightarrow> moved_on st st'"
  by (simp add: moved_on_def)

lemma moved_on_trans: "moved_on a b \<Longrightarrow> moved_on b c \<Longrightarrow> moved_on a c"
  by (auto simp: moved_on_def)

lemma moved_to_trans: "moved_on a b \<Longrightarrow> moved_to b r \<Longrightarrow> moved_to a r"
  unfolding moved_to_def using moved_on_trans by blast

lemma moved_to_result:
  "moved_on st st' \<Longrightarrow> moved_to st (unshielded_result st')" "moved_on st st' \<Longrightarrow> moved_to st (caught_up A st')"
  "moved_on st st' \<Longrightarrow> moved_to st ((caught_up A st')\<lparr>ur_last_tx_id := smax_word (us_last st') t\<rparr>)"
  by (auto simp: moved_to_def unshielded_result_def caught_up_def Let_def smax_word_le)

lemma parse_utxo_sized: "parse_utxo W u = Ok v \<Longrightarrow> utxo_sized v"
  by (auto simp: parse_utxo_def hash_from_hex_def utxo_sized_def split: option.splits if_splits)

lemma applied_sized:
  assumes "apply_unshielded_tx W utxos tx = Ok (utxos', keys)" "list_all utxo_sized utxos"
  shows "list_all utxo_sized utxos'"
proof -
  obtain spent created where "traverse (parse_utxo W) (ut_created tx) = Ok created"
    "utxos' = filter (\<lambda>u. spent_key_of u \<notin> set (map spent_key_of spent)) utxos @ created"
    using assms(1) by (auto simp: apply_unshielded_tx_def Let_def)
  moreover from this(1) have "list_all utxo_sized created"
    using parse_utxo_sized by (fastforce simp: traverse_Ok_iff list_all_iff in_set_conv_nth list_all2_conv_all_nth)
  ultimately show ?thesis using assms(2) by (auto simp: list_all_iff)
qed

lemma run_txs_sized: "run_txs W txs utxos = Ok (utxos', keys) \<Longrightarrow> list_all utxo_sized utxos \<Longrightarrow> list_all utxo_sized utxos'"
  by (induction txs arbitrary: utxos utxos' keys) (auto dest: applied_sized)

lemma replayed_sized:
  assumes "replay_unshielded_events A server n utxos height = Ok r" "list_all utxo_sized utxos"
  shows "list_all utxo_sized (ur_utxos r)"
proof -
  obtain txs st' where "applies A (unshielded_init A utxos height) txs st'" "gives st' r"
    using assms(1) unshielded_loop_applies unfolding replay_unshielded_events_def by blast
  with assms(2) show ?thesis by (auto simp: applies_def gives_def unshielded_init_def dest: run_txs_sized)
qed

lemma add_tx_moves:
  assumes "apply_unshielded_tx W (us_utxos st) tx = Ok (utxos, keys)" "ut_id tx = Some i" "sint (us_last st) < sint i"
  shows "moved_on st (add_tx tx utxos keys st)"
  using assms
  by (auto simp: moved_on_def add_tx_def smax_word_le smax_word_def split: option.split)

lemma unshielded_frame_moves:
  assumes start: "0 < sint (ua_start A)" and named: "named_msg m"
  shows "unshielded_frame A m st = Inl st' \<Longrightarrow> moved_on st st'"
    and "unshielded_frame A m st = Inr (Ok r) \<Longrightarrow> moved_to st r"
proof -
  have "(\<forall>st'. unshielded_frame A m st = Inl st' \<longrightarrow> moved_on st st') \<and>
      (\<forall>r. unshielded_frame A m st = Inr (Ok r) \<longrightarrow> moved_to st r)"
  proof (cases m)
    case (UnshieldedProgress target)
    then show ?thesis using moved_to_result(3) [of st "st\<lparr>us_retries := 0\<rparr>"]
      by (auto simp: unshielded_progress_def Let_def)
  next
    case (UnshieldedTx tx)
    then obtain i where i: "ut_id tx = Some i" using named by auto
    let ?st = "st\<lparr>us_high := Some i\<rparr>"
    have same: "moved_on st ?st" by simp
    show ?thesis
    proof (cases "\<exists>utxos keys. apply_unshielded_tx (ua_host A) (us_utxos ?st) tx = Ok (utxos, keys) \<and>
        \<not> already_applied i (us_last ?st) (ua_start A) (0 < us_applied ?st)")
      case True
      then obtain utxos keys where run: "apply_unshielded_tx (ua_host A) (us_utxos ?st) tx = Ok (utxos, keys)"
        and "sint (us_last ?st) < sint i" using start by (auto simp: already_applied_def)
      then have "moved_on st (add_tx tx utxos keys ?st)" using add_tx_moves [OF run i] moved_on_trans [OF same] by blast
      then show ?thesis using run i UnshieldedTx moved_to_result(2)
        by (auto simp: unshielded_transaction_def unshielded_apply_def Let_def split: option.splits if_splits)
    next
      case False
      then show ?thesis using i UnshieldedTx same
        by (auto simp: unshielded_transaction_def unshielded_apply_def Let_def split: option.splits if_splits res.splits)
    qed
  qed
  then show "unshielded_frame A m st = Inl st' \<Longrightarrow> moved_on st st'"
    and "unshielded_frame A m st = Inr (Ok r) \<Longrightarrow> moved_to st r" by blast+
qed

lemma unshielded_retry_moves:
  "unshielded_retry b e st = Reconnect st' \<Longrightarrow> moved_on st st'" "unshielded_retry b e st \<noteq> Stop (Ok r)"
  by (auto simp: unshielded_retry_def split: if_splits)

lemma unshielded_frames_move:
  assumes start: "0 < sint (ua_start A)"
  shows "list_all (\<lambda>f. named_msg (frame_msg f)) fs \<Longrightarrow>
      unshielded_frames A fs ending st = Reconnect st' \<Longrightarrow> moved_on st st'"
    and "list_all (\<lambda>f. named_msg (frame_msg f)) fs \<Longrightarrow>
      unshielded_frames A fs ending st = Stop (Ok r) \<Longrightarrow> moved_to st r"
proof (induction fs arbitrary: st)
  case Nil
  { case 1 then show ?case using unshielded_retry_moves(1)
      by (fastforce simp: unshielded_ending_def split: ending.splits if_splits) }
  { case 2 then show ?case using unshielded_retry_moves(2) moved_to_result(1) [of st st]
      by (fastforce simp: unshielded_ending_def split: ending.splits if_splits) }
next
  case (Cons f fs)
  { case 1
    then obtain st1 where st1: "unshielded_frame A (frame_msg f) st = Inl st1" "unshielded_frames A fs ending st1 = Reconnect st'"
      by (auto split: sum.splits)
    with 1 Cons.IH(1) have "moved_on st1 st'" by simp
    with unshielded_frame_moves(1) [OF start _ st1(1)] 1 show ?case by (auto intro: moved_on_trans) }
  { case 2
    then show ?case
    proof (cases "unshielded_frame A (frame_msg f) st")
      case (Inl st1)
      with 2 Cons.IH(2) have "moved_to st1 r" by simp
      with unshielded_frame_moves(1) [OF start _ Inl] 2 show ?thesis by (auto intro: moved_to_trans)
    qed (use 2 unshielded_frame_moves(2) [OF start] in auto) }
qed

lemma unshielded_loop_moves:
  assumes start: "0 < sint (ua_start A)" and named: "names_txs server"
  shows "unshielded_loop A server n k st = Ok r \<Longrightarrow> moved_to st r"
proof (induction n arbitrary: k st)
  case (Suc n)
  then obtain i where id: "resume_tx_id A st = Ok i" by (auto simp: rbind_Ok_iff)
  have same: "moved_on st (st\<lparr>us_high := None\<rparr>)" by simp
  have conn: "(unshielded_connection A (server k i) st = Reconnect st1 \<longrightarrow> moved_on st st1) \<and>
      (unshielded_connection A (server k i) st = Stop (Ok r) \<longrightarrow> moved_to st r)" for st1
  proof (cases "server k i")
    case (Delivers fs ending)
    have frames: "unshielded_frames A fs ending (st\<lparr>us_high := None\<rparr>) = Reconnect st1 \<Longrightarrow> moved_on (st\<lparr>us_high := None\<rparr>) st1"
      "unshielded_frames A fs ending (st\<lparr>us_high := None\<rparr>) = Stop (Ok r) \<Longrightarrow> moved_to (st\<lparr>us_high := None\<rparr>) r"
      using unshielded_frames_move [OF start] named Delivers unfolding names_txs_def by blast+
    show ?thesis using Delivers frames moved_on_trans [OF same] moved_to_trans [OF same]
      by (simp add: unshielded_connection_def)
  qed (use unshielded_retry_moves in \<open>auto simp: unshielded_connection_def\<close>)
  show ?case
  proof (cases "unshielded_connection A (server k i) st")
    case (Reconnect st1)
    then have "moved_on st st1" "moved_to st1 r" using Suc id conn by simp_all
    then show ?thesis by (rule moved_to_trans)
  next
    case (Stop q)
    then show ?thesis using Suc.prems id conn by simp
  qed
qed simp

lemma unmoved_unshielded:
  assumes run: "replay_unshielded_events A server n utxos height = Ok r" and start: "0 < sint (ua_start A)" and named: "names_txs server"
  shows "sint height \<le> sint (ur_last_block_height r)"
    and "ur_last_tx_id r = ua_start A - 1 \<Longrightarrow> ur_utxos r = utxos"
proof -
  have "moved_to (unshielded_init A utxos height) r"
    using unshielded_loop_moves [OF start named] run by (simp add: replay_unshielded_events_def)
  then show "sint height \<le> sint (ur_last_block_height r)"
    "ur_last_tx_id r = ua_start A - 1 \<Longrightarrow> ur_utxos r = utxos"
    using start by (auto simp: moved_to_def moved_on_def unshielded_init_def last_applied_before_def)
qed

section \<open>A resync leaves the disk current\<close>

definition cursors_set :: "('z, 'd, 'x, 'p) wallet \<Rightarrow> bool" where
  "cursors_set w \<longleftrightarrow> 0 \<le> sint (wl_dust_event_id w) \<and> 0 \<le> sint (wl_zswap_event_id w) \<and>
     (case wl_last_tx_id w of None \<Rightarrow> True | Some i \<Rightarrow> 0 \<le> sint i)"

lemma run_resync_plan_Ok:
  assumes "run_resync_plan G X p = Ok c"
  obtains start_tx start_dust start_zswap dust zswap unshielded where
    "first_tx (rp_last_tx_id p) = Ok start_tx" "next_id (rp_dust_event_id p) = Ok start_dust"
    "next_id (rp_zswap_event_id p) = Ok start_zswap"
    "replay_dust_events (gn_api G) (source_of (gn_host G) start_dust True False) None (iv_dust X) (rp_dust_wallet p) = Ok dust"
    "replay_zswap_events (gn_api G) (source_of (gn_host G) start_zswap True False) (iv_zswap X 0) (rp_zswap_state p) = Ok zswap"
    "replay_unshielded_events \<lparr>ua_host = gn_host G, ua_start = start_tx, ua_resuming = True, ua_sender = False\<rparr>
      (iv_unshielded X) (iv_connections X) (rp_utxos p) (rp_last_block_height p) = Ok unshielded"
    "rc_dust_wallet c = dy_wallet dust" "rc_dust_event_id c = dy_last_id dust" "rc_zswap_state c = zr_state zswap"
    "rc_zswap_event_id c = zr_last_id zswap" "rc_utxos c = ur_utxos unshielded" "rc_last_tx_id c = ur_last_tx_id unshielded"
    "rc_last_block_height c = ur_last_block_height unshielded"
  using assms unfolding run_resync_plan_def Let_def rbind_Ok_iff res.inject
  by (elim exE conjE) (rule that, assumption+, auto simp only: resync_commit.simps)

lemma resync_faithful:
  assumes run: "run_resync_plan G X (resync_plan_of w) = Ok c" and named: "names_txs (iv_unshielded X)"
    and set: "cursors_set w" and sized: "list_all utxo_sized (wl_utxos w)"
  shows "faithful_commit c w"
proof -
  let ?W = "gn_host G" and ?L = "gn_api G"
  let ?A = "\<lambda>start. \<lparr>ua_host = ?W, ua_start = start, ua_resuming = True, ua_sender = False\<rparr>"
  obtain start_tx start_dust start_zswap dust zswap unshielded where starts:
    "first_tx (wl_last_tx_id w) = Ok start_tx" "next_id (wl_dust_event_id w) = Ok start_dust"
    "next_id (wl_zswap_event_id w) = Ok start_zswap" and replays:
    "replay_dust_events ?L (source_of ?W start_dust True False) None (iv_dust X) (wl_dust_wallet w) = Ok dust"
    "replay_zswap_events ?L (source_of ?W start_zswap True False) (iv_zswap X 0) (wl_zswap_state w) = Ok zswap"
    "replay_unshielded_events (?A start_tx) (iv_unshielded X) (iv_connections X) (wl_utxos w) (wl_last_block_height w) = Ok unshielded"
    and c: "rc_dust_wallet c = dy_wallet dust" "rc_dust_event_id c = dy_last_id dust" "rc_zswap_state c = zr_state zswap"
    "rc_zswap_event_id c = zr_last_id zswap" "rc_utxos c = ur_utxos unshielded" "rc_last_tx_id c = ur_last_tx_id unshielded"
    "rc_last_block_height c = ur_last_block_height unshielded"
    by (rule run_resync_plan_Ok [OF run, unfolded resync_plan_of_def resync_plan.simps]) (rule that)
  have ids: "0 \<le> sint (wl_dust_event_id w)" "0 \<le> sint (wl_zswap_event_id w)" using set by (simp_all add: cursors_set_def)
  have "rc_dust_wallet c = wl_dust_wallet w" if "rc_dust_event_id c = wl_dust_event_id w"
    using unmoved_dust [OF replays(1)] next_id_Ok [OF starts(2) ids(1)] that c by (simp add: source_of_def)
  moreover have "rc_zswap_state c = wl_zswap_state w" if "rc_zswap_event_id c = wl_zswap_event_id w"
    using unmoved_zswap [OF replays(2)] next_id_Ok [OF starts(3) ids(2)] that c by (simp add: source_of_def)
  moreover have "rc_utxos c = wl_utxos w \<and> rc_last_block_height c = wl_last_block_height w"
    if "Some (rc_last_tx_id c) = wl_last_tx_id w" "\<not> sint (wl_last_block_height w) < sint (rc_last_block_height c)"
  proof -
    have "next_id (rc_last_tx_id c) = Ok start_tx" "0 \<le> sint (rc_last_tx_id c)"
      using starts(1) set that(1) by (auto simp: first_tx_def cursors_set_def split: option.splits)
    note start = next_id_Ok [OF this]
    have "0 < sint (ua_start (?A start_tx))" "ur_last_tx_id unshielded = ua_start (?A start_tx) - 1"
      using start(2,3) c(6) by simp_all
    with unmoved_unshielded [OF replays(3) _ named] that(2) c(5,7)
    have "rc_utxos c = wl_utxos w" "sint (rc_last_block_height c) = sint (wl_last_block_height w)" by simp_all
    then show ?thesis using signed_word_eqI by blast
  qed
  moreover have "list_all utxo_sized (rc_utxos c)" using replayed_sized [OF replays(3) sized] c by simp
  ultimately show ?thesis by (auto simp: faithful_commit_def cursors_advanced_def)
qed

text \<open>
  C0: a resync of a stored wallet, run against any indexer that names its transactions and then
  committed, leaves on disk what the wallet then has in memory, reservations included, whenever
  the commit reports success. A commit that skips its save, because no cursor moved, is right to:
  its replays applied nothing.
\<close>

theorem resync_leaves_disk_current:
  assumes "wallet_law E" "disk_follows E (w, d)" "wl_has_storage w" "cursors_set w" "names_txs (iv_unshielded X)"
    and "run_resync_plan G X (resync_plan_of w) = Ok c" "commit_resync A E c (w, d) = (Ok (), w', d')"
  shows "disk_current E w' d'"
proof -
  have "list_all utxo_sized (wl_utxos w)" using assms(2) by (simp add: disk_follows_def)
  then have "faithful_commit c w" by (rule resync_faithful [OF assms(6,5,4)])
  from commit_resync_follows(2) [OF assms(1,2) this assms(7)] assms(3) show ?thesis by simp
qed

section \<open>A resync over a dropped connection\<close>

definition resync_wallet :: "(bytes list, bytes list, unit, unit) wallet" where
  "resync_wallet =
     \<lparr>wl_seed = ''s'', wl_zswap_state = [[97]], wl_zswap_event_id = 1, wl_dust_wallet = [], wl_dust_event_id = 5,
      wl_utxos = [sample_utxo], wl_last_block_height = 6, wl_last_tx_id = Some 3, wl_chain_pin = None,
      wl_parameters = \<lparr>lp_global_ttl = 60, lp_dust_grace_period = 30, lp_night_dust_ratio = 1, lp_generation_decay_rate = 1,
        lp_overall_price = 1, lp_rest = ()\<rparr>,
      wl_block_context = None, wl_pending = no_reservations, wl_has_storage = True, wl_save_failed = False\<rparr>"

definition resynced_wallet :: "(bytes list, bytes list, unit, unit) wallet" where
  "resynced_wallet = resync_wallet\<lparr>wl_zswap_state := [[97], [98], [99]], wl_zswap_event_id := 3,
     wl_block_context := Some \<lparr>bc_tblock = 4000, bc_last_block_time = 4000\<rparr>\<rparr>"

definition resync_metadata :: "u64 \<Rightarrow> i64 \<Rightarrow> stored_metadata" where
  "resync_metadata g i =
     \<lparr>md_generation = g, md_ledger = V9, md_zswap_event_id = i, md_dust_event_id = 5, md_last_block_height = 6,
      md_last_tx_id = Some 3, md_chain_pin = None, md_utxos = [stored_utxo_of sample_wallet_host sample_utxo]\<rparr>"

text \<open>States whose events are single bytes, and the two metadata that the example stores.\<close>

definition bytes_of_events :: "bytes list \<Rightarrow> bytes option" where
  "bytes_of_events es = (if list_all (\<lambda>e. length e = 1) es then Some (concat es) else None)"

definition resync_codec :: "(bytes list, bytes list, unit) wallet_codec" where
  "resync_codec =
     \<lparr>wc_snapshot = \<lparr>sc_host = sample_wallet_host, sc_ledger = V9, sc_zswap_to = bytes_of_events,
        sc_zswap_from = (\<lambda>bs. Some (map (\<lambda>b. [b]) bs)), sc_dust_to = bytes_of_events,
        sc_dust_from = (\<lambda>bs. Some (map (\<lambda>b. [b]) bs)),
        sc_metadata_to = (\<lambda>m. if m = resync_metadata 1 1 then Some ''before''
          else if m = resync_metadata 2 3 then Some ''after'' else None),
        sc_metadata_from = (\<lambda>js. Some (if js = ''before'' then resync_metadata 1 1 else resync_metadata 2 3)),
        sc_pending_to = (\<lambda>p. None), sc_pending_from = (\<lambda>js. None)\<rparr>,
      wc_pending = sample_codec\<rparr>"

definition resync_generation :: "(bytes, bytes list, bytes list, unit, unit, unit) generation" where
  "resync_generation =
     \<lparr>gn_host = sample_wallet_host, gn_api = sample_api,
      gn_wallet = \<lparr>wa_watch_for = (\<lambda>z c. z), wa_commitment = (\<lambda>c. []), wa_pending_outputs = (\<lambda>z. []),
        wa_remove_output = (\<lambda>z k. z), wa_coins = (\<lambda>z. []), wa_remove_coin = (\<lambda>z n. z), wa_has_dust_state = (\<lambda>d. True),
        wa_mark_spent = (\<lambda>d ss. d), wa_owner = (\<lambda>seed. []), wa_plus = (\<lambda>t s. t + word_of_int s)\<rparr>,
      gn_codec = resync_codec, gn_parameters = (\<lambda>bs. Some (wl_parameters resync_wallet)), gn_empty = [],
      gn_fresh_dust = (\<lambda>seed p. [])\<rparr>"

definition resync_view :: indexer_view where
  "resync_view =
     \<lparr>iv_block = Answers (\<lambda>k. if k = 0 then Inl (Transport ''reset'')
        else Inr (Some \<lparr>bk_timestamp = Some 4000000, bk_parameters = Some ''p''\<rparr>)),
      iv_zswap = (\<lambda>k. sample_indexer), iv_dust = (\<lambda>k i. Delivers [] Silent),
      iv_unshielded = (\<lambda>k i. Delivers [Frame (UnshieldedProgress 3) 0 ChOpen] Silent), iv_connections = 1,
      iv_unshielded_first = False\<rparr>"

definition resync_dir :: wallet_dir where
  "resync_dir =
     \<lparr>wd_metadata = Some ''before'', wd_zswap = [1 \<mapsto> [97]], wd_dust = [1 \<mapsto> []], wd_pending = None, wd_faults = []\<rparr>"

definition resync_sample_commit :: "(bytes list, bytes list, unit) resync_commit" where
  "resync_sample_commit =
     \<lparr>rc_dust_wallet = [], rc_dust_event_id = 5, rc_last_dust_block_time = None, rc_dust_nullifiers = [],
      rc_zswap_state = [[97], [98], [99]], rc_zswap_event_id = 3, rc_utxos = [sample_utxo], rc_last_tx_id = 3,
      rc_last_block_height = 6, rc_spent_unshielded = [], rc_chain_tblock = 4000,
      rc_parameters = wl_parameters resync_wallet\<rparr>"

lemma resync_codec_law: "wallet_law resync_codec"
proof -
  have "map (\<lambda>b. [b]) (concat es) = es" if "list_all (\<lambda>e. length e = 1) es" for es :: "bytes list"
    using that by (induction es) (auto simp: length_Suc_conv)
  then have "bytes_of_events es = Some bs \<Longrightarrow> map (\<lambda>b. [b]) bs = es" for es bs
    by (auto simp: bytes_of_events_def split: if_splits)
  then show ?thesis using sample_hex_law
    by (auto simp: wallet_law_def snapshot_law_def resync_codec_def split: if_splits)
qed

lemma resync_dust: "replay_dust_events sample_api (source_of sample_wallet_host 6 True False) None (\<lambda>k i. Delivers [] Silent) [] =
    Ok \<lparr>dy_wallet = [], dy_last_id = 5, dy_last_block_time = None, dy_spend_nullifiers = [], dy_later = None, dy_saved = []\<rparr>"
  by (simp add: replay_dust_events_def dust_flush_def batch_apply_dust_def batch_new_def dust_init_def replay_unfold source_of_def)

lemma resync_zswap: "replay_zswap_events sample_api (source_of sample_wallet_host 2 True False) sample_indexer [[97]] =
    Ok \<lparr>zr_state = [[97], [98], [99]], zr_last_id = 3, zr_later = None\<rparr>"
  by (simp add: replay_zswap_events_def zswap_apply_def expect_ledger_def decode_event_def batch_push_def batch_new_def
      batch_is_full_def replay_batch_size_def zswap_flush_eq replay_unfold source_of_def)

lemma resync_unshielded:
  "replay_unshielded_events \<lparr>ua_host = sample_wallet_host, ua_start = 4, ua_resuming = True, ua_sender = False\<rparr>
     (\<lambda>k i. Delivers [Frame (UnshieldedProgress 3) 0 ChOpen] Silent) 1 [sample_utxo] 6 =
    Ok \<lparr>ur_utxos = [sample_utxo], ur_last_tx_id = 3, ur_last_block_height = 6, ur_spent = [], ur_sent = []\<rparr>"
  by (simp add: replay_unshielded_events_def unshielded_init_def resume_tx_id_def unshielded_connection_def unshielded_progress_def
      last_applied_before_def smax_word_def caught_up_def unshielded_result_def Let_def)

lemma resync_latest: "latest_block (iv_block resync_view) = Ok \<lparr>bk_timestamp = Some 4000000, bk_parameters = Some ''p''\<rparr>"
  by (simp add: resync_view_def query_block.simps reconnect_max_retries_def)

lemma resync_run: "run_resync_plan resync_generation resync_view (resync_plan_of resync_wallet) = Ok resync_sample_commit"
proof -
  have "validate_ledger_parameters (wl_parameters resync_wallet) = Ok ()"
    by (simp add: validate_ledger_parameters_def resync_wallet_def)
  then show ?thesis
    unfolding run_resync_plan_def resync_latest
    using resync_dust resync_zswap resync_unshielded
    by (simp add: resync_plan_of_def resync_wallet_def resync_generation_def resync_view_def first_tx_def next_id_def Let_def
        unpanicked_def no_later_def resync_sample_commit_def ledger_of_def encoded_ledger_parameters_def of_ledger_parameters_def
        of_tagged_def sample_wallet_host_def expect_ledger_def sample_api_def block_time_def decode_ledger_parameters_def
        signed_divide_int_def)
qed

lemma resync_empty_pending:
  "to_stored sample_codec V9 no_reservations = Ok \<lparr>st_ledger_version = V9, st_dust = [], st_unshielded = [], st_shielded = []\<rparr>"
  by (rule sample_to_stored_none)

lemma resync_follows: "disk_follows resync_codec (resync_wallet, resync_dir)"
proof -
  let ?C = "wc_snapshot resync_codec"
  have law: "snapshot_law ?C" using resync_codec_law by (simp add: wallet_law_def)
  have sized: "list_all utxo_sized (wl_utxos resync_wallet)"
    by (simp add: resync_wallet_def utxo_sized_def sample_utxo_def)
  have "on_disk ?C resync_dir = Ok (Some (snapshot_of resync_wallet))"
    by (rule on_disk_committed(1) [OF law, where g = 1])
      (use sized in \<open>simp_all add: saved_utxos_def snapshot_of_def state_written_def resync_dir_def resync_codec_def
        resync_wallet_def metadata_of_def resync_metadata_def bytes_of_events_def\<close>)
  moreover have "stored_reservations resync_codec no_reservations resync_dir"
    unfolding stored_reservations_def pending_on_disk_eq
    by (intro exI [of _ "\<lparr>st_ledger_version = V9, st_dust = [], st_unshielded = [], st_shielded = []\<rparr>"])
      (simp add: resync_codec_def resync_empty_pending stored_is_empty_def resync_dir_def)
  moreover have "wl_pending resync_wallet = no_reservations" by (simp add: resync_wallet_def)
  ultimately show ?thesis using sized by (simp add: disk_follows_def disk_current_def)
qed

definition resynced_dir :: wallet_dir where
  "resynced_dir =
     \<lparr>wd_metadata = Some ''after'', wd_zswap = [2 \<mapsto> [97, 98, 99]], wd_dust = [2 \<mapsto> []], wd_pending = None, wd_faults = []\<rparr>"

lemma resync_save: "save (wc_snapshot resync_codec) (snapshot_of resynced_wallet) resync_dir = (Ok (), resynced_dir)"
proof -
  have meta: "metadata_of (wc_snapshot resync_codec) (snapshot_of resynced_wallet) = resync_metadata 0 3"
    by (simp add: metadata_of_def snapshot_of_def resynced_wallet_def resync_wallet_def resync_metadata_def resync_codec_def)
  have gens: "(resync_metadata g i)\<lparr>md_generation := h\<rparr> = resync_metadata h i" "md_generation (resync_metadata g i) = g"
    "resync_metadata 2 3 \<noteq> resync_metadata 1 1" for g h i
    by (simp_all add: resync_metadata_def)
  show ?thesis
    unfolding save_def meta
    by (simp add: save_unfold resync_dir_def del: sbind_Ok_iff)
      (simp add: resync_codec_def resynced_wallet_def resync_wallet_def snapshot_of_def save_unfold bytes_of_events_def gens
        resynced_dir_def fun_eq_iff del: sbind_Ok_iff)
qed

lemma resync_committed:
  "commit_resync (gn_wallet resync_generation) resync_codec resync_sample_commit (resync_wallet, resync_dir) =
     (Ok (), resynced_wallet, resynced_dir)"
proof -
  have w: "committed (gn_wallet resync_generation) resync_sample_commit resync_wallet = resynced_wallet"
    by (simp add: committed_def resynced_wallet_def resync_wallet_def resync_sample_commit_def resync_generation_def
        dust_anchor_def)
  have "cursors_advanced resync_sample_commit resync_wallet"
    by (simp add: cursors_advanced_def resync_sample_commit_def resync_wallet_def)
  moreover have "wl_pending resynced_wallet = no_reservations" "wl_has_storage resynced_wallet"
    by (simp_all add: resynced_wallet_def resync_wallet_def)
  moreover have "clear_confirmed [] [] no_reservations = (False, no_reservations :: unit reservations)"
    by (simp add: clear_confirmed_def no_reservations_def)
  moreover have "pending_save resync_codec no_reservations resynced_dir = (Ok (), resynced_dir)"
    by (simp add: pending_save_def resync_codec_def resync_empty_pending save_pending_def stored_is_empty_def save_unfold
        resynced_dir_def del: sbind_Ok_iff)
  moreover have "rc_spent_unshielded resync_sample_commit = []" "rc_dust_nullifiers resync_sample_commit = []"
    by (simp_all add: resync_sample_commit_def)
  moreover have same: "resynced_wallet\<lparr>wl_pending := no_reservations\<rparr> = resynced_wallet"
    "resynced_wallet\<lparr>wl_pending := no_reservations, wl_save_failed := False\<rparr> = resynced_wallet"
    by (simp_all add: resynced_wallet_def resync_wallet_def)
  ultimately show ?thesis
    by (simp add: same commit_resync_def w Let_def persist_def wallet_save_def sbind_apply resync_save del: sbind_Ok_iff)
qed

theorem resync_leaves_disk_current_witness:
  "disk_current resync_codec resynced_wallet resynced_dir \<and> wl_zswap_state resynced_wallet = [[97], [98], [99]]"
proof -
  have "wl_has_storage resync_wallet" "cursors_set resync_wallet" "names_txs (iv_unshielded resync_view)"
    by (simp_all add: resync_wallet_def cursors_set_def names_txs_def resync_view_def)
  from resync_leaves_disk_current [OF resync_codec_law resync_follows this resync_run resync_committed]
  show ?thesis by (simp add: resynced_wallet_def)
qed

end
