(* ===== verification/WalletSync.thy ===== *)
theory WalletSync
  imports WalletResync
begin

text \<open>
  What a wallet asks of a node before it syncs: the network, \<^verbatim>\<open>crates/midnight-types/src/network.rs\<close>,
  the chain pin, \<^verbatim>\<open>src/chain_pin.rs\<close>, and the checks of \<^verbatim>\<open>WalletBuilder::prepare\<close> in
  \<^verbatim>\<open>crates/midnight-wallet/src/sync.rs\<close>.

  The node is an argument that answers each query by the number of queries before it, so that its
  chain may be replaced between any two of them.
\<close>

section \<open>Networks\<close>

datatype network = Undeployed | Preprod | Testnet | Mainnet | OtherNetwork string

fun network_name :: "network \<Rightarrow> string" where
  "network_name Undeployed = ''undeployed''"
| "network_name Preprod = ''preprod''"
| "network_name Testnet = ''testnet''"
| "network_name Mainnet = ''mainnet''"
| "network_name (OtherNetwork name) = name"

definition max_name_len :: nat where
  "max_name_len = 83 - length ''mn_shield-addr_''"

definition name_byte :: "char \<Rightarrow> bool" where
  "name_byte c \<longleftrightarrow> (let n = of_char c :: nat in (97 \<le> n \<and> n \<le> 122) \<or> (48 \<le> n \<and> n \<le> 57) \<or> c = CHR ''-'' \<or> c = CHR ''_'')"

text \<open>\<^verbatim>\<open>str::parse::<Network>\<close>; the error holds the name.\<close>

definition parse_network :: "string \<Rightarrow> (string, network) res" where
  "parse_network name =
     (if name = ''undeployed'' then Ok Undeployed
      else if name = ''preprod'' then Ok Preprod
      else if name = ''testnet'' then Ok Testnet
      else if name = ''mainnet'' then Ok Mainnet
      else if 1 \<le> length name \<and> length name \<le> max_name_len \<and> list_all name_byte name then Ok (OtherNetwork name)
      else Err name)"

lemma parse_network_name: "parse_network name = Ok n \<Longrightarrow> network_name n = name"
  by (auto simp: parse_network_def split: if_splits)

text \<open>A network that a parse makes: an other network never has the name of a known one.\<close>

definition parsed_network :: "network \<Rightarrow> bool" where
  "parsed_network n \<longleftrightarrow> (case n of OtherNetwork name \<Rightarrow> parse_network name = Ok n | _ \<Rightarrow> True)"

text \<open>
  C0: a parse gives back the name it read, and reads back every network it can give: two networks
  never share a name. A name that parses is one to 68 bytes long and holds no slash, no dot and no
  uppercase letter, so it is one component of a path and fits the prefix of an address.
\<close>

theorem network_roundtrip:
  "(parse_network name = Ok n \<longleftrightarrow> parsed_network n \<and> network_name n = name) \<and>
   (parse_network name \<noteq> Err name \<longrightarrow> name \<noteq> [] \<and> length (''mn_shield-addr_'' @ name) \<le> 83 \<and> list_all name_byte name)"
proof (intro conjI impI)
  show "parse_network name = Ok n \<longleftrightarrow> parsed_network n \<and> network_name n = name"
  proof
    assume parse: "parse_network name = Ok n"
    then have "network_name n = name" by (rule parse_network_name)
    with parse show "parsed_network n \<and> network_name n = name" by (auto simp: parsed_network_def split: network.split)
  next
    assume "parsed_network n \<and> network_name n = name"
    then show "parse_network name = Ok n" by (cases n) (auto simp: parsed_network_def parse_network_def)
  qed
next
  have known: "list_all name_byte ''undeployed''" "list_all name_byte ''preprod''" "list_all name_byte ''testnet''"
    "list_all name_byte ''mainnet''"
    by (simp_all add: name_byte_def)
  assume "parse_network name \<noteq> Err name"
  then show "name \<noteq> []" "length (''mn_shield-addr_'' @ name) \<le> 83" "list_all name_byte name"
    using known by (auto simp: parse_network_def max_name_len_def split: if_splits)
qed

section \<open>Chain pins\<close>

datatype chain_check = SameChain | Replaced "bytes option" | Unknown

text \<open>\<^verbatim>\<open>{:#x}\<close> of a block hash.\<close>

definition hex_digit :: "u8 \<Rightarrow> char" where
  "hex_digit d = char_of (if unat d < 10 then 48 + unat d else 87 + unat d)"

definition pin_hash :: "bytes \<Rightarrow> string" where
  "pin_hash h = ''0x'' @ concat (map (\<lambda>b. [hex_digit (drop_bit 4 b), hex_digit (take_bit 4 b)]) h)"

definition ascii_lower :: "char \<Rightarrow> char" where
  "ascii_lower c = (let n = of_char c :: nat in if 65 \<le> n \<and> n \<le> 90 then char_of (n + 32) else c)"

definition eq_ignore_case :: "string \<Rightarrow> string \<Rightarrow> bool" where
  "eq_ignore_case a b \<longleftrightarrow> map ascii_lower a = map ascii_lower b"

definition check_chain_pin :: "chain_pin \<Rightarrow> bytes list option \<Rightarrow> chain_check" where
  "check_chain_pin pin hashes =
     (case hashes of None \<Rightarrow> Unknown
      | Some hs \<Rightarrow>
          if list_ex (\<lambda>h. eq_ignore_case (pin_hash h) (cp_hash pin)) hs then SameChain
          else Replaced (case hs of [] \<Rightarrow> None | h # _ \<Rightarrow> Some h))"

section \<open>The node\<close>

text \<open>The answer to a query, by the number of queries that the node answered before.\<close>

record node =
  nd_finalized_height :: "nat \<Rightarrow> u64 option"
  nd_hashes_at :: "nat \<Rightarrow> u64 \<Rightarrow> bytes list option"
  nd_network :: "nat \<Rightarrow> network option"

type_synonym 'a node_op = "(nat, wallet_error, 'a) sm"

definition ask :: "(nat \<Rightarrow> 'a) \<Rightarrow> 'a node_op" where
  "ask answer = (\<lambda>k. (Ok (answer k), Suc k))"

definition current_pin :: "node \<Rightarrow> chain_pin option node_op" where
  "current_pin N =
     sbind (ask (nd_finalized_height N)) (\<lambda>height.
     case height of None \<Rightarrow> sret None
     | Some h \<Rightarrow>
         sbind (ask (\<lambda>k. nd_hashes_at N k h)) (\<lambda>hashes.
         sret (case hashes of Some (hash # _) \<Rightarrow> Some \<lparr>cp_height = h, cp_hash = pin_hash hash\<rparr> | _ \<Rightarrow> None)))"

definition verify_pin :: "node \<Rightarrow> chain_pin \<Rightarrow> chain_check node_op" where
  "verify_pin N pin = sbind (ask (\<lambda>k. nd_hashes_at N k (cp_height pin))) (\<lambda>hashes. sret (check_chain_pin pin hashes))"

definition require_same_chain :: "node \<Rightarrow> chain_pin \<Rightarrow> string option \<Rightarrow> unit node_op" where
  "require_same_chain N pin snapshot =
     sbind (verify_pin N pin) (\<lambda>check.
     case check of SameChain \<Rightarrow> sret () | Unknown \<Rightarrow> sret ()
     | Replaced found \<Rightarrow> sfail (ChainMismatch (case snapshot of None \<Rightarrow> ''the wallet snapshot'' | Some path \<Rightarrow> path)
         (cp_height pin) (cp_hash pin) (case found of None \<Rightarrow> ''no block'' | Some h \<Rightarrow> pin_hash h)))"

section \<open>The preparation of a sync\<close>

text \<open>
  A wallet before its sync. The storage, when there is one, gives for a network the directory of
  this wallet there, and its path.
\<close>

record wallet_builder =
  wb_seed :: string
  wb_network :: "network option"
  wb_storage :: "(network \<Rightarrow> wallet_dir \<times> string) option"
  wb_pin :: bool

record sync_plan =
  sp_seed :: string
  sp_network :: network
  sp_has_storage :: bool
  sp_chain_pin :: "chain_pin option"

definition settle_network :: "node \<Rightarrow> network option \<Rightarrow> bool \<Rightarrow> network node_op" where
  "settle_network N chosen pin =
     (case chosen of
        Some wallet \<Rightarrow>
          if pin then sbind (ask (nd_network N)) (\<lambda>answer. case answer of
              Some chain \<Rightarrow> if chain \<noteq> wallet then sfail (NetworkMismatch (network_name wallet) (network_name chain)) else sret wallet
            | None \<Rightarrow> sret wallet)
          else sret wallet
      | None \<Rightarrow> sbind (ask (nd_network N)) (\<lambda>answer. slift (ok_or NetworkUnknown answer)))"

text \<open>The fresh pin is taken before the stored pin is checked.\<close>

definition pin_chain ::
  "('z, 'd) snapshot_codec \<Rightarrow> node \<Rightarrow> (wallet_dir \<times> string) option \<Rightarrow> chain_pin option node_op" where
  "pin_chain C N storage =
     sbind (current_pin N) (\<lambda>candidate.
     case storage of None \<Rightarrow> sret candidate
     | Some (dir, path) \<Rightarrow>
         sbind (slift (fst (load_chain_pin C dir))) (\<lambda>stored.
         case stored of None \<Rightarrow> sret candidate
         | Some p \<Rightarrow> sbind (require_same_chain N p (Some path)) (\<lambda>_. sret candidate)))"

definition prepare :: "('z, 'd) snapshot_codec \<Rightarrow> node \<Rightarrow> wallet_builder \<Rightarrow> sync_plan node_op" where
  "prepare C N B =
     sbind (settle_network N (wb_network B) (wb_pin B)) (\<lambda>network.
     sbind (if wb_pin B then pin_chain C N (map_option (\<lambda>dirs. dirs network) (wb_storage B)) else sret None) (\<lambda>chain_pin.
     sret \<lparr>sp_seed = wb_seed B, sp_network = network, sp_has_storage = (wb_storage B \<noteq> None), sp_chain_pin = chain_pin\<rparr>))"

section \<open>What a prepared sync has checked\<close>

definition holds_pin :: "node \<Rightarrow> nat \<Rightarrow> chain_pin \<Rightarrow> bool" where
  "holds_pin N k p \<longleftrightarrow> (case nd_hashes_at N k (cp_height p) of None \<Rightarrow> True
     | Some hs \<Rightarrow> list_ex (\<lambda>h. eq_ignore_case (pin_hash h) (cp_hash p)) hs)"

definition took_pin :: "node \<Rightarrow> nat \<Rightarrow> chain_pin \<Rightarrow> bool" where
  "took_pin N k p \<longleftrightarrow> (case nd_hashes_at N k (cp_height p) of Some (h # _) \<Rightarrow> cp_hash p = pin_hash h | _ \<Rightarrow> False)"

lemma eq_ignore_case_refl [simp]: "eq_ignore_case a a"
  by (simp add: eq_ignore_case_def)

lemma current_pin_result:
  assumes "current_pin N k = (Ok p, k')"
  shows "k < k'" "\<And>q. p = Some q \<Longrightarrow> \<exists>i. k < i \<and> i < k' \<and> took_pin N i q"
  using assms
  by (auto simp: current_pin_def ask_def sbind_apply sm_simps took_pin_def split: option.splits list.splits)

lemma require_same_chain_result:
  "require_same_chain N p path k = (Ok (), k') \<longleftrightarrow> k' = Suc k \<and> holds_pin N k p"
  by (auto simp: require_same_chain_def verify_pin_def ask_def sbind_apply sm_simps check_chain_pin_def holds_pin_def
      split: option.splits if_splits)

text \<open>
  C0: a pinned sync that may go on has the network that the caller chose or the node reported, never
  one that the node contradicted. Over a snapshot with a pin, the node held the pinned block or gave
  no answer for its height, at a query that came after the one whose block the new pin holds: a chain
  that is replaced during the sync is found out by the next check.
\<close>

theorem prepared_sync_is_on_its_chain:
  assumes "prepare C N B k = (Ok plan, k')" "wb_pin B"
  shows "(wb_network B = Some (sp_network plan) \<and> (nd_network N k = None \<or> nd_network N k = Some (sp_network plan)) \<or>
      wb_network B = None \<and> nd_network N k = Some (sp_network plan)) \<and>
    (sp_chain_pin plan = None \<or> (\<exists>q i. sp_chain_pin plan = Some q \<and> i < k' \<and> took_pin N i q)) \<and>
    (case wb_storage B of None \<Rightarrow> True | Some dirs \<Rightarrow>
       (case fst (load_chain_pin C (fst (dirs (sp_network plan)))) of
          Ok None \<Rightarrow> True
        | Ok (Some p) \<Rightarrow> \<exists>j < k'. holds_pin N j p \<and>
            (sp_chain_pin plan = None \<or> (\<exists>q i. sp_chain_pin plan = Some q \<and> i < j \<and> took_pin N i q))
        | _ \<Rightarrow> False))"
proof -
  obtain n k1 where settle: "settle_network N (wb_network B) True k = (Ok n, k1)"
    and pin: "pin_chain C N (map_option (\<lambda>dirs. dirs n) (wb_storage B)) k1 = (Ok (sp_chain_pin plan), k')"
    and n: "sp_network plan = n"
    using assms by (auto simp: prepare_def)
  obtain candidate k2 where candidate: "current_pin N k1 = (Ok candidate, k2)"
    and stored: "(case map_option (\<lambda>dirs. dirs n) (wb_storage B) of None \<Rightarrow> sret candidate
      | Some (dir, path) \<Rightarrow> sbind (slift (fst (load_chain_pin C dir))) (\<lambda>stored.
         case stored of None \<Rightarrow> sret candidate
         | Some p \<Rightarrow> sbind (require_same_chain N p (Some path)) (\<lambda>_. sret candidate))) k2 = (Ok (sp_chain_pin plan), k')"
    using pin by (auto simp: pin_chain_def)
  note taken = current_pin_result [OF candidate]
  have plan: "sp_chain_pin plan = candidate" "k2 \<le> k'"
    using stored by (auto simp: require_same_chain_result split: option.splits prod.splits)
  have "(wb_network B = Some n \<and> (nd_network N k = None \<or> nd_network N k = Some n)) \<or>
      wb_network B = None \<and> nd_network N k = Some n"
    using settle by (auto simp: settle_network_def ask_def sbind_apply sm_simps split: option.splits if_splits)
  moreover have "sp_chain_pin plan = None \<or> (\<exists>q i. sp_chain_pin plan = Some q \<and> i < j \<and> took_pin N i q)" if "k2 \<le> j" for j
    using taken(2) plan(1) that by (cases candidate) (fastforce dest: less_le_trans)+
  moreover have "case wb_storage B of None \<Rightarrow> True | Some dirs \<Rightarrow>
       (case fst (load_chain_pin C (fst (dirs n))) of
          Ok None \<Rightarrow> True | Ok (Some p) \<Rightarrow> k' = Suc k2 \<and> holds_pin N k2 p | _ \<Rightarrow> False)"
    using stored by (auto simp: require_same_chain_result split: option.splits prod.splits res.splits)
  ultimately show ?thesis
    using plan(2) unfolding n by (auto split: option.splits res.splits intro!: exI [of _ k2])
qed

section \<open>A node on the pinned chain\<close>

theorem network_roundtrip_witness:
  "parse_network ''node-dev_01'' = Ok (OtherNetwork ''node-dev_01'') \<and> length (''mn_shield-addr_'' @ ''node-dev_01'') \<le> 83"
proof -
  have "parsed_network (OtherNetwork ''node-dev_01'')"
    by (simp add: parsed_network_def parse_network_def max_name_len_def name_byte_def)
  then have "parse_network ''node-dev_01'' = Ok (OtherNetwork ''node-dev_01'')"
    using network_roundtrip [of "''node-dev_01''" "OtherNetwork ''node-dev_01''"] by simp
  then show ?thesis using network_roundtrip [of "''node-dev_01''"] by simp
qed

definition sample_pin :: chain_pin where
  "sample_pin = \<lparr>cp_height = 42, cp_hash = pin_hash [170]\<rparr>"

text \<open>A codec whose metadata holds the pin, and a node whose finalized height is the pinned one.\<close>

definition pinned_codec :: "(bytes, bytes) snapshot_codec" where
  "pinned_codec = sample_snapshot_codec\<lparr>sc_metadata_from := (\<lambda>js. Some ((sample_metadata 1 1)\<lparr>md_chain_pin := Some sample_pin\<rparr>))\<rparr>"

definition sample_node :: node where
  "sample_node =
     \<lparr>nd_finalized_height = (\<lambda>k. Some 42), nd_hashes_at = (\<lambda>k h. Some [[170]]), nd_network = (\<lambda>k. Some Preprod)\<rparr>"

definition sample_builder :: wallet_builder where
  "sample_builder =
     \<lparr>wb_seed = ''s'', wb_network = None, wb_storage = Some (\<lambda>n. (sample_dir, network_name n)), wb_pin = True\<rparr>"

definition sample_plan :: sync_plan where
  "sample_plan = \<lparr>sp_seed = ''s'', sp_network = Preprod, sp_has_storage = True, sp_chain_pin = Some sample_pin\<rparr>"

lemma sample_stored_pin: "fst (load_chain_pin pinned_codec sample_dir) = Ok (Some sample_pin)"
  by (simp add: load_chain_pin_def read_metadata_def read_json_def dir_ops sbind_apply sm_simps pinned_codec_def sample_dir_def
      del: sbind_Ok_iff)

lemma sample_prepare: "prepare pinned_codec sample_node sample_builder 0 = (Ok sample_plan, 4)"
  by (simp add: prepare_def sample_builder_def settle_network_def ask_def sample_node_def pin_chain_def current_pin_def
      sample_stored_pin require_same_chain_def verify_pin_def check_chain_pin_def sample_pin_def sample_plan_def sbind_apply
      sm_simps del: sbind_Ok_iff)

theorem prepared_sync_is_on_its_chain_witness:
  "nd_network sample_node 0 = Some (sp_network sample_plan) \<and> (\<exists>j. holds_pin sample_node j sample_pin)"
proof -
  have "wb_pin sample_builder" "wb_network sample_builder = None" by (simp_all add: sample_builder_def)
  with prepared_sync_is_on_its_chain [OF sample_prepare] show ?thesis
    by (auto simp: sample_builder_def sample_stored_pin)
qed

end
