(* ===== verification/Spec2Isabelle.thy ===== *)
theory Spec2Isabelle
  imports Prelude Journal JournalStore JournalContract JournalTransfer Sexp IrModel IrParse IrPrint Artifact
    RtTypes RtNatives RtEncode RtDefaults Interp InterpEval InterpPure InterpLaw InterpRuns InterpReplay InterpSamples InterpNodes WalletReplay WalletUnshielded WalletPending WalletStore WalletBatch WalletState WalletResync WalletSync
begin

text \<open>
  A verification development for the Midnight SDK in Rust.
\<close>

end
